(* ===== verification/Prelude.thy ===== *)
theory Prelude
  imports Main "HOL-Library.Word" "HOL-Library.List_Lexorder" "HOL-Library.Product_Lexorder"
    "HOL-Library.Char_ord"
begin

text \<open>
  Shared vocabulary of the development: the machine types, the results of fallible
  code, the ordered map of the Rust standard library (\<open>BTreeMap\<close>) as a sorted
  association list, and the string and number routines of the standard library that
  the modelled code calls.  A Rust \<open>str\<close> is its list of UTF-8 bytes, so
  \<^typ>\<open>string\<close> has the byte length and the bytewise order that Rust uses.
\<close>

named_theorems env_simps \<open>characteristic equations of the batch envelope\<close>
named_theorems btm_intros \<open>sortedness rules of the ordered map\<close>

section \<open>Machine integers and results\<close>

type_synonym u64 = "64 word"
type_synonym u32 = "32 word"
type_synonym u16 = "16 word"
type_synonym u8 = "8 word"

text \<open>\<open>Result<T, String>\<close> with the error on the left.\<close>

type_synonym 'a res = "string + 'a"

definition u64_max :: u64 where
  "u64_max = - 1"

definition sat_sub :: "u64 \<Rightarrow> u64 \<Rightarrow> u64" where
  "sat_sub a b = (if b \<le> a then a - b else 0)"

definition sat_add :: "u64 \<Rightarrow> u64 \<Rightarrow> u64" where
  "sat_add a b = (if unat a + unat b < 2 ^ 64 then a + b else u64_max)"

lemma unat_u64_max: "unat u64_max = 2 ^ 64 - 1"
  by (simp add: u64_max_def unsigned_minus_1_eq_mask mask_eq_exp_minus_1)

lemma le_u64_max [simp]: "(a :: u64) \<le> u64_max"
  by (simp add: u64_max_def)

lemma unat_sat_sub: "unat (sat_sub a b) = unat a - unat b"
  by (auto simp: sat_sub_def unat_sub_if' word_le_nat_alt)

lemma unat_sat_add: "unat (sat_add a b) = min (unat a + unat b) (2 ^ 64 - 1)"
  by (auto simp: sat_add_def unat_u64_max unat_word_ariths min_def)

lemma sat_sub_le [simp]: "sat_sub a b \<le> a"
  by (simp add: word_le_nat_alt unat_sat_sub)

lemma sat_add_one_greater: "a < b \<Longrightarrow> sat_add a 1 \<le> b"
  by (simp add: word_le_nat_alt word_less_nat_alt unat_sat_add)

lemma less_sat_add_one: "a \<noteq> u64_max \<Longrightarrow> a < sat_add a 1"
proof -
  assume "a \<noteq> u64_max"
  then have "unat a < unat u64_max"
    by (metis le_u64_max order_le_imp_less_or_eq word_less_nat_alt)
  then show ?thesis by (simp add: word_less_nat_alt unat_sat_add unat_u64_max)
qed

fun and_then :: "'e + 'a \<Rightarrow> ('a \<Rightarrow> 'e + 'b) \<Rightarrow> 'e + 'b" where
  "and_then (Inl e) f = Inl e"
| "and_then (Inr x) f = f x"

lemma and_then_Inr [simp]: "and_then r f = Inr y \<longleftrightarrow> (\<exists>x. r = Inr x \<and> f x = Inr y)"
  by (cases r) auto

lemma and_then_Inl: "and_then r f = Inl e \<longleftrightarrow> r = Inl e \<or> (\<exists>x. r = Inr x \<and> f x = Inl e)"
  by (cases r) auto

text \<open>\<open>Option::ok_or\<close>, and collecting a list of results up to the first error.\<close>

definition ok_or :: "'e \<Rightarrow> 'a option \<Rightarrow> 'e + 'a" where
  "ok_or e m = (case m of None \<Rightarrow> Inl e | Some x \<Rightarrow> Inr x)"

lemma ok_or_simps [simp]: "ok_or e None = Inl e" "ok_or e (Some x) = Inr x"
  "ok_or e m = Inr y \<longleftrightarrow> m = Some y"
  by (auto simp: ok_or_def split: option.splits)

fun map_res :: "('a \<Rightarrow> 'e + 'b) \<Rightarrow> 'a list \<Rightarrow> 'e + 'b list" where
  "map_res f [] = Inr []"
| "map_res f (x # xs) = and_then (f x) (\<lambda>y. and_then (map_res f xs) (\<lambda>ys. Inr (y # ys)))"

lemma map_res_length: "map_res f xs = Inr ys \<Longrightarrow> length ys = length xs"
  by (induction xs arbitrary: ys) auto

lemma map_res_Inr_iff:
  "map_res f xs = Inr ys \<longleftrightarrow> list_all2 (\<lambda>x y. f x = Inr y) xs ys"
  by (induction xs arbitrary: ys) (auto simp: list_all2_Cons1)

lemma map_res_total: "(\<And>x. x \<in> set xs \<Longrightarrow> f x = Inr (g x)) \<Longrightarrow> map_res f xs = Inr (map g xs)"
  by (induction xs) auto

section \<open>The ordered map\<close>

text \<open>
  \<open>std::collections::BTreeMap\<close> iterates in key order; its model is the association
  list in that order.  \<open>btm_insert\<close> replaces or inserts, \<open>map_of\<close> looks up, a
  \<open>retain\<close> is a \<open>filter\<close>, \<open>pop_first\<close> is \<open>tl\<close>.
\<close>

type_synonym ('k, 'v) btm = "('k \<times> 'v) list"

fun btm_insert :: "'k::linorder \<Rightarrow> 'v \<Rightarrow> ('k, 'v) btm \<Rightarrow> ('k, 'v) btm" where
  "btm_insert k v [] = [(k, v)]"
| "btm_insert k v ((a, w) # xs) =
     (if k < a then (k, v) # (a, w) # xs
      else if k = a then (k, v) # xs
      else (a, w) # btm_insert k v xs)"

definition btm_of_list :: "('k::linorder \<times> 'v) list \<Rightarrow> ('k, 'v) btm" where
  "btm_of_list kvs = fold (\<lambda>(k, v) m. btm_insert k v m) kvs []"

definition btm_ok :: "('k::linorder, 'v) btm \<Rightarrow> bool" where
  "btm_ok m = sorted_wrt (<) (map fst m)"

lemma btm_ok_Nil [simp]: "btm_ok []"
  by (simp add: btm_ok_def)

lemma btm_ok_Cons: "btm_ok ((k, v) # m) \<longleftrightarrow> (\<forall>a \<in> fst ` set m. k < a) \<and> btm_ok m"
  by (auto simp: btm_ok_def)

lemma fst_set_btm_insert [simp]: "fst ` set (btm_insert k v m) = insert k (fst ` set m)"
  by (induction k v m rule: btm_insert.induct) auto

lemma set_btm_insert: "set (btm_insert k v m) \<subseteq> insert (k, v) (set m)"
  by (induction k v m rule: btm_insert.induct) auto

lemma btm_ok_insert [simp, btm_intros]: "btm_ok m \<Longrightarrow> btm_ok (btm_insert k v m)"
  by (induction k v m rule: btm_insert.induct) (auto simp: btm_ok_Cons)

lemma btm_insert_not_Nil [simp]: "btm_insert k v m \<noteq> []"
  by (induction k v m rule: btm_insert.induct) auto

lemma map_of_btm_None: "btm_ok m \<Longrightarrow> (\<forall>a \<in> fst ` set m. k < a) \<Longrightarrow> map_of m k = None"
  by (auto simp: map_of_eq_None_iff)

lemma map_of_btm_insert [simp]: "btm_ok m \<Longrightarrow> map_of (btm_insert k v m) = (map_of m)(k \<mapsto> v)"
proof (induction k v m rule: btm_insert.induct)
  case (2 k v a w xs)
  have "k < a \<or> k = a \<or> a < k" by auto
  with 2 show ?case
    by (auto simp: btm_ok_Cons fun_eq_iff)
qed simp

lemma btm_ok_filter [simp, btm_intros]: "btm_ok m \<Longrightarrow> btm_ok (filter P m)"
  by (induction m) (auto simp: btm_ok_Cons)

lemma btm_ok_tl [simp, btm_intros]: "btm_ok m \<Longrightarrow> btm_ok (tl m)"
  by (cases m) (auto simp: btm_ok_def)

lemma btm_ok_drop [simp, btm_intros]: "btm_ok m \<Longrightarrow> btm_ok (drop n m)"
  by (simp add: btm_ok_def drop_map [symmetric] sorted_wrt_drop)

lemma btm_ok_distinct: "btm_ok m \<Longrightarrow> distinct (map fst m)"
  by (auto simp: btm_ok_def strict_sorted_iff)

lemma btm_ok_fold_insert [simp, btm_intros]:
  "btm_ok m \<Longrightarrow> btm_ok (fold (\<lambda>(k, v) m. btm_insert k v m) kvs m)"
  by (induction kvs arbitrary: m) (auto split: prod.splits)

lemma btm_ok_of_list [simp, btm_intros]: "btm_ok (btm_of_list kvs)"
  by (simp add: btm_of_list_def)

lemma map_of_fold_insert:
  "btm_ok m \<Longrightarrow> map_of (fold (\<lambda>(k, v) m. btm_insert k v m) kvs m) = map_of m ++ map_of (rev kvs)"
  by (induction kvs arbitrary: m) (auto simp: map_add_assoc map_upds_def)

lemma map_of_btm_of_list: "map_of (btm_of_list kvs) = map_of (rev kvs)"
  by (simp add: btm_of_list_def map_of_fold_insert)

lemma btm_set_map_of: "btm_ok m \<Longrightarrow> (k, v) \<in> set m \<longleftrightarrow> map_of m k = Some v"
  by (simp add: btm_ok_distinct)

lemma btm_insert_append:
  "\<forall>a \<in> fst ` set m. a < k \<Longrightarrow> btm_insert k v m = m @ [(k, v)]"
  by (induction k v m rule: btm_insert.induct) auto

lemma fold_btm_insert_sorted:
  "btm_ok (m @ kvs) \<Longrightarrow> fold (\<lambda>(k, v) m. btm_insert k v m) kvs m = m @ kvs"
proof (induction kvs arbitrary: m)
  case (Cons kv kvs)
  obtain k v where kv: "kv = (k, v)" by (cases kv)
  have "\<forall>a \<in> fst ` set m. a < k"
    using Cons.prems by (auto simp: btm_ok_def kv sorted_wrt_append)
  then have "btm_insert k v m = m @ [(k, v)]" by (rule btm_insert_append)
  with Cons show ?case by (simp add: kv)
qed simp

text \<open>Reading back a map that was written in key order gives the same map.\<close>

lemma btm_of_list_id [simp]: "btm_ok m \<Longrightarrow> btm_of_list m = m"
  by (simp add: btm_of_list_def fold_btm_insert_sorted)

lemma btm_ok_hd_least: "btm_ok ((k, v) # m) \<Longrightarrow> map_of ((k, v) # m) a \<noteq> None \<Longrightarrow> k \<le> a"
  by (auto simp: btm_ok_Cons map_of_eq_None_iff split: if_splits dest!: map_of_SomeD)

lemma map_of_rev_distinct: "distinct (map fst xs) \<Longrightarrow> map_of (rev xs) = map_of xs"
proof
  fix k
  assume "distinct (map fst xs)"
  then show "map_of (rev xs) k = map_of xs k"
    by (metis distinct_rev map_of_eq_Some_iff not_None_eq rev_map set_rev)
qed

section \<open>Chunks of a slice\<close>

text \<open>\<open>slice::chunks(n)\<close>; \<open>n\<close> is at least 1.\<close>

function chunks :: "nat \<Rightarrow> 'a list \<Rightarrow> 'a list list" where
  "chunks n xs = (if n = 0 \<or> xs = [] then [] else take n xs # chunks n (drop n xs))"
  by pat_completeness auto
termination by (relation "measure (\<lambda>(n, xs). length xs)") auto

declare chunks.simps [simp del]

lemma concat_chunks [simp]: "0 < n \<Longrightarrow> concat (chunks n xs) = xs"
  by (induction n xs rule: chunks.induct) (subst chunks.simps, auto)

end
