(* ===== verification/Strings.thy ===== *)
theory Strings
  imports Prelude
begin

text \<open>
  The string routines of the Rust standard library that the modelled code calls:
  \<open>strip_prefix\<close>, \<open>split_once\<close>, \<open>split\<close>, \<open>find\<close>, \<open>trim_start_matches\<close>,
  \<open>join\<close>, decimal and hexadecimal parsing of \<open>u64\<close> and decimal rendering.
\<close>

section \<open>Prefixes, searching and splitting\<close>

definition strip_prefix :: "string \<Rightarrow> string \<Rightarrow> string option" where
  "strip_prefix p s = (if take (length p) s = p then Some (drop (length p) s) else None)"

lemma strip_prefix_append [simp]: "strip_prefix p (p @ s) = Some s"
  by (simp add: strip_prefix_def)

lemma strip_prefix_Some: "strip_prefix p s = Some r \<longleftrightarrow> s = p @ r"
proof
  assume "strip_prefix p s = Some r"
  then show "s = p @ r"
    by (auto simp: strip_prefix_def split: if_splits) (metis append_take_drop_id)
qed simp

text \<open>\<open>split_once p s\<close>: what stands before and after the first occurrence of \<open>p\<close>.\<close>

fun split_once :: "string \<Rightarrow> string \<Rightarrow> (string \<times> string) option" where
  "split_once p [] = (if p = [] then Some ([], []) else None)"
| "split_once p (x # xs) =
     (case strip_prefix p (x # xs) of
        Some r \<Rightarrow> Some ([], r)
      | None \<Rightarrow> map_option (\<lambda>(a, b). (x # a, b)) (split_once p xs))"

lemma split_once_Some: "split_once p s = Some (a, b) \<Longrightarrow> s = a @ p @ b"
proof (induction p s arbitrary: a rule: split_once.induct)
  case (2 p x xs)
  then show ?case
    by (auto simp: strip_prefix_Some split: option.splits)
qed (auto split: if_splits)

lemma split_once_length: "split_once p s = Some (a, b) \<Longrightarrow> length b + length p \<le> length s"
  by (drule split_once_Some) simp

definition str_contains :: "string \<Rightarrow> string \<Rightarrow> bool" where
  "str_contains p s = (split_once p s \<noteq> None)"

fun split_char :: "char \<Rightarrow> string \<Rightarrow> string list" where
  "split_char c [] = [[]]"
| "split_char c (x # xs) =
     (if x = c then [] # split_char c xs
      else (case split_char c xs of [] \<Rightarrow> [[x]] | y # ys \<Rightarrow> (x # y) # ys))"

lemma split_char_not_Nil [simp]: "split_char c s \<noteq> []"
  by (induction c s rule: split_char.induct) (auto split: list.splits)

lemma split_char_single: "c \<notin> set s \<Longrightarrow> split_char c s = [s]"
  by (induction s) auto

lemma split_char_append: "c \<notin> set a \<Longrightarrow> split_char c (a @ c # b) = a # split_char c b"
  by (induction a) auto

fun join :: "string \<Rightarrow> string list \<Rightarrow> string" where
  "join sep [] = []"
| "join sep [x] = x"
| "join sep (x # y # xs) = x @ sep @ join sep (y # xs)"

text \<open>Splitting at a character that no part contains undoes joining with it.\<close>

lemma split_char_join:
  "xs \<noteq> [] \<Longrightarrow> (\<forall>x \<in> set xs. c \<notin> set x) \<Longrightarrow> split_char c (join [c] xs) = xs"
  by (induction "[c]" xs rule: join.induct) (auto simp: split_char_single split_char_append)

section \<open>Decimal and hexadecimal numbers\<close>

definition is_ascii_digit :: "char \<Rightarrow> bool" where
  "is_ascii_digit c = (48 \<le> (of_char c :: nat) \<and> (of_char c :: nat) \<le> 57)"

definition digit_val :: "char \<Rightarrow> nat" where
  "digit_val c = of_char c - 48"

definition hex_val :: "char \<Rightarrow> nat option" where
  "hex_val c =
     (let n = (of_char c :: nat)
      in if 48 \<le> n \<and> n \<le> 57 then Some (n - 48)
         else if 97 \<le> n \<and> n \<le> 102 then Some (n - 87)
         else if 65 \<le> n \<and> n \<le> 70 then Some (n - 55)
         else None)"

fun dec_acc :: "nat \<Rightarrow> string \<Rightarrow> nat" where
  "dec_acc n [] = n"
| "dec_acc n (c # cs) = dec_acc (n * 10 + digit_val c) cs"

definition dec_val :: "string \<Rightarrow> nat" where
  "dec_val s = dec_acc 0 s"

fun hex_acc :: "nat \<Rightarrow> string \<Rightarrow> nat option" where
  "hex_acc n [] = Some n"
| "hex_acc n (c # cs) =
     (case hex_val c of None \<Rightarrow> None | Some d \<Rightarrow> hex_acc (n * 16 + d) cs)"

text \<open>
  \<open>str::parse::<u64>\<close> and \<open>u64::from_str_radix(_, 16)\<close>: an optional leading plus
  sign, at least one digit, and no overflow.
\<close>

definition drop_plus :: "string \<Rightarrow> string" where
  "drop_plus s = (case strip_prefix ''+'' s of Some r \<Rightarrow> r | None \<Rightarrow> s)"

definition parse_nat_below :: "nat \<Rightarrow> string \<Rightarrow> nat option" where
  "parse_nat_below b s =
     (let t = drop_plus s
      in if t = [] \<or> \<not> list_all is_ascii_digit t then None
         else if dec_val t < b then Some (dec_val t) else None)"

definition parse_u64 :: "string \<Rightarrow> u64 option" where
  "parse_u64 s = map_option of_nat (parse_nat_below (2 ^ 64) s)"

definition parse_u32 :: "string \<Rightarrow> u32 option" where
  "parse_u32 s = map_option of_nat (parse_nat_below (2 ^ 32) s)"

definition parse_hex_u64 :: "string \<Rightarrow> u64 option" where
  "parse_hex_u64 s =
     (let t = drop_plus s
      in if t = [] then None
         else case hex_acc 0 t of
                None \<Rightarrow> None
              | Some n \<Rightarrow> if n < 2 ^ 64 then Some (of_nat n) else None)"

definition digit_char :: "nat \<Rightarrow> char" where
  "digit_char d = char_of (48 + d)"

fun show_nat :: "nat \<Rightarrow> string" where
  "show_nat n = (if n < 10 then [digit_char n] else show_nat (n div 10) @ [digit_char (n mod 10)])"

declare show_nat.simps [simp del]

definition show_u64 :: "u64 \<Rightarrow> string" where
  "show_u64 w = show_nat (unat w)"

definition show_int :: "int \<Rightarrow> string" where
  "show_int i = (if i < 0 then ''-'' @ show_nat (nat (- i)) else show_nat (nat i))"

lemma digit_val_char [simp]: "d < 10 \<Longrightarrow> digit_val (digit_char d) = d"
  by (simp add: digit_val_def digit_char_def)

lemma is_ascii_digit_char [simp]: "d < 10 \<Longrightarrow> is_ascii_digit (digit_char d)"
  by (simp add: is_ascii_digit_def digit_char_def)

lemma dec_acc_append [simp]: "dec_acc n (a @ b) = dec_acc (dec_acc n a) b"
  by (induction a arbitrary: n) auto

lemma dec_acc_split: "dec_acc n s = n * 10 ^ length s + dec_acc 0 s"
proof (induction s arbitrary: n)
  case (Cons c s)
  from Cons [of "n * 10 + digit_val c"] Cons [of "digit_val c"] show ?case
    by (simp add: algebra_simps)
qed simp

lemma dec_val_show_nat [simp]: "dec_val (show_nat n) = n"
proof (induction n rule: show_nat.induct)
  case (1 n)
  then show ?case
    by (subst show_nat.simps) (auto simp: dec_val_def)
qed

lemma show_nat_digits: "list_all is_ascii_digit (show_nat n)"
proof (induction n rule: show_nat.induct)
  case (1 n)
  then show ?case by (subst show_nat.simps) auto
qed

lemma show_nat_not_Nil [simp]: "show_nat n \<noteq> []"
  by (subst show_nat.simps) simp

lemma plus_not_digit: "\<not> is_ascii_digit (CHR ''+'')"
  by (simp add: is_ascii_digit_def)

lemma show_nat_hd_digit: "show_nat n = c # cs \<Longrightarrow> is_ascii_digit c"
  using show_nat_digits [of n] by simp

lemma drop_plus_digits: "list_all is_ascii_digit s \<Longrightarrow> drop_plus s = s"
  by (cases s) (auto simp: drop_plus_def strip_prefix_def plus_not_digit)

lemma parse_nat_below_show: "n < b \<Longrightarrow> parse_nat_below b (show_nat n) = Some n"
  by (simp add: parse_nat_below_def drop_plus_digits show_nat_digits)

lemma parse_show_u64 [simp]: "parse_u64 (show_u64 w) = Some w"
proof -
  have "unat w < 2 ^ 64" using unsigned_less [of w] by simp
  then show ?thesis by (simp add: parse_u64_def show_u64_def parse_nat_below_show)
qed

lemma show_nat_inject [simp]: "show_nat a = show_nat b \<longleftrightarrow> a = b"
  by (metis dec_val_show_nat)

lemma show_u64_inject [simp]: "show_u64 a = show_u64 b \<longleftrightarrow> a = b"
  by (metis option.inject parse_show_u64)

lemma digit_not_special:
  "is_ascii_digit c \<Longrightarrow> c \<noteq> CHR '':'' \<and> c \<noteq> CHR ''/'' \<and> c \<noteq> CHR ''-'' \<and> c \<noteq> CHR ''.''"
  by (auto simp: is_ascii_digit_def)

lemma show_nat_no_special:
  "c \<in> set (show_nat n) \<Longrightarrow> c \<noteq> CHR '':'' \<and> c \<noteq> CHR ''/'' \<and> c \<noteq> CHR ''-'' \<and> c \<noteq> CHR ''.''"
  using show_nat_digits [of n] digit_not_special by (auto simp: list_all_iff)

text \<open>Reading a separated field back: the text before the first separator is unique.\<close>

lemma append_sep_inject:
  "c \<notin> set a \<Longrightarrow> c \<notin> set b \<Longrightarrow> a @ c # x = b @ c # y \<longleftrightarrow> a = b \<and> x = y"
proof (induction a arbitrary: b)
  case Nil
  then show ?case by (cases b) auto
next
  case (Cons d a)
  then show ?case by (cases b) auto
qed

lemma append_sep_inject_rev:
  "c \<notin> set a \<Longrightarrow> c \<notin> set b \<Longrightarrow> x @ c # a = y @ c # b \<longleftrightarrow> x = y \<and> a = b"
proof -
  assume "c \<notin> set a" "c \<notin> set b"
  then have "rev a @ c # rev x = rev b @ c # rev y \<longleftrightarrow> rev a = rev b \<and> rev x = rev y"
    by (intro append_sep_inject) auto
  moreover have "x @ c # a = y @ c # b \<longleftrightarrow> rev (x @ c # a) = rev (y @ c # b)"
    by (rule rev_is_rev_conv [symmetric])
  ultimately show ?thesis by auto
qed

text \<open>\<open>str::trim_start_matches\<close> for one character.\<close>

definition trim_start_char :: "char \<Rightarrow> string \<Rightarrow> string" where
  "trim_start_char c s = dropWhile (\<lambda>x. x = c) s"

text \<open>\<open>str::trim_start_matches\<close> and \<open>trim_end_matches\<close> for a string and a character.\<close>

function trim_start_str :: "string \<Rightarrow> string \<Rightarrow> string" where
  "trim_start_str p s =
     (if p = [] then s else case strip_prefix p s of Some r \<Rightarrow> trim_start_str p r | None \<Rightarrow> s)"
  by pat_completeness auto
termination
  by (relation "measure (\<lambda>(p, s). length s)") (auto simp: strip_prefix_Some)

declare trim_start_str.simps [simp del]

definition trim_end_char :: "char \<Rightarrow> string \<Rightarrow> string" where
  "trim_end_char c s = rev (dropWhile (\<lambda>x. x = c) (rev s))"

text \<open>\<open>eq_ignore_ascii_case\<close>.\<close>

definition to_ascii_lower :: "char \<Rightarrow> char" where
  "to_ascii_lower c =
     (let n = (of_char c :: nat) in if 65 \<le> n \<and> n \<le> 90 then char_of (n + 32) else c)"

definition eq_ignore_ascii_case :: "string \<Rightarrow> string \<Rightarrow> bool" where
  "eq_ignore_ascii_case a b = (map to_ascii_lower a = map to_ascii_lower b)"

text \<open>\<open>str::replace\<close>: all non-overlapping occurrences, left to right (for a nonempty pattern).\<close>

function replace_all :: "string \<Rightarrow> string \<Rightarrow> string \<Rightarrow> string" where
  "replace_all p r s =
     (if p = [] then s
      else case split_once p s of
             None \<Rightarrow> s
           | Some (a, b) \<Rightarrow> a @ r @ replace_all p r b)"
  by pat_completeness auto
termination
proof (relation "measure (\<lambda>(p, r, s). length s)", goal_cases)
  case (2 p r s x a b)
  then have "length b + length p \<le> length s" by (auto dest: split_once_length)
  moreover have "0 < length p" using 2 by simp
  ultimately show ?case by (simp del: length_greater_0_conv)
qed simp

declare replace_all.simps [simp del]

end
