(* ===== verification/Json.thy ===== *)
theory Json
  imports Strings
begin

text \<open>
  The JSON values that cross every stage boundary (\<open>serde_json::Value\<close>).  A number is
  an unsigned or a negative 64-bit integer, or a float, of which the modelled code reads
  only its rendering.  The repository does not enable \<open>preserve_order\<close>, so an object
  is a \<open>BTreeMap\<close>: an association list in key order.
\<close>

datatype number =
    NPos u64
  | NNeg int      \<comment> \<open>an \<open>i64\<close> below zero\<close>
  | NFloat string \<comment> \<open>the text that \<open>to_string\<close> renders\<close>

datatype json =
    JNull
  | JBool bool
  | JNum number
  | JStr string
  | JArr "json list"
  | JObj "(string \<times> json) list"

fun show_number :: "number \<Rightarrow> string" where
  "show_number (NPos n) = show_u64 n"
| "show_number (NNeg i) = show_int i"
| "show_number (NFloat s) = s"

fun number_as_u64 :: "number \<Rightarrow> u64 option" where
  "number_as_u64 (NPos n) = Some n"
| "number_as_u64 _ = None"

fun number_as_i64 :: "number \<Rightarrow> int option" where
  "number_as_i64 (NPos n) = (if unat n < 2 ^ 63 then Some (int (unat n)) else None)"
| "number_as_i64 (NNeg i) = Some i"
| "number_as_i64 (NFloat _) = None"

fun jget :: "string \<Rightarrow> json \<Rightarrow> json option" where
  "jget k (JObj m) = map_of m k"
| "jget k _ = None"

fun as_str :: "json \<Rightarrow> string option" where
  "as_str (JStr s) = Some s"
| "as_str _ = None"

fun as_bool :: "json \<Rightarrow> bool option" where
  "as_bool (JBool b) = Some b"
| "as_bool _ = None"

fun as_u64 :: "json \<Rightarrow> u64 option" where
  "as_u64 (JNum n) = number_as_u64 n"
| "as_u64 _ = None"

fun as_array :: "json \<Rightarrow> json list option" where
  "as_array (JArr xs) = Some xs"
| "as_array _ = None"

fun as_object :: "json \<Rightarrow> (string \<times> json) list option" where
  "as_object (JObj m) = Some m"
| "as_object _ = None"

fun is_nested :: "json \<Rightarrow> bool" where
  "is_nested (JArr _) = True"
| "is_nested (JObj _) = True"
| "is_nested _ = False"

definition jget_str :: "string \<Rightarrow> json \<Rightarrow> string option" where
  "jget_str k v = Option.bind (jget k v) as_str"

definition jget_u64 :: "string \<Rightarrow> json \<Rightarrow> u64 option" where
  "jget_u64 k v = Option.bind (jget k v) as_u64"

definition jget_bool :: "string \<Rightarrow> json \<Rightarrow> bool option" where
  "jget_bool k v = Option.bind (jget k v) as_bool"

definition jget_array :: "string \<Rightarrow> json \<Rightarrow> json list option" where
  "jget_array k v = Option.bind (jget k v) as_array"

definition unwrap_or :: "'a \<Rightarrow> 'a option \<Rightarrow> 'a" where
  "unwrap_or d m = (case m of None \<Rightarrow> d | Some x \<Rightarrow> x)"

lemma unwrap_or_simps [simp]: "unwrap_or d None = d" "unwrap_or d (Some x) = x"
  by (simp_all add: unwrap_or_def)

definition jnat :: "u64 \<Rightarrow> json" where
  "jnat n = JNum (NPos n)"

lemma as_u64_jnat [simp]: "as_u64 (jnat n) = Some n"
  by (simp add: jnat_def)

lemma jnat_inject [simp]: "jnat a = jnat b \<longleftrightarrow> a = b"
  by (simp add: jnat_def)

definition obj :: "(string \<times> json) list \<Rightarrow> json" where
  "obj kvs = JObj (btm_of_list kvs)"

lemma jget_obj: "jget k (obj kvs) = map_of (rev kvs) k"
  by (simp add: obj_def map_of_btm_of_list)

text \<open>
  Every object of a value that the library parsed or built is in key order.
\<close>

fun json_ok :: "json \<Rightarrow> bool" where
  "json_ok (JArr xs) = list_all json_ok xs"
| "json_ok (JObj m) = (btm_ok m \<and> list_all (\<lambda>(k, v). json_ok v) m)"
| "json_ok _ = True"

text \<open>
  A block number or another numeric field: a JSON number, a decimal string or a
  \<open>0x\<close>-prefixed hexadecimal string.  The source repeats this reader in four crates.
\<close>

fun flexible_u64 :: "json \<Rightarrow> u64 option" where
  "flexible_u64 (JNum n) = number_as_u64 n"
| "flexible_u64 (JStr s) =
     (case strip_prefix ''0x'' s of
        Some h \<Rightarrow> parse_hex_u64 h
      | None \<Rightarrow> parse_u64 s)"
| "flexible_u64 _ = None"

lemma flexible_jnat [simp]: "flexible_u64 (jnat n) = Some n"
  by (simp add: jnat_def)

lemma strip_0x_show: "strip_prefix ''0x'' (show_nat n) = None"
proof (cases "strip_prefix ''0x'' (show_nat n)")
  case (Some r)
  then have "show_nat n = ''0x'' @ r" by (simp add: strip_prefix_Some)
  then have "CHR ''x'' \<in> set (show_nat n)" by simp
  then have "is_ascii_digit (CHR ''x'')" using show_nat_digits [of n] by (auto simp: list_all_iff)
  then show ?thesis by (simp add: is_ascii_digit_def)
qed

lemma flexible_decimal [simp]: "flexible_u64 (JStr (show_u64 n)) = Some n"
  by (simp add: show_u64_def strip_0x_show) (simp add: show_u64_def [symmetric])

text \<open>A dotted path such as \<open>params.value\<close> (\<open>resolve_path\<close> of two crates).\<close>

fun walk_path :: "json \<Rightarrow> string list \<Rightarrow> json option" where
  "walk_path v [] = Some v"
| "walk_path v (s # ss) = (case jget s v of None \<Rightarrow> None | Some w \<Rightarrow> walk_path w ss)"

lemma walk_path_append:
  "walk_path v (a @ b) = Option.bind (walk_path v a) (\<lambda>w. walk_path w b)"
  by (induction v a rule: walk_path.induct) (auto split: option.splits)

text \<open>
  A decimal-integer string: an optional minus sign and at least one digit.  Both the
  filter and the Postgres sink test for it.
\<close>

definition is_decimal_str :: "string \<Rightarrow> bool" where
  "is_decimal_str s =
     (let t = (case strip_prefix ''-'' s of Some r \<Rightarrow> r | None \<Rightarrow> s)
      in t \<noteq> [] \<and> list_all is_ascii_digit t)"

lemma is_decimal_show_nat [simp]: "is_decimal_str (show_nat n)"
proof -
  have "strip_prefix ''-'' (show_nat n) = None"
    using show_nat_no_special [of _ n] by (auto simp: strip_prefix_def take_Suc_Cons
        split: if_splits) (metis append_take_drop_id list.set_intros(1) append_Cons)
  then show ?thesis by (simp add: is_decimal_str_def show_nat_digits)
qed

lemma is_decimal_show_int [simp]: "is_decimal_str (show_int i)"
  by (simp add: show_int_def) (simp add: is_decimal_str_def strip_prefix_def show_nat_digits)

end
