(* ===== verification/ConfigTypes.thy ===== *)
theory ConfigTypes
  imports Json
begin

text \<open>
  The typed pipeline configuration of \<open>crates/engine/src/config/mod.rs\<close>: the structs
  and enums with their serde defaults, and the strict reader that \<open>#[derive(Deserialize)]\<close>
  with \<open>deny_unknown_fields\<close> stands for (its map form; the positional sequence form
  that serde also accepts for a struct is not modelled).
\<close>

section \<open>Reading a document\<close>

datatype de_error = UnknownField string | MissingField string | InvalidType string

type_synonym 'a de = "de_error + 'a"

definition de_struct :: "string list \<Rightarrow> json \<Rightarrow> (string \<times> json) list de" where
  "de_struct allowed v =
     (case as_object v of
        None \<Rightarrow> Inl (InvalidType ''struct'')
      | Some m \<Rightarrow>
          (case find (\<lambda>k. k \<notin> set allowed) (map fst m) of
             Some k \<Rightarrow> Inl (UnknownField k)
           | None \<Rightarrow> Inr m))"

definition de_req :: "string \<Rightarrow> (json \<Rightarrow> 'a de) \<Rightarrow> (string \<times> json) list \<Rightarrow> 'a de" where
  "de_req k conv m = (case map_of m k of None \<Rightarrow> Inl (MissingField k) | Some v \<Rightarrow> conv v)"

definition de_default :: "string \<Rightarrow> 'a \<Rightarrow> (json \<Rightarrow> 'a de) \<Rightarrow> (string \<times> json) list \<Rightarrow> 'a de" where
  "de_default k d conv m = (case map_of m k of None \<Rightarrow> Inr d | Some v \<Rightarrow> conv v)"

definition de_str :: "json \<Rightarrow> string de" where
  "de_str v = ok_or (InvalidType ''string'') (as_str v)"

definition de_bool :: "json \<Rightarrow> bool de" where
  "de_bool v = ok_or (InvalidType ''bool'') (as_bool v)"

definition de_u64 :: "json \<Rightarrow> u64 de" where
  "de_u64 v = ok_or (InvalidType ''u64'') (as_u64 v)"

definition de_u32 :: "json \<Rightarrow> u32 de" where
  "de_u32 v =
     and_then (de_u64 v) (\<lambda>n.
       if unat n < 2 ^ 32 then Inr (of_nat (unat n)) else Inl (InvalidType ''u32''))"

definition de_usize :: "json \<Rightarrow> nat de" where
  "de_usize v = and_then (de_u64 v) (\<lambda>n. Inr (unat n))"

definition de_opt :: "(json \<Rightarrow> 'a de) \<Rightarrow> json \<Rightarrow> 'a option de" where
  "de_opt conv v = (if v = JNull then Inr None else and_then (conv v) (\<lambda>x. Inr (Some x)))"

definition de_vec :: "(json \<Rightarrow> 'a de) \<Rightarrow> json \<Rightarrow> 'a list de" where
  "de_vec conv v = and_then (ok_or (InvalidType ''sequence'') (as_array v)) (map_res conv)"

definition de_map :: "(json \<Rightarrow> 'a de) \<Rightarrow> json \<Rightarrow> (string \<times> 'a) list de" where
  "de_map conv v =
     and_then (ok_or (InvalidType ''map'') (as_object v))
       (map_res (\<lambda>(k, w). and_then (conv w) (\<lambda>x. Inr (k, x))))"

definition de_enum :: "(string \<times> 'a) list \<Rightarrow> json \<Rightarrow> 'a de" where
  "de_enum tbl v = and_then (de_str v) (\<lambda>s. ok_or (InvalidType s) (map_of tbl s))"

lemma de_struct_known: "de_struct allowed v = Inr m \<Longrightarrow> v = JObj m \<and> fst ` set m \<subseteq> set allowed"
  by (cases v) (auto simp: de_struct_def find_None_iff split: option.splits)

lemma de_struct_unknown:
  "k \<in> fst ` set m \<Longrightarrow> k \<notin> set allowed \<Longrightarrow> \<exists>k'. de_struct allowed (JObj m) = Inl (UnknownField k')"
  by (auto simp: de_struct_def find_None_iff split: option.splits)

section \<open>Runtime knobs\<close>

datatype resource_size = SizeS | SizeM | SizeL

record resource_profile =
  instances_per_stage :: nat
  channel_capacity :: nat
  default_max_records :: nat
  wasm_mem_bytes :: nat
  epoch_deadline_secs :: u64

fun profile :: "resource_size \<Rightarrow> resource_profile" where
  "profile SizeS = \<lparr> instances_per_stage = 1, channel_capacity = 4, default_max_records = 1000,
     wasm_mem_bytes = 128 * 2 ^ 20, epoch_deadline_secs = 5 \<rparr>"
| "profile SizeM = \<lparr> instances_per_stage = 2, channel_capacity = 8, default_max_records = 5000,
     wasm_mem_bytes = 256 * 2 ^ 20, epoch_deadline_secs = 5 \<rparr>"
| "profile SizeL = \<lparr> instances_per_stage = 4, channel_capacity = 16, default_max_records = 10000,
     wasm_mem_bytes = 512 * 2 ^ 20, epoch_deadline_secs = 10 \<rparr>"

text \<open>Sizes are ordered, and a larger size never gives a stage less of anything.\<close>

fun size_rank :: "resource_size \<Rightarrow> nat" where
  "size_rank SizeS = 0"
| "size_rank SizeM = 1"
| "size_rank SizeL = 2"

lemma size_rank_inject: "size_rank a = size_rank b \<longleftrightarrow> a = b"
  by (cases a; cases b) simp_all

instantiation resource_size :: linorder
begin

definition less_eq_resource_size :: "resource_size \<Rightarrow> resource_size \<Rightarrow> bool" where
  "less_eq_resource_size a b = (size_rank a \<le> size_rank b)"

definition less_resource_size :: "resource_size \<Rightarrow> resource_size \<Rightarrow> bool" where
  "less_resource_size a b = (size_rank a < size_rank b)"

instance
  by standard (auto simp: less_eq_resource_size_def less_resource_size_def size_rank_inject)

end

lemma profile_grows:
  assumes "a \<le> b"
  shows "instances_per_stage (profile a) \<le> instances_per_stage (profile b)"
    "channel_capacity (profile a) \<le> channel_capacity (profile b)"
    "default_max_records (profile a) \<le> default_max_records (profile b)"
    "wasm_mem_bytes (profile a) \<le> wasm_mem_bytes (profile b)"
    "epoch_deadline_secs (profile a) \<le> epoch_deadline_secs (profile b)"
  using assms by (cases a; cases b; simp add: less_eq_resource_size_def)+

datatype checkpoint_backend = Sqlite | PostgresStore

record checkpoint_cfg =
  ck_store :: checkpoint_backend
  ck_path :: string
  ck_connection :: "string option"

definition default_ckpt_path :: string where
  "default_ckpt_path = ''./state/hyperpipe.db''"

definition checkpoint_default :: checkpoint_cfg where
  "checkpoint_default = \<lparr> ck_store = Sqlite, ck_path = default_ckpt_path, ck_connection = None \<rparr>"

definition checkpoint_from_value :: "json \<Rightarrow> checkpoint_cfg de" where
  "checkpoint_from_value v =
     and_then (de_struct [''store'', ''path'', ''connection''] v) (\<lambda>m.
     and_then (de_default ''store'' Sqlite
       (de_enum [(''sqlite'', Sqlite), (''postgres'', PostgresStore)]) m) (\<lambda>st.
     and_then (de_default ''path'' default_ckpt_path de_str m) (\<lambda>p.
     and_then (de_default ''connection'' None (de_opt de_str) m) (\<lambda>c.
       Inr \<lparr> ck_store = st, ck_path = p, ck_connection = c \<rparr>))))"

record runtime_cfg =
  rt_resource_size :: resource_size
  rt_checkpoint :: checkpoint_cfg

definition runtime_default :: runtime_cfg where
  "runtime_default = \<lparr> rt_resource_size = SizeS, rt_checkpoint = checkpoint_default \<rparr>"

definition runtime_from_value :: "json \<Rightarrow> runtime_cfg de" where
  "runtime_from_value v =
     and_then (de_struct [''resource_size'', ''checkpoint''] v) (\<lambda>m.
     and_then (de_default ''resource_size'' SizeS
       (de_enum [(''s'', SizeS), (''m'', SizeM), (''l'', SizeL)]) m) (\<lambda>rs.
     and_then (de_default ''checkpoint'' checkpoint_default checkpoint_from_value m) (\<lambda>c.
       Inr \<lparr> rt_resource_size = rs, rt_checkpoint = c \<rparr>)))"

section \<open>Sources\<close>

datatype source_mode = Live | Backfill | Both

record reorg_cfg =
  reorg_enabled :: bool
  reorg_window :: u64

definition default_reorg_window :: u64 where
  "default_reorg_window = 64"

definition reorg_default :: reorg_cfg where
  "reorg_default = \<lparr> reorg_enabled = True, reorg_window = default_reorg_window \<rparr>"

definition reorg_from_value :: "json \<Rightarrow> reorg_cfg de" where
  "reorg_from_value v =
     and_then (de_struct [''enabled'', ''window''] v) (\<lambda>m.
     and_then (de_default ''enabled'' True de_bool m) (\<lambda>e.
     and_then (de_default ''window'' default_reorg_window de_u64 m) (\<lambda>w.
       Inr \<lparr> reorg_enabled = e, reorg_window = w \<rparr>)))"

record batch_cfg =
  max_records :: "nat option"
  max_interval_ms :: u64

definition default_max_interval :: u64 where
  "default_max_interval = 500"

definition batch_cfg_default :: batch_cfg where
  "batch_cfg_default = \<lparr> max_records = None, max_interval_ms = default_max_interval \<rparr>"

definition batch_cfg_from_value :: "json \<Rightarrow> batch_cfg de" where
  "batch_cfg_from_value v =
     and_then (de_struct [''max_records'', ''max_interval_ms''] v) (\<lambda>m.
     and_then (de_default ''max_records'' None (de_opt de_usize) m) (\<lambda>r.
     and_then (de_default ''max_interval_ms'' default_max_interval de_u64 m) (\<lambda>i.
       Inr \<lparr> max_records = r, max_interval_ms = i \<rparr>)))"

record log_selection =
  ls_address :: "string list"
  ls_topics :: "string list list"

record field_selection =
  fs_log :: "string list"
  fs_block :: "string list"
  fs_transaction :: "string list"

record query =
  q_logs :: "log_selection list"
  q_field_selection :: field_selection

definition log_selection_from_value :: "json \<Rightarrow> log_selection de" where
  "log_selection_from_value v =
     and_then (de_struct [''address'', ''topics''] v) (\<lambda>m.
     and_then (de_default ''address'' [] (de_vec de_str) m) (\<lambda>a.
     and_then (de_default ''topics'' [] (de_vec (de_vec de_str)) m) (\<lambda>t.
       Inr \<lparr> ls_address = a, ls_topics = t \<rparr>)))"

definition field_selection_default :: field_selection where
  "field_selection_default = \<lparr> fs_log = [], fs_block = [], fs_transaction = [] \<rparr>"

definition field_selection_from_value :: "json \<Rightarrow> field_selection de" where
  "field_selection_from_value v =
     and_then (de_struct [''log'', ''block'', ''transaction''] v) (\<lambda>m.
     and_then (de_default ''log'' [] (de_vec de_str) m) (\<lambda>l.
     and_then (de_default ''block'' [] (de_vec de_str) m) (\<lambda>b.
     and_then (de_default ''transaction'' [] (de_vec de_str) m) (\<lambda>t.
       Inr \<lparr> fs_log = l, fs_block = b, fs_transaction = t \<rparr>))))"

definition query_from_value :: "json \<Rightarrow> query de" where
  "query_from_value v =
     and_then (de_struct [''logs'', ''field_selection''] v) (\<lambda>m.
     and_then (de_default ''logs'' [] (de_vec log_selection_from_value) m) (\<lambda>l.
     and_then (de_default ''field_selection'' field_selection_default field_selection_from_value m)
       (\<lambda>f. Inr \<lparr> q_logs = l, q_field_selection = f \<rparr>)))"

record resolved_endpoint =
  ep_chain_id :: u64
  ep_url :: string

record source_cfg =
  src_name :: string
  src_type :: string
  src_chain :: "string option"
  src_chain_id :: "u64 option"
  src_url :: "string option"
  src_mode :: source_mode
  src_from_block :: "u64 option"
  src_to_block :: "u64 option"
  src_confirmations :: u64
  src_reorg :: reorg_cfg
  src_batch :: batch_cfg
  src_query :: query
  src_resolved :: "resolved_endpoint option"

definition default_source_type :: string where
  "default_source_type = ''hypersync''"

definition default_confirmations :: u64 where
  "default_confirmations = 10"

definition source_from_value :: "json \<Rightarrow> source_cfg de" where
  "source_from_value v =
     and_then (de_struct [''name'', ''type'', ''chain'', ''chain_id'', ''url'', ''mode'',
       ''from_block'', ''to_block'', ''confirmations'', ''reorg'', ''batch'', ''query''] v) (\<lambda>m.
     and_then (de_req ''name'' de_str m) (\<lambda>nm.
     and_then (de_default ''type'' default_source_type de_str m) (\<lambda>ty.
     and_then (de_default ''chain'' None (de_opt de_str) m) (\<lambda>ch.
     and_then (de_default ''chain_id'' None (de_opt de_u64) m) (\<lambda>cid.
     and_then (de_default ''url'' None (de_opt de_str) m) (\<lambda>url.
     and_then (de_default ''mode'' Live
       (de_enum [(''live'', Live), (''backfill'', Backfill), (''both'', Both)]) m) (\<lambda>md.
     and_then (de_default ''from_block'' None (de_opt de_u64) m) (\<lambda>fb.
     and_then (de_default ''to_block'' None (de_opt de_u64) m) (\<lambda>tb.
     and_then (de_default ''confirmations'' default_confirmations de_u64 m) (\<lambda>cf.
     and_then (de_default ''reorg'' reorg_default reorg_from_value m) (\<lambda>ro.
     and_then (de_default ''batch'' batch_cfg_default batch_cfg_from_value m) (\<lambda>ba.
     and_then (de_req ''query'' query_from_value m) (\<lambda>q.
       Inr \<lparr> src_name = nm, src_type = ty, src_chain = ch, src_chain_id = cid, src_url = url,
             src_mode = md, src_from_block = fb, src_to_block = tb, src_confirmations = cf,
             src_reorg = ro, src_batch = ba, src_query = q, src_resolved = None \<rparr>)))))))))))))"

text \<open>\<open>Source::endpoint\<close> panics (here: no value) before validation filled it in.\<close>

definition endpoint :: "source_cfg \<Rightarrow> resolved_endpoint option" where
  "endpoint s = src_resolved s"

section \<open>Processors, sinks, modules and connections\<close>

datatype module_ref = Builtin string | File string

text \<open>\<open>#[serde(untagged)]\<close>: a string, or a map with a \<open>file\<close>.\<close>

definition module_from_value :: "json \<Rightarrow> module_ref de" where
  "module_from_value v =
     (case v of
        JStr s \<Rightarrow> Inr (Builtin s)
      | JObj m \<Rightarrow> and_then (de_req ''file'' de_str m) (\<lambda>f. Inr (File f))
      | _ \<Rightarrow> Inl (InvalidType ''module''))"

record permissions =
  perm_http :: "string list"

definition permissions_default :: permissions where
  "permissions_default = \<lparr> perm_http = [] \<rparr>"

definition permissions_from_value :: "json \<Rightarrow> permissions de" where
  "permissions_from_value v =
     and_then (de_struct [''http''] v) (\<lambda>m.
     and_then (de_default ''http'' [] (de_vec de_str) m) (\<lambda>h. Inr \<lparr> perm_http = h \<rparr>))"

record processor_cfg =
  proc_name :: string
  proc_module :: module_ref
  proc_inputs :: "string list"
  proc_permissions :: permissions
  proc_config :: json

definition processor_from_value :: "json \<Rightarrow> processor_cfg de" where
  "processor_from_value v =
     and_then (de_struct [''name'', ''module'', ''inputs'', ''permissions'', ''config''] v) (\<lambda>m.
     and_then (de_req ''name'' de_str m) (\<lambda>nm.
     and_then (de_req ''module'' module_from_value m) (\<lambda>md.
     and_then (de_req ''inputs'' (de_vec de_str) m) (\<lambda>i.
     and_then (de_default ''permissions'' permissions_default permissions_from_value m) (\<lambda>p.
     and_then (de_default ''config'' JNull Inr m) (\<lambda>c.
       Inr \<lparr> proc_name = nm, proc_module = md, proc_inputs = i, proc_permissions = p,
             proc_config = c \<rparr>))))))"

record sink_cfg =
  sink_name :: string
  sink_module :: module_ref
  sink_inputs :: "string list"
  sink_connections :: "string list"
  sink_permissions :: permissions
  sink_config :: json

definition sink_from_value :: "json \<Rightarrow> sink_cfg de" where
  "sink_from_value v =
     and_then (de_struct [''name'', ''module'', ''inputs'', ''connections'', ''permissions'',
       ''config''] v) (\<lambda>m.
     and_then (de_req ''name'' de_str m) (\<lambda>nm.
     and_then (de_req ''module'' module_from_value m) (\<lambda>md.
     and_then (de_req ''inputs'' (de_vec de_str) m) (\<lambda>i.
     and_then (de_default ''connections'' [] (de_vec de_str) m) (\<lambda>cs.
     and_then (de_default ''permissions'' permissions_default permissions_from_value m) (\<lambda>p.
     and_then (de_default ''config'' JNull Inr m) (\<lambda>c.
       Inr \<lparr> sink_name = nm, sink_module = md, sink_inputs = i, sink_connections = cs,
             sink_permissions = p, sink_config = c \<rparr>)))))))"

datatype connection_kind = Postgres | Kafka | S3

definition default_pool_max :: u32 where
  "default_pool_max = 8"

definition pool_from_value :: "json \<Rightarrow> u32 de" where
  "pool_from_value v =
     and_then (de_struct [''max''] v) (\<lambda>m. de_default ''max'' default_pool_max de_u32 m)"

record connection =
  conn_type :: connection_kind
  conn_dsn :: "string option"
  conn_pool_max :: u32
  conn_bucket :: "string option"
  conn_region :: "string option"
  conn_endpoint :: "string option"
  conn_prefix :: "string option"
  conn_local_path :: "string option"

definition connection_from_value :: "json \<Rightarrow> connection de" where
  "connection_from_value v =
     and_then (de_struct [''type'', ''dsn'', ''pool'', ''bucket'', ''region'', ''endpoint'',
       ''prefix'', ''local_path''] v) (\<lambda>m.
     and_then (de_req ''type''
       (de_enum [(''postgres'', Postgres), (''kafka'', Kafka), (''s3'', S3)]) m) (\<lambda>ty.
     and_then (de_default ''dsn'' None (de_opt de_str) m) (\<lambda>dsn.
     and_then (de_default ''pool'' default_pool_max pool_from_value m) (\<lambda>pool.
     and_then (de_default ''bucket'' None (de_opt de_str) m) (\<lambda>bu.
     and_then (de_default ''region'' None (de_opt de_str) m) (\<lambda>re.
     and_then (de_default ''endpoint'' None (de_opt de_str) m) (\<lambda>en.
     and_then (de_default ''prefix'' None (de_opt de_str) m) (\<lambda>pr.
     and_then (de_default ''local_path'' None (de_opt de_str) m) (\<lambda>lp.
       Inr \<lparr> conn_type = ty, conn_dsn = dsn, conn_pool_max = pool, conn_bucket = bu,
             conn_region = re, conn_endpoint = en, conn_prefix = pr, conn_local_path = lp \<rparr>)))))))))"

datatype node_kind = SourceNode | ProcessorNode | SinkNode

section \<open>The root\<close>

record config =
  cfg_name :: string
  cfg_version :: u32
  cfg_runtime :: runtime_cfg
  cfg_sources :: "source_cfg list"
  cfg_processors :: "processor_cfg list"
  cfg_sinks :: "sink_cfg list"
  cfg_connections :: "(string \<times> connection) list"

definition default_version :: u32 where
  "default_version = 1"

definition config_keys :: "string list" where
  "config_keys = [''name'', ''version'', ''runtime'', ''sources'', ''processors'', ''sinks'',
     ''connections'']"

definition config_from_value :: "json \<Rightarrow> config de" where
  "config_from_value v =
     and_then (de_struct config_keys v) (\<lambda>m.
     and_then (de_req ''name'' de_str m) (\<lambda>nm.
     and_then (de_default ''version'' default_version de_u32 m) (\<lambda>ve.
     and_then (de_default ''runtime'' runtime_default runtime_from_value m) (\<lambda>rt.
     and_then (de_req ''sources'' (de_vec source_from_value) m) (\<lambda>so.
     and_then (de_default ''processors'' [] (de_vec processor_from_value) m) (\<lambda>pr.
     and_then (de_req ''sinks'' (de_vec sink_from_value) m) (\<lambda>si.
     and_then (de_default ''connections'' [] (de_map connection_from_value) m) (\<lambda>co.
       Inr \<lparr> cfg_name = nm, cfg_version = ve, cfg_runtime = rt, cfg_sources = so,
             cfg_processors = pr, cfg_sinks = si, cfg_connections = co \<rparr>))))))))"

definition cfg_profile :: "config \<Rightarrow> resource_profile" where
  "cfg_profile c = profile (rt_resource_size (cfg_runtime c))"

end
