(* ===== verification/Envelope.thy ===== *)
theory Envelope
  imports Json
begin

text \<open>
  The batch envelope and its codec: \<open>crates/encoding/src/lib.rs\<close>.  Everything that
  crosses a stage boundary is a \<open>batch\<close>.
\<close>

section \<open>Encoding tags and batch kinds\<close>

datatype encoding = Json | Cbor | ArrowIpc

fun encoding_as_u8 :: "encoding \<Rightarrow> u8" where
  "encoding_as_u8 Json = 0"
| "encoding_as_u8 Cbor = 1"
| "encoding_as_u8 ArrowIpc = 2"

definition encoding_from_u8 :: "u8 \<Rightarrow> encoding option" where
  "encoding_from_u8 v =
     (if v = 0 then Some Json else if v = 1 then Some Cbor
      else if v = 2 then Some ArrowIpc else None)"

lemma encoding_roundtrip [simp]: "encoding_from_u8 (encoding_as_u8 e) = Some e"
  by (cases e) (simp_all add: encoding_from_u8_def)

lemma encoding_from_u8_Some: "encoding_from_u8 v = Some e \<longleftrightarrow> v = encoding_as_u8 e"
  by (cases e) (auto simp: encoding_from_u8_def split: if_splits)

datatype batch_kind = Log | Transaction | Block | Trace | Decoded | Custom | Control

text \<open>\<open>#[serde(rename_all = "lowercase")]\<close>.\<close>

fun kind_name :: "batch_kind \<Rightarrow> string" where
  "kind_name Log = ''log''"
| "kind_name Transaction = ''transaction''"
| "kind_name Block = ''block''"
| "kind_name Trace = ''trace''"
| "kind_name Decoded = ''decoded''"
| "kind_name Custom = ''custom''"
| "kind_name Control = ''control''"

definition all_kinds :: "batch_kind list" where
  "all_kinds = [Log, Transaction, Block, Trace, Decoded, Custom, Control]"

definition kind_of_name :: "string \<Rightarrow> batch_kind option" where
  "kind_of_name s = find (\<lambda>k. kind_name k = s) all_kinds"

lemma kind_of_name [simp]: "kind_of_name (kind_name k) = Some k"
  by (cases k) (simp_all add: kind_of_name_def all_kinds_def)

section \<open>The batch record\<close>

datatype block_range = BlockRange (range_from: u64) (range_to: u64)

record batch =
  b_schema :: string
  b_batch_id :: string
  b_source :: string
  b_chain_id :: u64
  b_block_range :: block_range
  b_ack_block :: "u64 option"
  b_kind :: batch_kind
  b_records :: "json list"

datatype control_record =
    Rollback u64 u64  \<comment> \<open>\<open>chain_id\<close>, \<open>invalidate_after_block\<close>\<close>
  | Eof string u64    \<comment> \<open>\<open>source\<close>, \<open>at_block\<close>\<close>

definition SCHEMA_V1 :: string where
  "SCHEMA_V1 = ''hyperpipe/batch/v1''"

definition make_batch_id :: "string \<Rightarrow> block_range \<Rightarrow> u64 \<Rightarrow> string" where
  "make_batch_id src r seq =
     src @ '':'' @ show_u64 (range_from r) @ '':'' @ show_u64 (range_to r) @ '':'' @ show_u64 seq"

definition batch_new :: "string \<Rightarrow> u64 \<Rightarrow> block_range \<Rightarrow> u64 \<Rightarrow> batch_kind \<Rightarrow> json list \<Rightarrow> batch" where
  "batch_new src chain r seq k recs =
     \<lparr> b_schema = SCHEMA_V1, b_batch_id = make_batch_id src r seq, b_source = src,
       b_chain_id = chain, b_block_range = r, b_ack_block = None, b_kind = k,
       b_records = recs \<rparr>"

fun control_at_block :: "control_record \<Rightarrow> u64" where
  "control_at_block (Rollback _ after) = after"
| "control_at_block (Eof _ at) = at"

text \<open>\<open>#[serde(tag = "control", rename_all = "lowercase")]\<close>.\<close>

fun control_to_value :: "control_record \<Rightarrow> json" where
  "control_to_value (Rollback chain after) =
     obj [(''control'', JStr ''rollback''), (''chain_id'', jnat chain),
          (''invalidate_after_block'', jnat after)]"
| "control_to_value (Eof src at) =
     obj [(''control'', JStr ''eof''), (''source'', JStr src), (''at_block'', jnat at)]"

definition control_from_value :: "json \<Rightarrow> control_record option" where
  "control_from_value v =
     (case jget_str ''control'' v of
        None \<Rightarrow> None
      | Some t \<Rightarrow>
          if t = ''rollback'' then
            (case (jget_u64 ''chain_id'' v, jget_u64 ''invalidate_after_block'' v) of
               (Some c, Some a) \<Rightarrow> Some (Rollback c a) | _ \<Rightarrow> None)
          else if t = ''eof'' then
            (case (jget_str ''source'' v, jget_u64 ''at_block'' v) of
               (Some s, Some a) \<Rightarrow> Some (Eof s a) | _ \<Rightarrow> None)
          else None)"

lemma control_value_roundtrip [simp]: "control_from_value (control_to_value c) = Some c"
  by (cases c) (simp_all add: control_from_value_def jget_str_def jget_u64_def jget_obj)

definition batch_control :: "string \<Rightarrow> u64 \<Rightarrow> control_record \<Rightarrow> batch" where
  "batch_control src chain ctrl =
     (let at = control_at_block ctrl
      in \<lparr> b_schema = SCHEMA_V1, b_batch_id = src @ '':ctrl:'' @ show_u64 at, b_source = src,
           b_chain_id = chain, b_block_range = BlockRange at at, b_ack_block = None,
           b_kind = Control, b_records = [control_to_value ctrl] \<rparr>)"

text \<open>\<open>Batch::ack_block\<close>, the method.\<close>

definition ack_block :: "batch \<Rightarrow> u64" where
  "ack_block b = unwrap_or (range_to (b_block_range b)) (b_ack_block b)"

definition is_control :: "batch \<Rightarrow> bool" where
  "is_control b = (b_kind b = Control)"

definition derive :: "batch \<Rightarrow> batch_kind \<Rightarrow> json list \<Rightarrow> batch" where
  "derive b k recs =
     \<lparr> b_schema = b_schema b, b_batch_id = b_batch_id b, b_source = b_source b,
       b_chain_id = b_chain_id b, b_block_range = b_block_range b,
       b_ack_block = b_ack_block b, b_kind = k, b_records = recs \<rparr>"

definition batch_len :: "batch \<Rightarrow> nat" where
  "batch_len b = length (b_records b)"

definition batch_is_empty :: "batch \<Rightarrow> bool" where
  "batch_is_empty b = (b_records b = [])"

definition as_control :: "batch \<Rightarrow> control_record option" where
  "as_control b =
     (if \<not> is_control b then None
      else case b_records b of [] \<Rightarrow> None | v # _ \<Rightarrow> control_from_value v)"

text \<open>What a transform must leave alone for acks and deduplication to stay right.\<close>

definition same_identity :: "batch \<Rightarrow> batch \<Rightarrow> bool" where
  "same_identity a b =
     (b_batch_id a = b_batch_id b \<and> b_source a = b_source b \<and> b_chain_id a = b_chain_id b
      \<and> b_block_range a = b_block_range b \<and> b_ack_block a = b_ack_block b)"

lemma same_identity_refl [simp]: "same_identity b b"
  by (simp add: same_identity_def)

lemma same_identity_derive [simp]: "same_identity (derive b k recs) b"
  by (simp add: same_identity_def derive_def)

lemma same_identity_trans: "same_identity a b \<Longrightarrow> same_identity b c \<Longrightarrow> same_identity a c"
  by (simp add: same_identity_def)

lemma same_identity_ack: "same_identity a b \<Longrightarrow> ack_block a = ack_block b"
  by (simp add: same_identity_def ack_block_def)

lemma derive_fields [simp, env_simps]:
  "b_kind (derive b k recs) = k" "b_records (derive b k recs) = recs"
  "b_source (derive b k recs) = b_source b" "b_chain_id (derive b k recs) = b_chain_id b"
  "b_block_range (derive b k recs) = b_block_range b"
  "b_ack_block (derive b k recs) = b_ack_block b" "ack_block (derive b k recs) = ack_block b"
  by (simp_all add: derive_def ack_block_def)

lemma batch_new_fields [simp, env_simps]:
  "b_kind (batch_new s c r n k recs) = k" "b_records (batch_new s c r n k recs) = recs"
  "b_source (batch_new s c r n k recs) = s" "b_chain_id (batch_new s c r n k recs) = c"
  "b_block_range (batch_new s c r n k recs) = r" "b_ack_block (batch_new s c r n k recs) = None"
  "ack_block (batch_new s c r n k recs) = range_to r"
  by (simp_all add: batch_new_def ack_block_def)

lemma batch_control_fields [simp, env_simps]:
  "b_kind (batch_control s c ctrl) = Control" "is_control (batch_control s c ctrl)"
  "b_source (batch_control s c ctrl) = s" "b_chain_id (batch_control s c ctrl) = c"
  "as_control (batch_control s c ctrl) = Some ctrl"
  "ack_block (batch_control s c ctrl) = control_at_block ctrl"
  by (simp_all add: batch_control_def is_control_def as_control_def ack_block_def Let_def)

section \<open>Codec\<close>

datatype codec_error = Unsupported encoding | JsonError string

fun range_to_value :: "block_range \<Rightarrow> json" where
  "range_to_value (BlockRange a b) = JArr [jnat a, jnat b]"

fun range_from_value :: "json \<Rightarrow> block_range option" where
  "range_from_value (JArr [a, b]) =
     (case (as_u64 a, as_u64 b) of (Some x, Some y) \<Rightarrow> Some (BlockRange x y) | _ \<Rightarrow> None)"
| "range_from_value _ = None"

text \<open>\<open>#[serde(default, skip_serializing_if = "Option::is_none")]\<close> on \<open>ack_block\<close>.\<close>

definition batch_to_value :: "batch \<Rightarrow> json" where
  "batch_to_value b =
     obj ([(''schema'', JStr (b_schema b)), (''batch_id'', JStr (b_batch_id b)),
           (''source'', JStr (b_source b)), (''chain_id'', jnat (b_chain_id b)),
           (''block_range'', range_to_value (b_block_range b))]
          @ (case b_ack_block b of None \<Rightarrow> [] | Some a \<Rightarrow> [(''ack_block'', jnat a)])
          @ [(''kind'', JStr (kind_name (b_kind b))), (''records'', JArr (b_records b))])"

definition opt_u64_from_value :: "json option \<Rightarrow> string + u64 option" where
  "opt_u64_from_value m =
     (case m of
        None \<Rightarrow> Inr None
      | Some JNull \<Rightarrow> Inr None
      | Some v \<Rightarrow> (case as_u64 v of Some n \<Rightarrow> Inr (Some n) | None \<Rightarrow> Inl ''invalid type''))"

definition batch_from_value :: "json \<Rightarrow> string + batch" where
  "batch_from_value v =
     and_then (ok_or ''schema'' (jget_str ''schema'' v)) (\<lambda>sch.
     and_then (ok_or ''batch_id'' (jget_str ''batch_id'' v)) (\<lambda>bid.
     and_then (ok_or ''source'' (jget_str ''source'' v)) (\<lambda>src.
     and_then (ok_or ''chain_id'' (jget_u64 ''chain_id'' v)) (\<lambda>chain.
     and_then (ok_or ''block_range'' (Option.bind (jget ''block_range'' v) range_from_value)) (\<lambda>r.
     and_then (opt_u64_from_value (jget ''ack_block'' v)) (\<lambda>ack.
     and_then (ok_or ''kind'' (Option.bind (jget_str ''kind'' v) kind_of_name)) (\<lambda>k.
     and_then (ok_or ''records'' (jget_array ''records'' v)) (\<lambda>recs.
       Inr \<lparr> b_schema = sch, b_batch_id = bid, b_source = src, b_chain_id = chain,
             b_block_range = r, b_ack_block = ack, b_kind = k, b_records = recs \<rparr>))))))))"

lemma range_value_roundtrip [simp]: "range_from_value (range_to_value r) = Some r"
  by (cases r) simp

lemma batch_value_roundtrip [simp]: "batch_from_value (batch_to_value b) = Inr b"
proof (cases "b_ack_block b")
  case None
  then show ?thesis
    by (simp add: batch_from_value_def batch_to_value_def jget_str_def jget_u64_def
        jget_array_def jget_obj opt_u64_from_value_def)
next
  case (Some a)
  then show ?thesis
    by (simp add: batch_from_value_def batch_to_value_def jget_str_def jget_u64_def
        jget_array_def jget_obj opt_u64_from_value_def jnat_def)
qed

text \<open>
  \<open>serde_json::from_slice\<close> and \<open>to_vec\<close> are library code: the text layer is a pair
  of functions between values and bytes of any type.
\<close>

fun decode :: "('bytes \<Rightarrow> string + json) \<Rightarrow> encoding \<Rightarrow> 'bytes \<Rightarrow> codec_error + batch" where
  "decode from_slice Json d =
     (case and_then (from_slice d) batch_from_value of Inl e \<Rightarrow> Inl (JsonError e) | Inr b \<Rightarrow> Inr b)"
| "decode from_slice other d = Inl (Unsupported other)"

fun encode :: "(json \<Rightarrow> 'bytes) \<Rightarrow> encoding \<Rightarrow> batch \<Rightarrow> codec_error + 'bytes" where
  "encode to_vec Json b = Inr (to_vec (batch_to_value b))"
| "encode to_vec other b = Inl (Unsupported other)"

lemma decode_encode:
  "(\<And>v. from_slice (to_vec v) = Inr v) \<Longrightarrow> encode to_vec e b = Inr d \<Longrightarrow> decode from_slice e d = Inr b"
  by (cases e) auto

section \<open>Properties\<close>

lemma show_u64_no_colon [simp]: "CHR '':'' \<notin> set (show_u64 n)"
  by (auto simp: show_u64_def dest: show_nat_no_special)

lemma append_colon_number:
  "x @ CHR '':'' # show_u64 a = y @ CHR '':'' # show_u64 b \<longleftrightarrow> x = y \<and> a = b"
  by (subst append_sep_inject_rev) auto

lemma append_colon_number_assoc:
  "x @ CHR '':'' # z @ CHR '':'' # show_u64 a = y @ CHR '':'' # w @ CHR '':'' # show_u64 b
   \<longleftrightarrow> x @ CHR '':'' # z = y @ CHR '':'' # w \<and> a = b"
  using append_colon_number [of "x @ CHR '':'' # z" a "y @ CHR '':'' # w" b] by simp

lemma append_colon_number_assoc2:
  "x @ CHR '':'' # z @ CHR '':'' # u @ CHR '':'' # show_u64 a
     = y @ CHR '':'' # w @ CHR '':'' # v @ CHR '':'' # show_u64 b
   \<longleftrightarrow> x @ CHR '':'' # z @ CHR '':'' # u = y @ CHR '':'' # w @ CHR '':'' # v \<and> a = b"
  using append_colon_number [of "x @ CHR '':'' # z @ CHR '':'' # u" a
      "y @ CHR '':'' # w @ CHR '':'' # v" b] by simp

lemma batch_id_inject:
  "make_batch_id s r n = make_batch_id s' r' n' \<longleftrightarrow> s = s' \<and> r = r' \<and> n = n'"
  by (cases r; cases r')
    (auto simp: make_batch_id_def append_colon_number append_colon_number_assoc
      append_colon_number_assoc2)

text \<open>
  The batch id is deterministic and identifies the source, the block range and the
  chunk number, whatever characters the source name contains; this is the key that sinks
  deduplicate on.
\<close>

theorem batch_id_injective:
  "make_batch_id s r n = make_batch_id s' r' n' \<longleftrightarrow> s = s' \<and> r = r' \<and> n = n'"
  by (rule batch_id_inject)

text \<open>
  C29: a batch survives the boundary codec unchanged in the one wired encoding, and the
  other encodings are refused in both directions with their own tag.
\<close>

theorem codec_roundtrip:
  assumes "\<And>v. from_slice (to_vec v) = Inr v"
  shows "(case encode to_vec e b of
            Inr d \<Rightarrow> e = Json \<and> decode from_slice e d = Inr b
          | Inl err \<Rightarrow> e \<noteq> Json \<and> err = Unsupported e \<and> decode from_slice e d' = Inl err)"
  using assms by (cases e) auto

theorem codec_roundtrip_witness:
  "(case encode (\<lambda>v. v) Json (batch_control ''eth'' 1 (Rollback 1 99)) of
      Inr d \<Rightarrow> Json = Json \<and> decode Inr Json d = Inr (batch_control ''eth'' 1 (Rollback 1 99))
    | Inl err \<Rightarrow> Json \<noteq> Json \<and> err = Unsupported Json \<and> decode Inr Json JNull = Inl err)"
  by (rule codec_roundtrip) simp

end
