(* ===== verification/Client.thy ===== *)
theory Client
  imports ConfigTypes Envelope
begin

text \<open>
  The HyperSync client: \<open>crates/source-hypersync/src/client.rs\<close>.  The HTTP library is a
  parameter \<open>http\<close> of the model: a function from the outside world's state to a
  transport error or a status with a JSON body, and the new state.  A \<open>HashMap\<close> is
  modelled by the ordered map: the code only looks keys up or collects the entries
  for consumers that do not depend on their order.
\<close>

section \<open>Wire types\<close>

record log_sel_wire =
  lw_address :: "string list"
  lw_topics :: "string list list"

record field_sel_wire =
  fw_log :: "string list"
  fw_block :: "string list"
  fw_transaction :: "string list"

record query_req =
  qr_from_block :: u64
  qr_to_block :: "u64 option"
  qr_logs :: "log_sel_wire list"
  qr_include_all_blocks :: "bool option"
  qr_field_selection :: field_sel_wire

record client =
  c_query_url :: string
  c_height_url :: string
  c_token :: "string option"
  c_logs :: "log_sel_wire list"
  c_field_selection :: field_sel_wire
  c_join_ts :: bool
  c_join_hash :: bool

record rollback_guard =
  rg_block_number :: u64
  rg_hash :: string
  rg_first_block_number :: u64
  rg_first_parent_hash :: string
  rg_timestamp :: "u64 option"

record query_response =
  r_archive_height :: "u64 option"
  r_next_block :: u64
  r_records :: "json list"
  r_block_hashes :: "(u64 \<times> string) list"
  r_rollback_guard :: "rollback_guard option"

text \<open>\<open>#[serde(skip_serializing_if = ...)]\<close>: empty lists and \<open>None\<close> leave no field.\<close>

definition jstrs :: "string list \<Rightarrow> json" where
  "jstrs xs = JArr (map JStr xs)"

definition skip_empty :: "string \<Rightarrow> ('a list \<Rightarrow> json) \<Rightarrow> 'a list \<Rightarrow> (string \<times> json) list" where
  "skip_empty k f xs = (if xs = [] then [] else [(k, f xs)])"

definition log_sel_to_value :: "log_sel_wire \<Rightarrow> json" where
  "log_sel_to_value l =
     obj (skip_empty ''address'' jstrs (lw_address l)
          @ skip_empty ''topics'' (\<lambda>ts. JArr (map jstrs ts)) (lw_topics l))"

definition field_sel_to_value :: "field_sel_wire \<Rightarrow> json" where
  "field_sel_to_value f =
     obj (skip_empty ''log'' jstrs (fw_log f) @ skip_empty ''block'' jstrs (fw_block f)
          @ skip_empty ''transaction'' jstrs (fw_transaction f))"

definition query_req_to_value :: "query_req \<Rightarrow> json" where
  "query_req_to_value q =
     obj ([(''from_block'', jnat (qr_from_block q))]
          @ (case qr_to_block q of None \<Rightarrow> [] | Some t \<Rightarrow> [(''to_block'', jnat t)])
          @ skip_empty ''logs'' (\<lambda>ls. JArr (map log_sel_to_value ls)) (qr_logs q)
          @ (case qr_include_all_blocks q of
               None \<Rightarrow> [] | Some b \<Rightarrow> [(''include_all_blocks'', JBool b)])
          @ [(''field_selection'', field_sel_to_value (qr_field_selection q))])"

section \<open>Building the client\<close>

definition push_missing :: "string \<Rightarrow> string list \<Rightarrow> string list" where
  "push_missing f xs = (if f \<in> set xs then xs else xs @ [f])"

definition client_new :: "string \<Rightarrow> string option \<Rightarrow> query \<Rightarrow> bool \<Rightarrow> client" where
  "client_new base_url token q track_blocks =
     (let base = trim_end_char (CHR ''/'') base_url;
          fs = q_field_selection q;
          block_sel = (if track_blocks
                       then push_missing ''hash'' (push_missing ''number'' (fs_block fs))
                       else fs_block fs)
      in \<lparr> c_query_url = base @ ''/query'', c_height_url = base @ ''/height'', c_token = token,
           c_logs = map (\<lambda>l. \<lparr> lw_address = ls_address l, lw_topics = ls_topics l \<rparr>) (q_logs q),
           c_field_selection = \<lparr> fw_log = fs_log fs, fw_block = block_sel,
                                 fw_transaction = fs_transaction fs \<rparr>,
           c_join_ts = (''timestamp'' \<in> set (fs_block fs)),
           c_join_hash = (''hash'' \<in> set (fs_block fs)) \<rparr>)"

section \<open>HTTP\<close>

datatype http_method = GET | POST json

record http_request =
  hr_method :: http_method
  hr_url :: string
  hr_bearer :: "string option"

text \<open>Transport failure and an unreadable body are errors; otherwise status and body.\<close>

type_synonym 'w http = "'w \<Rightarrow> http_request \<Rightarrow> (string + nat \<times> json) \<times> 'w"

definition is_success :: "nat \<Rightarrow> bool" where
  "is_success status = (200 \<le> status \<and> status < 300)"

definition auth :: "client \<Rightarrow> http_method \<Rightarrow> string \<Rightarrow> http_request" where
  "auth c m url = \<lparr> hr_method = m, hr_url = url, hr_bearer = c_token c \<rparr>"

definition archive_height :: "'w http \<Rightarrow> client \<Rightarrow> 'w \<Rightarrow> u64 res \<times> 'w" where
  "archive_height http c w =
     (case http w (auth c GET (c_height_url c)) of (r, w') \<Rightarrow>
        (and_then r (\<lambda>(_, v).
           ok_or ''height response missing `height`'' (jget_u64 ''height'' v)), w'))"

definition post_query :: "'w http \<Rightarrow> client \<Rightarrow> query_req \<Rightarrow> 'w \<Rightarrow> json res \<times> 'w" where
  "post_query http c req w =
     (case http w (auth c (POST (query_req_to_value req)) (c_query_url c)) of (r, w') \<Rightarrow>
        (and_then r (\<lambda>(status, body).
           if \<not> is_success status then
             Inl (''hypersync '' @ show_nat status @ '': ''
                  @ unwrap_or ''unknown error'' (jget_str ''error'' body))
           else Inr body), w'))"

section \<open>Parsing a response\<close>

definition flex_u64 :: "json option \<Rightarrow> u64 option" where
  "flex_u64 v = Option.bind v flexible_u64"

definition parse_rollback_guard :: "json option \<Rightarrow> rollback_guard option" where
  "parse_rollback_guard v =
     (case Option.bind v as_object of
        None \<Rightarrow> None
      | Some g \<Rightarrow>
          Option.bind (flex_u64 (map_of g ''block_number'')) (\<lambda>bn.
          Option.bind (Option.bind (map_of g ''hash'') as_str) (\<lambda>h.
          Option.bind (flex_u64 (map_of g ''first_block_number'')) (\<lambda>fbn.
          Option.bind (Option.bind (map_of g ''first_parent_hash'') as_str) (\<lambda>fph.
            Some \<lparr> rg_block_number = bn, rg_hash = h, rg_first_block_number = fbn,
                   rg_first_parent_hash = fph,
                   rg_timestamp = flex_u64 (map_of g ''timestamp'') \<rparr>)))))"

text \<open>The closure \<open>ingest\<close>: the block metadata map and the logs of one data object.\<close>

type_synonym block_meta = "(u64, u64 option \<times> string option) btm"

definition ingest_block :: "json \<Rightarrow> block_meta \<Rightarrow> block_meta" where
  "ingest_block b blocks =
     (case flex_u64 (jget ''number'' b) of
        None \<Rightarrow> blocks
      | Some num \<Rightarrow>
          btm_insert num (flex_u64 (jget ''timestamp'' b), jget_str ''hash'' b) blocks)"

definition ingest :: "json \<Rightarrow> block_meta \<times> json list \<Rightarrow> block_meta \<times> json list" where
  "ingest o1 st =
     (case st of (blocks, logs) \<Rightarrow>
        ((case jget_array ''blocks'' o1 of None \<Rightarrow> blocks | Some bs \<Rightarrow> fold ingest_block bs blocks),
         (case jget_array ''logs'' o1 of None \<Rightarrow> logs | Some ls \<Rightarrow> logs @ ls)))"

definition ingest_data :: "json \<Rightarrow> block_meta \<times> json list" where
  "ingest_data d =
     (case d of
        JArr arr \<Rightarrow> fold ingest arr ([], [])
      | JObj _ \<Rightarrow> ingest d ([], [])
      | _ \<Rightarrow> ([], []))"

text \<open>\<open>entry(k).or_insert(v)\<close>.\<close>

definition or_insert :: "string \<Rightarrow> json \<Rightarrow> (string \<times> json) list \<Rightarrow> (string \<times> json) list" where
  "or_insert k v m = (if map_of m k = None then btm_insert k v m else m)"

definition join_block :: "bool \<Rightarrow> bool \<Rightarrow> block_meta \<Rightarrow> json \<Rightarrow> json" where
  "join_block join_ts join_hash blocks log =
     (case flex_u64 (jget ''block_number'' log) of
        None \<Rightarrow> log
      | Some bn \<Rightarrow>
          (case map_of blocks bn of
             None \<Rightarrow> log
           | Some (ts, hash) \<Rightarrow>
               (case log of
                  JObj m \<Rightarrow>
                    let m1 = (case (join_ts, ts) of
                                (True, Some t) \<Rightarrow> or_insert ''block_timestamp'' (jnat t) m
                              | _ \<Rightarrow> m);
                        m2 = (case (join_hash, hash) of
                                (True, Some h) \<Rightarrow> or_insert ''block_hash'' (JStr h) m1
                              | _ \<Rightarrow> m1)
                    in JObj m2
                | _ \<Rightarrow> log)))"

definition hashes_of :: "block_meta \<Rightarrow> (u64 \<times> string) list" where
  "hashes_of blocks = List.map_filter (\<lambda>(num, (_, hash)). map_option (\<lambda>h. (num, h)) hash) blocks"

definition parse_response :: "json \<Rightarrow> u64 \<Rightarrow> bool \<Rightarrow> bool \<Rightarrow> query_response" where
  "parse_response body from_block join_ts join_hash =
     (let d = unwrap_or JNull (jget ''data'' body);
          (blocks, logs) = ingest_data d
      in \<lparr> r_archive_height = jget_u64 ''archive_height'' body,
           r_next_block = unwrap_or from_block (jget_u64 ''next_block'' body),
           r_records = map (join_block join_ts join_hash blocks) logs,
           r_block_hashes = hashes_of blocks,
           r_rollback_guard = parse_rollback_guard (jget ''rollback_guard'' body) \<rparr>)"

section \<open>Queries\<close>

definition client_query ::
  "'w http \<Rightarrow> client \<Rightarrow> u64 \<Rightarrow> u64 option \<Rightarrow> 'w \<Rightarrow> query_response res \<times> 'w" where
  "client_query http c from_block to_block w =
     (case post_query http c
             \<lparr> qr_from_block = from_block, qr_to_block = to_block, qr_logs = c_logs c,
               qr_include_all_blocks = None, qr_field_selection = c_field_selection c \<rparr> w of
        (r, w') \<Rightarrow>
          (and_then r (\<lambda>body. Inr (parse_response body from_block (c_join_ts c) (c_join_hash c))),
           w'))"

definition headers_req :: "u64 \<Rightarrow> u64 \<Rightarrow> query_req" where
  "headers_req cursor to_block =
     \<lparr> qr_from_block = cursor, qr_to_block = Some to_block, qr_logs = [],
       qr_include_all_blocks = Some True,
       qr_field_selection = \<lparr> fw_log = [], fw_block = [''number'', ''hash''],
                              fw_transaction = [] \<rparr> \<rparr>"

text \<open>
  The paging loop of \<open>block_hashes\<close>.  The cursor only moves forward and the loop stops
  at \<open>to\<close>, so it ends against any server.
\<close>

function block_hashes_loop ::
  "'w http \<Rightarrow> client \<Rightarrow> u64 \<Rightarrow> u64 \<Rightarrow> (u64 \<times> string) list \<Rightarrow> 'w
   \<Rightarrow> (u64 \<times> string) list res \<times> 'w" where
  "block_hashes_loop http c cursor to_block out w =
     (if \<not> cursor < to_block then (Inr out, w)
      else case post_query http c (headers_req cursor to_block) w of
             (Inl e, w') \<Rightarrow> (Inl e, w')
           | (Inr body, w') \<Rightarrow>
               (let resp = parse_response body cursor False False;
                    out' = out @ r_block_hashes resp
                in if r_next_block resp \<le> cursor then (Inr out', w')
                   else block_hashes_loop http c (r_next_block resp) to_block out' w'))"
  by pat_completeness auto
termination
  by (relation "measure (\<lambda>(_, _, cursor, to_block, _, _). unat to_block - unat cursor)")
    (auto simp: word_less_nat_alt word_le_nat_alt)

declare block_hashes_loop.simps [simp del]

definition block_hashes ::
  "'w http \<Rightarrow> client \<Rightarrow> u64 \<Rightarrow> u64 \<Rightarrow> 'w \<Rightarrow> (u64 \<times> string) list res \<times> 'w" where
  "block_hashes http c from to_block w = block_hashes_loop http c from to_block [] w"

section \<open>The block metadata map\<close>

lemma btm_ok_ingest_block [btm_intros]: "btm_ok m \<Longrightarrow> btm_ok (ingest_block b m)"
  by (auto simp: ingest_block_def split: option.splits)

lemma btm_ok_fold_ingest_block [btm_intros]: "btm_ok m \<Longrightarrow> btm_ok (fold ingest_block bs m)"
  by (induction bs arbitrary: m) (auto intro: btm_intros)

lemma btm_ok_ingest [btm_intros]: "btm_ok (fst st) \<Longrightarrow> btm_ok (fst (ingest o1 st))"
  by (auto simp: ingest_def intro: btm_intros split: option.splits prod.splits)

lemma btm_ok_fold_ingest [btm_intros]: "btm_ok (fst st) \<Longrightarrow> btm_ok (fst (fold ingest os st))"
  by (induction os arbitrary: st) (simp_all add: btm_ok_ingest)

lemma btm_ok_ingest_data [btm_intros]: "btm_ok (fst (ingest_data d))"
  by (cases d) (auto simp: ingest_data_def intro: btm_intros)

lemma fst_hashes_of: "a \<in> fst ` set (hashes_of m) \<Longrightarrow> a \<in> fst ` set m"
  by (force simp: hashes_of_def List.map_filter_def)

lemma map_of_hashes_of:
  "btm_ok m \<Longrightarrow> map_of (hashes_of m) n = Option.bind (map_of m n) snd"
proof (induction m)
  case (Cons x m)
  obtain a ts h where x: "x = (a, ts, h)" by (cases x)
  have "map_of (hashes_of m) a = None" if "h = None"
    using Cons.prems by (auto simp: x btm_ok_Cons map_of_eq_None_iff dest!: fst_hashes_of [OF imageI])
  with Cons show ?case
    by (auto simp: x hashes_of_def btm_ok_Cons List.map_filter_simps split: option.splits)
qed (simp add: hashes_of_def List.map_filter_simps)

lemma distinct_hashes_of: "btm_ok m \<Longrightarrow> distinct (map fst (hashes_of m))"
proof (induction m)
  case (Cons x m)
  obtain a ts h where x: "x = (a, ts, h)" by (cases x)
  have "a \<notin> fst ` set (hashes_of m)"
    using Cons.prems by (auto simp: x btm_ok_Cons dest!: fst_hashes_of [OF imageI])
  with Cons show ?case
    by (auto simp: x hashes_of_def btm_ok_Cons List.map_filter_simps split: option.splits)
qed (simp add: hashes_of_def List.map_filter_simps)

text \<open>A response names each block at most once.\<close>

lemma parse_response_distinct:
  "distinct (map fst (r_block_hashes (parse_response body n ts h)))"
  using btm_ok_ingest_data [of "unwrap_or JNull (jget ''data'' body)"]
  by (auto simp: parse_response_def Let_def distinct_hashes_of split: prod.splits)

section \<open>Denormalising block metadata\<close>

lemma btm_ok_or_insert [simp, btm_intros]: "btm_ok m \<Longrightarrow> btm_ok (or_insert k v m)"
  by (simp add: or_insert_def)

lemma map_of_or_insert:
  "btm_ok m \<Longrightarrow> map_of (or_insert k v m) a =
     (if a = k \<and> map_of m k = None then Some v else map_of m a)"
  by (auto simp: or_insert_def)

lemma join_block_get:
  assumes "log = JObj m" "btm_ok m"
  shows "jget k (join_block ts h blocks log) =
     (case map_of m k of
        Some v \<Rightarrow> Some v
      | None \<Rightarrow>
          Option.bind (Option.bind (flex_u64 (map_of m ''block_number'')) (map_of blocks)) (\<lambda>(t, x).
            if k = ''block_timestamp'' \<and> ts then map_option jnat t
            else if k = ''block_hash'' \<and> h then map_option JStr x
            else None))"
  using assms
  by (auto simp: join_block_def Let_def map_of_or_insert intro: btm_intros
      split: option.splits bool.splits)

lemma join_block_not_object: "as_object log = None \<Longrightarrow> join_block ts h blocks log = log"
  by (cases log) (auto simp: join_block_def split: option.splits)

section \<open>Properties\<close>


definition sample_body :: json where
  "sample_body =
     obj [(''next_block'', jnat 11),
          (''data'', obj [(''blocks'', JArr [obj [(''number'', jnat 10), (''timestamp'', jnat 111),
                                                (''hash'', JStr ''0xa'')]]),
                        (''logs'', JArr [JObj [(''block_number'', jnat 10)]])])]"

lemma sample_ingest:
  "ingest_data (unwrap_or JNull (jget ''data'' sample_body))
   = ([(10, Some 111, Some ''0xa'')], [JObj [(''block_number'', jnat 10)]])"
  by code_simp


text \<open>Every request of a run, in order, newest first: an HTTP layer that keeps a log.\<close>

definition logged :: "'w http \<Rightarrow> ('w \<times> http_request list) http" where
  "logged http wl req = (case http (fst wl) req of (r, w') \<Rightarrow> (r, (w', req # snd wl)))"

lemma post_query_logged:
  "post_query (logged http) c req (w, l) =
     (fst (post_query http c req w),
      (snd (post_query http c req w),
       auth c (POST (query_req_to_value req)) (c_query_url c) # l))"
  by (simp add: post_query_def logged_def split: prod.splits)

lemma block_hashes_loop_requests:
  "length (snd (snd (block_hashes_loop (logged http) c cursor to_block out (w, l))))
     \<le> length l + (unat to_block - unat cursor)"
proof (induction http c cursor to_block out w arbitrary: l rule: block_hashes_loop.induct)
  case (1 http c cursor to_block out w)
  show ?case
  proof (cases "cursor < to_block")
    case True
    then have pos: "1 \<le> unat to_block - unat cursor" by (simp add: word_less_nat_alt)
    show ?thesis
    proof (cases "post_query http c (headers_req cursor to_block) w")
      case (Pair r w')
      show ?thesis
      proof (cases r)
        case (Inl e)
        then show ?thesis using True pos Pair
          by (subst block_hashes_loop.simps) (simp add: post_query_logged)
      next
        case (Inr body)
        let ?resp = "parse_response body cursor False False"
        let ?req = "auth c (POST (query_req_to_value (headers_req cursor to_block))) (c_query_url c)"
        show ?thesis
        proof (cases "r_next_block ?resp \<le> cursor")
          case True
          then show ?thesis using \<open>cursor < to_block\<close> pos Pair Inr
            by (subst block_hashes_loop.simps) (simp add: post_query_logged Let_def)
        next
          case False
          have "length (snd (snd (block_hashes_loop (logged http) c (r_next_block ?resp) to_block
                  (out @ r_block_hashes ?resp) (w', ?req # l))))
                \<le> length (?req # l) + (unat to_block - unat (r_next_block ?resp))"
            using 1 [of r w' body ?resp "out @ r_block_hashes ?resp" "?req # l"]
              \<open>cursor < to_block\<close> Pair Inr False by simp
          moreover have "1 + (unat to_block - unat (r_next_block ?resp))
              \<le> unat to_block - unat cursor"
            using False pos by (simp add: word_le_nat_alt)
          ultimately show ?thesis using \<open>cursor < to_block\<close> Pair Inr False
            by (subst block_hashes_loop.simps) (simp add: post_query_logged Let_def)
        qed
      qed
    qed
  qed (subst block_hashes_loop.simps, simp)
qed

text \<open>
  Locating a fork costs at most one request per block of the range, whatever the
  server answers; an empty range costs none.
\<close>

theorem block_hashes_bounded:
  "length (snd (snd (block_hashes (logged http) c lo to_block (w, [])))) \<le> unat to_block - unat lo"
  using block_hashes_loop_requests [of http c lo to_block "[]" w "[]"]
  by (simp add: block_hashes_def)

end
