(* ===== verification/Kv.thy ===== *)
theory Kv
  imports Prelude
begin

text \<open>
  The durable key-value interface of \<open>crates/encoding/src/lib.rs\<close> (\<open>trait KvStore\<close>) as
  a locale, and its in-memory implementation \<open>MemKv\<close> of
  \<open>crates/wasm-host/src/host_impl.rs\<close>.  Keys are namespaced by module; a read may change
  the store (the checkpoint store caches what it loads), so it returns the new state.
\<close>

type_synonym kv_key = "string \<times> string"

locale kv_store =
  fixes kv_get :: "'s \<Rightarrow> string \<Rightarrow> string \<Rightarrow> 'b option \<times> 's"
    and kv_set :: "'s \<Rightarrow> string \<Rightarrow> string \<Rightarrow> 'b \<Rightarrow> 's"
    and kv_inv :: "'s \<Rightarrow> bool"
    and kv_view :: "'s \<Rightarrow> kv_key \<Rightarrow> 'b option"
  assumes get_value: "kv_inv s \<Longrightarrow> fst (kv_get s m k) = kv_view s (m, k)"
    and get_view: "kv_inv s \<Longrightarrow> kv_view (snd (kv_get s m k)) = kv_view s"
    and get_inv: "kv_inv s \<Longrightarrow> kv_inv (snd (kv_get s m k))"
    and set_view: "kv_inv s \<Longrightarrow> kv_view (kv_set s m k v) = (kv_view s)((m, k) \<mapsto> v)"
    and set_inv: "kv_inv s \<Longrightarrow> kv_inv (kv_set s m k v)"
begin

lemma get_after_set: "kv_inv s \<Longrightarrow> fst (kv_get (kv_set s m k v) m k) = Some v"
  by (simp add: get_value set_view set_inv)

lemma get_other_after_set:
  "kv_inv s \<Longrightarrow> (m, k) \<noteq> (m', k')
   \<Longrightarrow> fst (kv_get (kv_set s m k v) m' k') = fst (kv_get s m' k')"
  by (auto simp: get_value set_view set_inv)

lemma get_after_get:
  "kv_inv s \<Longrightarrow> fst (kv_get (snd (kv_get s m k)) m' k') = fst (kv_get s m' k')"
  by (simp add: get_value get_view get_inv)

text \<open>One module never sees another's writes.\<close>

lemma namespaced:
  "kv_inv s \<Longrightarrow> m \<noteq> m' \<Longrightarrow> fst (kv_get (kv_set s m k v) m' k') = fst (kv_get s m' k')"
  by (rule get_other_after_set) auto

end

section \<open>The in-memory store\<close>

text \<open>\<open>Mutex<HashMap<(String, String), Vec<u8>>>\<close>: each call holds the lock throughout.\<close>

type_synonym 'b mem_kv = "kv_key \<Rightarrow> 'b option"

definition mem_kv_get :: "'b mem_kv \<Rightarrow> string \<Rightarrow> string \<Rightarrow> 'b option \<times> 'b mem_kv" where
  "mem_kv_get s m k = (s (m, k), s)"

definition mem_kv_set :: "'b mem_kv \<Rightarrow> string \<Rightarrow> string \<Rightarrow> 'b \<Rightarrow> 'b mem_kv" where
  "mem_kv_set s m k v = s((m, k) \<mapsto> v)"

interpretation mem: kv_store mem_kv_get mem_kv_set "\<lambda>_. True" "\<lambda>s. s"
  by unfold_locales (auto simp: mem_kv_get_def mem_kv_set_def)

end
