(* ===== verification/Reorg.thy ===== *)
theory Reorg
  imports Client Kv
begin

text \<open>
  Reorg tracking: \<open>crates/source-hypersync/src/reorg.rs\<close>.  A bounded window of block
  hashes, checked against every response and persisted through the key-value store.
  The store operations and the JSON text layer of the persisted payload are parameters.
\<close>

section \<open>The tracker\<close>

record tracker =
  t_window :: u64
  t_hashes :: "(u64, string) btm"

definition kv_module :: "string \<Rightarrow> string" where
  "kv_module src = ''__source/'' @ src"

definition KV_KEY :: string where
  "KV_KEY = ''reorg_hashes''"

definition tracker_new :: "u64 \<Rightarrow> tracker" where
  "tracker_new window = \<lparr> t_window = max window 1, t_hashes = [] \<rparr>"

text \<open>\<open>while len > window { pop_first }\<close>.\<close>

fun pop_to :: "nat \<Rightarrow> ('k, 'v) btm \<Rightarrow> ('k, 'v) btm" where
  "pop_to n [] = []"
| "pop_to n (x # xs) = (if n < length (x # xs) then pop_to n xs else x # xs)"

definition trim :: "tracker \<Rightarrow> tracker" where
  "trim t = t \<lparr> t_hashes := pop_to (unat (t_window t)) (t_hashes t) \<rparr>"

definition insert_hash :: "u64 \<Rightarrow> string \<Rightarrow> tracker \<Rightarrow> tracker" where
  "insert_hash n h t = t \<lparr> t_hashes := btm_insert n h (t_hashes t) \<rparr>"

definition record_hashes :: "u64 \<Rightarrow> (u64 \<times> string) list \<Rightarrow> tracker \<Rightarrow> tracker" where
  "record_hashes emitted_next hs t =
     fold (\<lambda>(num, hash) t. if num < emitted_next then insert_hash num hash t else t) hs t"

definition record_guard :: "u64 \<Rightarrow> rollback_guard \<Rightarrow> tracker \<Rightarrow> tracker" where
  "record_guard emitted_next g t =
     (let t1 = (if rg_block_number g < emitted_next
                then insert_hash (rg_block_number g) (rg_hash g) t else t)
      in if 0 < rg_first_block_number g
         then insert_hash (rg_first_block_number g - 1) (rg_first_parent_hash g) t1 else t1)"

definition tracker_record :: "query_response \<Rightarrow> u64 \<Rightarrow> tracker \<Rightarrow> tracker" where
  "tracker_record resp emitted_next t =
     (let t1 = record_hashes emitted_next (r_block_hashes resp) t;
          t2 = (case r_rollback_guard resp of None \<Rightarrow> t1 | Some g \<Rightarrow> record_guard emitted_next g t1)
      in trim t2)"

text \<open>The closure \<open>note\<close> of \<open>conflict\<close>.\<close>

definition note_block :: "u64 \<Rightarrow> u64 option \<Rightarrow> u64 option" where
  "note_block b worst = Some (case worst of None \<Rightarrow> b | Some w \<Rightarrow> min w b)"

definition check_hash :: "tracker \<Rightarrow> u64 \<times> string \<Rightarrow> u64 option \<Rightarrow> u64 option" where
  "check_hash t nh worst =
     (case nh of (num, hash) \<Rightarrow>
        (case map_of (t_hashes t) num of
           Some stored \<Rightarrow> if stored \<noteq> hash then note_block num worst else worst
         | None \<Rightarrow> worst))"

definition conflict :: "tracker \<Rightarrow> query_response \<Rightarrow> u64 option" where
  "conflict t resp =
     (let w0 = (case r_rollback_guard resp of
                  None \<Rightarrow> None
                | Some g \<Rightarrow>
                    if 0 < rg_first_block_number g then
                      (let parent = rg_first_block_number g - 1
                       in case map_of (t_hashes t) parent of
                            Some stored \<Rightarrow>
                              if stored \<noteq> rg_first_parent_hash g then note_block parent None else None
                          | None \<Rightarrow> None)
                    else None)
      in fold (check_hash t) (r_block_hashes resp) w0)"

definition last_matching :: "tracker \<Rightarrow> (u64 \<rightharpoonup> string) \<Rightarrow> u64 option" where
  "last_matching t canonical =
     map_option fst (find (\<lambda>(num, hash). canonical num = Some hash) (rev (t_hashes t)))"

definition purge_after :: "u64 \<Rightarrow> tracker \<Rightarrow> tracker" where
  "purge_after fork t = t \<lparr> t_hashes := filter (\<lambda>(num, _). num \<le> fork) (t_hashes t) \<rparr>"

definition min_block :: "tracker \<Rightarrow> u64 option" where
  "min_block t = (case t_hashes t of [] \<Rightarrow> None | (num, _) # _ \<Rightarrow> Some num)"

section \<open>Persistence\<close>

text \<open>The payload is a JSON array of \<open>[number, hash]\<close> pairs.\<close>

definition pairs_to_value :: "(u64 \<times> string) list \<Rightarrow> json" where
  "pairs_to_value ps = JArr (map (\<lambda>(n, h). JArr [jnat n, JStr h]) ps)"

fun pair_from_value :: "json \<Rightarrow> (u64 \<times> string) res" where
  "pair_from_value (JArr [a, b]) =
     (case (as_u64 a, as_str b) of (Some n, Some h) \<Rightarrow> Inr (n, h) | _ \<Rightarrow> Inl ''invalid type'')"
| "pair_from_value _ = Inl ''invalid type''"

definition pairs_from_value :: "json \<Rightarrow> (u64 \<times> string) list res" where
  "pairs_from_value v =
     and_then (ok_or ''invalid type'' (as_array v)) (map_res pair_from_value)"

definition tracker_load ::
  "('s \<Rightarrow> string \<Rightarrow> string \<Rightarrow> 'b option \<times> 's) \<Rightarrow> ('b \<Rightarrow> json res)
   \<Rightarrow> u64 \<Rightarrow> string \<Rightarrow> 's option \<Rightarrow> tracker \<times> 's option" where
  "tracker_load kv_get from_slice window src kv =
     (let t = tracker_new window
      in case kv of
           None \<Rightarrow> (t, None)
         | Some s \<Rightarrow>
             (case kv_get s (kv_module src) KV_KEY of
                (None, s') \<Rightarrow> (t, Some s')
              | (Some bytes, s') \<Rightarrow>
                  (case and_then (from_slice bytes) pairs_from_value of
                     Inr pairs \<Rightarrow> (trim (t \<lparr> t_hashes := btm_of_list pairs \<rparr>), Some s')
                   | Inl e \<Rightarrow> (t, Some s'))))"

definition tracker_save ::
  "('s \<Rightarrow> string \<Rightarrow> string \<Rightarrow> 'b \<Rightarrow> 's) \<Rightarrow> (json \<Rightarrow> 'b) \<Rightarrow> tracker \<Rightarrow> string \<Rightarrow> 's option \<Rightarrow> 's option" where
  "tracker_save kv_set to_vec t src kv =
     map_option (\<lambda>s. kv_set s (kv_module src) KV_KEY (to_vec (pairs_to_value (t_hashes t)))) kv"

section \<open>The tracker invariant\<close>

definition tracker_ok :: "tracker \<Rightarrow> bool" where
  "tracker_ok t = (btm_ok (t_hashes t) \<and> length (t_hashes t) \<le> unat (t_window t) \<and> 0 < t_window t)"

lemma pop_to_drop: "pop_to n xs = drop (length xs - n) xs"
  by (induction n xs rule: pop_to.induct) (auto simp: Suc_diff_le)

lemma tracker_ok_btm [simp]: "tracker_ok t \<Longrightarrow> btm_ok (t_hashes t)"
  by (simp add: tracker_ok_def)

lemma tracker_ok_new: "tracker_ok (tracker_new w)"
proof -
  have "0 < max w (1 :: u64)" by (simp add: less_max_iff_disj)
  then show ?thesis by (simp add: tracker_ok_def tracker_new_def)
qed

lemma tracker_ok_trim:
  "btm_ok (t_hashes t) \<Longrightarrow> 0 < t_window t \<Longrightarrow> tracker_ok (trim t)"
  by (simp add: tracker_ok_def trim_def pop_to_drop)

lemma trim_id: "tracker_ok t \<Longrightarrow> trim t = t"
  by (simp add: trim_def pop_to_drop tracker_ok_def)

lemma insert_hash_fields [simp]:
  "t_window (insert_hash n h t) = t_window t"
  "t_hashes (insert_hash n h t) = btm_insert n h (t_hashes t)"
  by (simp_all add: insert_hash_def)

lemma record_hashes_window [simp]: "t_window (record_hashes e hs t) = t_window t"
  by (induction hs arbitrary: t) (auto simp: record_hashes_def)

lemma record_hashes_ok [simp, btm_intros]:
  "btm_ok (t_hashes t) \<Longrightarrow> btm_ok (t_hashes (record_hashes e hs t))"
  by (induction hs arbitrary: t) (auto simp: record_hashes_def)

lemma record_guard_window [simp]: "t_window (record_guard e g t) = t_window t"
  by (simp add: record_guard_def Let_def)

lemma record_guard_ok [simp, btm_intros]:
  "btm_ok (t_hashes t) \<Longrightarrow> btm_ok (t_hashes (record_guard e g t))"
  by (simp add: record_guard_def Let_def)

lemma tracker_ok_record: "tracker_ok t \<Longrightarrow> tracker_ok (tracker_record resp e t)"
  by (auto simp: tracker_record_def Let_def tracker_ok_def [of t] intro!: tracker_ok_trim
      split: option.splits)

lemma tracker_ok_purge: "tracker_ok t \<Longrightarrow> tracker_ok (purge_after f t)"
  by (auto simp: tracker_ok_def purge_after_def intro: le_trans [OF length_filter_le])

lemma tracker_new_fields [simp]: "t_hashes (tracker_new w) = []" "0 < t_window (tracker_new w)"
  using tracker_ok_new [of w] by (simp_all add: tracker_ok_def tracker_new_def)

lemma tracker_ok_load: "tracker_ok (fst (tracker_load kv_get from_slice w src kv))"
  by (auto simp: tracker_load_def Let_def tracker_ok_new
      split: option.splits sum.splits prod.splits intro!: tracker_ok_trim)

section \<open>What a conflict is\<close>

definition mismatches :: "tracker \<Rightarrow> query_response \<Rightarrow> u64 set" where
  "mismatches t resp =
     {n. \<exists>stored hash. map_of (t_hashes t) n = Some stored \<and> stored \<noteq> hash
         \<and> ((n, hash) \<in> set (r_block_hashes resp)
            \<or> (\<exists>g. r_rollback_guard resp = Some g \<and> 0 < rg_first_block_number g
                 \<and> n = rg_first_block_number g - 1 \<and> hash = rg_first_parent_hash g))}"

definition is_least :: "u64 option \<Rightarrow> u64 set \<Rightarrow> bool" where
  "is_least m A = (case m of None \<Rightarrow> A = {} | Some x \<Rightarrow> x \<in> A \<and> (\<forall>y \<in> A. x \<le> y))"

lemma is_least_note: "is_least w A \<Longrightarrow> is_least (note_block n w) (insert n A)"
  by (auto simp: is_least_def note_block_def min_def split: option.splits)

lemma is_least_fold_check:
  "is_least w A \<Longrightarrow>
   is_least (fold (check_hash t) hs w)
     (A \<union> {n. \<exists>stored hash. map_of (t_hashes t) n = Some stored \<and> stored \<noteq> hash \<and> (n, hash) \<in> set hs})"
proof (induction hs arbitrary: w A)
  case (Cons nh hs)
  obtain n h where nh: "nh = (n, h)" by (cases nh)
  let ?A = "if map_of (t_hashes t) n \<notin> {None, Some h} then insert n A else A"
  have step: "is_least (check_hash t nh w) ?A"
    using Cons.prems by (auto simp: nh check_hash_def is_least_note split: option.splits)
  have eq: "A \<union> {n. \<exists>stored hash. map_of (t_hashes t) n = Some stored \<and> stored \<noteq> hash
                 \<and> (n, hash) \<in> set (nh # hs)}
    = ?A \<union> {n. \<exists>stored hash. map_of (t_hashes t) n = Some stored \<and> stored \<noteq> hash
                 \<and> (n, hash) \<in> set hs}"
    by (auto simp: nh)
  show ?case using Cons.IH [OF step] by (simp only: eq fold_Cons o_apply)
qed simp

lemma conflict_is_least: "is_least (conflict t resp) (mismatches t resp)"
proof -
  define w0 where "w0 = (case r_rollback_guard resp of
                  None \<Rightarrow> None
                | Some g \<Rightarrow>
                    if 0 < rg_first_block_number g then
                      (let parent = rg_first_block_number g - 1
                       in case map_of (t_hashes t) parent of
                            Some stored \<Rightarrow>
                              if stored \<noteq> rg_first_parent_hash g then note_block parent None else None
                          | None \<Rightarrow> None)
                    else None)"
  define A where "A = {n. \<exists>stored g. map_of (t_hashes t) n = Some stored
      \<and> stored \<noteq> rg_first_parent_hash g \<and> r_rollback_guard resp = Some g
      \<and> 0 < rg_first_block_number g \<and> n = rg_first_block_number g - 1}"
  have "is_least w0 A"
    by (auto simp: w0_def A_def is_least_def note_block_def Let_def split: option.splits)
  moreover have "mismatches t resp = A \<union> {n. \<exists>stored hash. map_of (t_hashes t) n = Some stored
      \<and> stored \<noteq> hash \<and> (n, hash) \<in> set (r_block_hashes resp)}"
    by (auto simp: mismatches_def A_def)
  ultimately show ?thesis
    using is_least_fold_check [of w0 A t "r_block_hashes resp"]
    by (simp add: conflict_def w0_def Let_def)
qed

lemma is_least_Min: "is_least m A \<longleftrightarrow> m = (if A = {} then None else Some (Min A))"
proof -
  have "finite A" by simp
  then show ?thesis
    by (cases m) (auto simp: is_least_def Min_eq_iff intro: Min_eqI [symmetric] Min_in)
qed

section \<open>The newest entries of a window\<close>

definition newer :: "u64 \<Rightarrow> (u64 \<rightharpoonup> string) \<Rightarrow> u64 set" where
  "newer n m = {k \<in> dom m. n < k}"

definition newest :: "nat \<Rightarrow> (u64 \<rightharpoonup> string) \<Rightarrow> (u64 \<rightharpoonup> string)" where
  "newest w m = (\<lambda>n. if card (newer n m) < w then m n else None)"

lemma newer_Cons:
  "btm_ok ((k, v) # xs) \<Longrightarrow> k < n \<Longrightarrow> newer n (map_of ((k, v) # xs)) = newer n (map_of xs)"
  by (auto simp: newer_def)

lemma newer_all:
  assumes "btm_ok ((k, v) # xs)"
  shows "card (newer k (map_of ((k, v) # xs))) = length xs"
proof -
  have "newer k (map_of ((k, v) # xs)) = fst ` set xs"
    using assms by (auto simp: newer_def dom_map_of_conv_image_fst btm_ok_Cons)
  moreover have "card (fst ` set xs) = length (map fst xs)"
    using assms distinct_card [of "map fst xs"] by (simp add: btm_ok_Cons btm_ok_distinct)
  ultimately show ?thesis by simp
qed

lemma card_newer_less:
  assumes "btm_ok xs" "n \<in> dom (map_of xs)"
  shows "card (newer n (map_of xs)) < length xs"
proof -
  have "newer n (map_of xs) \<subset> dom (map_of xs)" using assms by (auto simp: newer_def)
  then have "card (newer n (map_of xs)) < card (dom (map_of xs))"
    by (intro psubset_card_mono) (simp_all add: finite_dom_map_of)
  also have "\<dots> \<le> length xs"
    by (simp add: dom_map_of_conv_image_fst) (metis card_length length_map set_map)
  finally show ?thesis .
qed

lemma map_of_drop_newest:
  "btm_ok xs \<Longrightarrow> map_of (drop (length xs - w) xs) = newest w (map_of xs)"
proof (induction xs)
  case Nil
  then show ?case by (simp add: newest_def fun_eq_iff)
next
  case (Cons x xs)
  obtain k v where x: "x = (k, v)" by (cases x)
  have ok: "btm_ok xs" using Cons.prems by (simp add: x btm_ok_Cons)
  show ?case
  proof (cases "length (x # xs) \<le> w")
    case True
    have "card (newer n (map_of (x # xs))) < w" if "n \<in> dom (map_of (x # xs))" for n
      using card_newer_less [OF Cons.prems that] True by linarith
    moreover have "n \<in> dom (map_of (x # xs)) \<or> map_of (x # xs) n = None" for n
      by (auto simp: domIff)
    ultimately have "newest w (map_of (x # xs)) n = map_of (x # xs) n" for n
      unfolding newest_def by metis
    then have "newest w (map_of (x # xs)) = map_of (x # xs)" by (rule ext)
    moreover have "drop (length (x # xs) - w) (x # xs) = x # xs" using True by simp
    ultimately show ?thesis by (simp only:)
  next
    case False
    then have d: "drop (Suc (length xs) - w) (x # xs) = drop (length xs - w) xs"
      by (simp add: Suc_diff_le not_le)
    show ?thesis
    proof
      fix n
      consider "n < k" | "n = k" | "k < n" by (meson linorder_less_linear)
      then show "map_of (drop (length (x # xs) - w) (x # xs)) n = newest w (map_of (x # xs)) n"
      proof cases
        case 1
        then have "map_of (x # xs) n = None" "map_of xs n = None"
          using Cons.prems by (auto simp: x btm_ok_Cons map_of_eq_None_iff)
        then show ?thesis by (simp add: d Cons.IH ok newest_def)
      next
        case 2
        have "map_of xs k = None" using Cons.prems by (auto simp: x btm_ok_Cons map_of_eq_None_iff)
        then show ?thesis using 2 False newer_all [of k v xs] Cons.prems
          by (simp add: d [unfolded x] Cons.IH ok newest_def x)
      next
        case 3
        then show ?thesis using Cons.prems newer_Cons [of k v xs n]
          by (auto simp: d [unfolded x] Cons.IH ok newest_def x)
      qed
    qed
  qed
qed

text \<open>What a response says about the chain below the emitted bound.\<close>

definition seen_hashes :: "query_response \<Rightarrow> u64 \<Rightarrow> (u64 \<rightharpoonup> string)" where
  "seen_hashes resp e =
     map_of (rev (filter (\<lambda>(n, h). n < e) (r_block_hashes resp)))
     ++ (case r_rollback_guard resp of
           None \<Rightarrow> Map.empty
         | Some g \<Rightarrow>
             (if rg_block_number g < e then [rg_block_number g \<mapsto> rg_hash g] else Map.empty)
             ++ (if 0 < rg_first_block_number g
                 then [rg_first_block_number g - 1 \<mapsto> rg_first_parent_hash g] else Map.empty))"

lemma map_of_record_hashes:
  "btm_ok (t_hashes t) \<Longrightarrow> map_of (t_hashes (record_hashes e hs t)) =
     map_of (t_hashes t) ++ map_of (rev (filter (\<lambda>(n, h). n < e) hs))"
proof (induction hs arbitrary: t)
  case (Cons nh hs)
  then show ?case
    by (cases nh) (auto simp: record_hashes_def map_add_assoc fun_eq_iff map_add_def
        split: option.splits)
qed (simp add: record_hashes_def)

lemma tracker_record_view:
  assumes "tracker_ok t"
  shows "map_of (t_hashes (tracker_record resp e t)) =
    newest (unat (t_window t)) (map_of (t_hashes t) ++ seen_hashes resp e)"
proof -
  define t2 where "t2 = (case r_rollback_guard resp of
      None \<Rightarrow> record_hashes e (r_block_hashes resp) t
    | Some g \<Rightarrow> record_guard e g (record_hashes e (r_block_hashes resp) t))"
  have ok: "btm_ok (t_hashes t2)" "t_window t2 = t_window t"
    using assms by (simp_all add: t2_def split: option.splits)
  have "map_of (t_hashes t2) = map_of (t_hashes t) ++ seen_hashes resp e"
    using assms by (auto simp: t2_def seen_hashes_def record_guard_def Let_def map_of_record_hashes
        fun_eq_iff map_add_def split: option.splits)
  then show ?thesis
    using ok by (simp add: tracker_record_def t2_def trim_def pop_to_drop map_of_drop_newest Let_def)
qed

section \<open>The last matching block\<close>

definition matching :: "tracker \<Rightarrow> (u64 \<rightharpoonup> string) \<Rightarrow> u64 set" where
  "matching t canonical = {n. map_of (t_hashes t) n \<noteq> None \<and> canonical n = map_of (t_hashes t) n}"

definition is_greatest :: "u64 option \<Rightarrow> u64 set \<Rightarrow> bool" where
  "is_greatest m A = (case m of None \<Rightarrow> A = {} | Some x \<Rightarrow> x \<in> A \<and> (\<forall>y \<in> A. y \<le> x))"

lemma is_greatest_Max: "is_greatest m A \<longleftrightarrow> m = (if A = {} then None else Some (Max A))"
proof -
  have "finite A" by simp
  then show ?thesis
    by (cases m) (auto simp: is_greatest_def Max_eq_iff intro: Max_eqI [symmetric] Max_in)
qed

lemma find_snoc: "find P (xs @ [x]) = (case find P xs of None \<Rightarrow> if P x then Some x else None | r \<Rightarrow> r)"
  by (induction xs) auto

lemma find_rev_greatest:
  "btm_ok xs \<Longrightarrow>
   is_greatest (map_option fst (find P (rev xs))) {n. \<exists>h. map_of xs n = Some h \<and> P (n, h)}"
proof (induction xs)
  case (Cons x xs)
  obtain k v where x: "x = (k, v)" by (cases x)
  have "map_of xs k = None" using Cons.prems by (auto simp: x btm_ok_Cons map_of_eq_None_iff)
  then have eq: "{n. \<exists>h. map_of (x # xs) n = Some h \<and> P (n, h)}
      = (if P (k, v) then insert k else id) {n. \<exists>h. map_of xs n = Some h \<and> P (n, h)}"
    by (auto simp: x)
  have above: "\<forall>n. map_of xs n \<noteq> None \<longrightarrow> k \<le> n"
    using Cons.prems by (auto simp: x btm_ok_Cons dest!: map_of_SomeD)
  have "is_greatest (map_option fst (find P (rev xs))) {n. \<exists>h. map_of xs n = Some h \<and> P (n, h)}"
    using Cons by (simp add: x btm_ok_Cons)
  then show ?case
    unfolding eq using above
    by (auto simp: x is_greatest_def find_snoc split: option.splits)
qed (simp add: is_greatest_def)

lemma last_matching_greatest:
  "tracker_ok t \<Longrightarrow> is_greatest (last_matching t canonical) (matching t canonical)"
proof -
  assume "tracker_ok t"
  then have "is_greatest (last_matching t canonical)
      {n. \<exists>h. map_of (t_hashes t) n = Some h \<and> canonical n = Some h}"
    using find_rev_greatest [of "t_hashes t" "\<lambda>(n, h). canonical n = Some h"]
    by (simp add: last_matching_def)
  moreover have "{n. \<exists>h. map_of (t_hashes t) n = Some h \<and> canonical n = Some h}
      = matching t canonical"
    by (auto simp: matching_def)
  ultimately show ?thesis by simp
qed

lemma min_block_least: "tracker_ok t \<Longrightarrow> is_least (min_block t) (dom (map_of (t_hashes t)))"
proof (cases "t_hashes t")
  case (Cons x xs)
  obtain k v where x: "x = (k, v)" by (cases x)
  assume "tracker_ok t"
  then have "btm_ok ((k, v) # xs)" using tracker_ok_btm [of t] by (simp add: Cons x)
  then have "\<forall>n. map_of ((k, v) # xs) n \<noteq> None \<longrightarrow> k \<le> n" by (blast intro: btm_ok_hd_least)
  then show ?thesis by (auto simp: is_least_def min_block_def Cons x)
qed (simp add: is_least_def min_block_def)

lemma purge_after_view:
  "tracker_ok t \<Longrightarrow>
   map_of (t_hashes (purge_after f t)) = (\<lambda>n. if n \<le> f then map_of (t_hashes t) n else None)"
proof -
  have "map_of (filter (\<lambda>(num, _). num \<le> f) xs) n = (if n \<le> f then map_of xs n else None)"
    for xs :: "(u64 \<times> string) list" and n
    by (induction xs) auto
  then show ?thesis by (simp add: purge_after_def fun_eq_iff)
qed

section \<open>Persistence through any key-value store\<close>

lemma pairs_value_roundtrip [simp]: "pairs_from_value (pairs_to_value ps) = Inr ps"
  by (induction ps) (auto simp: pairs_from_value_def pairs_to_value_def)

lemma kv_module_inject [simp]: "kv_module a = kv_module b \<longleftrightarrow> a = b"
  by (simp add: kv_module_def)

context kv_store
begin

lemma tracker_load_view:
  assumes "kv_inv s" "kv_view s (kv_module src, KV_KEY) = Some (to_vec (pairs_to_value (t_hashes t)))"
    and "\<And>v. from_slice (to_vec v) = Inr v" "tracker_ok t" "t_window t = max w 1"
  shows "fst (tracker_load kv_get from_slice w src (Some s)) = t"
proof -
  have "fst (kv_get s (kv_module src) KV_KEY) = Some (to_vec (pairs_to_value (t_hashes t)))"
    using get_value [OF assms(1)] assms(2) by simp
  moreover have "tracker_new w\<lparr>t_hashes := t_hashes t\<rparr> = t"
    using assms(5) by (simp add: tracker_new_def)
  ultimately show ?thesis
    using assms by (auto simp: tracker_load_def Let_def trim_id split: prod.splits)
qed

lemma tracker_save_view:
  assumes "kv_inv s"
  shows "\<exists>s'. tracker_save kv_set to_vec t src (Some s) = Some s' \<and> kv_inv s'
    \<and> kv_view s' = (kv_view s)((kv_module src, KV_KEY) \<mapsto> to_vec (pairs_to_value (t_hashes t)))"
  using assms by (simp add: tracker_save_def set_inv set_view)

lemma tracker_roundtrip:
  assumes "kv_inv s" "\<And>v. from_slice (to_vec v) = Inr v" "tracker_ok t"
    and "t_window t = max w 1"
  shows "fst (tracker_load kv_get from_slice w src (tracker_save kv_set to_vec t src (Some s))) = t"
  using tracker_save_view [OF assms(1), of to_vec t src] tracker_load_view [OF _ _ assms(2-4)]
  by auto

lemma tracker_isolated:
  assumes "kv_inv s" "src \<noteq> src'"
  shows "fst (tracker_load kv_get from_slice w src' (tracker_save kv_set to_vec t src (Some s)))
    = fst (tracker_load kv_get from_slice w src' (Some s))"
  using namespaced [OF assms(1), of "kv_module src" "kv_module src'" KV_KEY
      "to_vec (pairs_to_value (t_hashes t))" KV_KEY] assms
  by (auto simp: tracker_load_def tracker_save_def Let_def split: prod.splits option.splits sum.splits)

end

section \<open>Properties\<close>

text \<open>
  C30: a conflict is reported exactly when a tracked block carries another hash in the
  response (its own blocks or the guard's parent), and the block reported is the lowest
  such block.
\<close>

theorem conflict_exact:
  "conflict t resp = (if mismatches t resp = {} then None else Some (Min (mismatches t resp)))"
  using conflict_is_least by (simp add: is_least_Min)

text \<open>
  After a response is recorded, the window holds exactly the newest \<open>window\<close> blocks of
  what was tracked overlaid with the response's hashes for emitted blocks and the guard's
  hashes, in block order.
\<close>

theorem record_keeps_newest:
  assumes "tracker_ok t"
  shows "tracker_ok (tracker_record resp e t)
    \<and> map_of (t_hashes (tracker_record resp e t)) =
        newest (unat (t_window t)) (map_of (t_hashes t) ++ seen_hashes resp e)"
  using assms by (simp add: tracker_ok_record tracker_record_view)

definition sample_resp :: query_response where
  "sample_resp = \<lparr> r_archive_height = None, r_next_block = 103, r_records = [],
     r_block_hashes = [(100, ''a''), (101, ''b''), (102, ''c'')], r_rollback_guard = None \<rparr>"

lemma tracker_ok_sample: "tracker_ok \<lparr> t_window = 2, t_hashes = [(99, ''z'')] \<rparr>"
  by (simp add: tracker_ok_def btm_ok_def)

theorem record_keeps_newest_witness:
  "map_of (t_hashes (tracker_record sample_resp 102 \<lparr> t_window = 2, t_hashes = [(99, ''z'')] \<rparr>)) =
     newest 2 ([99 \<mapsto> ''z''] ++ seen_hashes sample_resp 102)"
  using record_keeps_newest [OF tracker_ok_sample, of sample_resp 102] by simp

end
