(* ===== verification/Source.thy ===== *)
theory Source
  imports Reorg
begin

text \<open>
  The source layer: \<open>crates/source-hypersync/src/lib.rs\<close>.  One iteration of the cursor
  loop is \<open>source_iter\<close>; \<open>source_run\<close> is the whole of \<open>run\<close> for a given number of
  iterations.  The outside world (the HTTP server, the stop flag) is a state that every
  request changes; the output channel records what the receiver accepted and may be
  dropped by the receiver after any number of messages.
\<close>

section \<open>The configured source\<close>

record hs_source =
  s_name :: string
  s_chain_id :: u64
  s_client :: client
  s_mode :: source_mode
  s_from_block :: u64
  s_to_block :: "u64 option"
  s_confirmations :: u64
  s_reorg_enabled :: bool
  s_reorg_window :: u64
  s_max_records :: nat

text \<open>\<open>endpoint()\<close> panics on an unvalidated source (no value); \<open>token\<close> is the environment's.\<close>

definition from_config :: "string option \<Rightarrow> source_cfg \<Rightarrow> nat \<Rightarrow> hs_source option" where
  "from_config token src default_max =
     map_option (\<lambda>ep.
       \<lparr> s_name = src_name src, s_chain_id = ep_chain_id ep,
         s_client = client_new (ep_url ep) token (src_query src) (reorg_enabled (src_reorg src)),
         s_mode = src_mode src, s_from_block = unwrap_or 0 (src_from_block src),
         s_to_block = src_to_block src, s_confirmations = src_confirmations src,
         s_reorg_enabled = reorg_enabled (src_reorg src),
         s_reorg_window = max (reorg_window (src_reorg src)) 1,
         s_max_records = max (unwrap_or default_max (max_records (src_batch src))) 1 \<rparr>)
       (endpoint src)"

definition default_start :: "hs_source \<Rightarrow> u64" where
  "default_start s = s_from_block s"

section \<open>Planning one step\<close>

datatype step = Wait | Emit u64 | StepEof

definition confirmed_bound :: "u64 \<Rightarrow> u64 option \<Rightarrow> u64 option" where
  "confirmed_bound confirmations archive =
     map_option (\<lambda>h. if confirmations \<le> h then h - confirmations + 1 else 0) archive"

definition min_opt :: "u64 option \<Rightarrow> u64 \<Rightarrow> u64" where
  "min_opt m n = (case m of None \<Rightarrow> n | Some b \<Rightarrow> min n b)"

definition reached :: "u64 option \<Rightarrow> u64 \<Rightarrow> bool" where
  "reached to_block cursor = (case to_block of None \<Rightarrow> False | Some end1 \<Rightarrow> end1 \<le> cursor)"

definition plan_step ::
  "source_mode \<Rightarrow> u64 \<Rightarrow> u64 option \<Rightarrow> u64 \<Rightarrow> u64 \<Rightarrow> u64 option \<Rightarrow> step" where
  "plan_step mode cursor to_block confirmations resp_next_block archive =
     (let effective_next =
            min_opt to_block (min_opt (confirmed_bound confirmations archive) resp_next_block)
      in if cursor < effective_next then Emit effective_next
         else if mode = Backfill \<and> reached to_block cursor then StepEof
         else Wait)"

definition block_number_of :: "json \<Rightarrow> u64 option" where
  "block_number_of rec = Option.bind (jget ''block_number'' rec) flexible_u64"

section \<open>The output channel\<close>

text \<open>
  \<open>tx.send\<close>: the batch is delivered, or the receiver is gone.  \<open>ch_closes = Some n\<close> says
  that the receiver goes away after \<open>n\<close> messages.
\<close>

record channel =
  ch_sent :: "batch list"
  ch_closes :: "nat option"

definition send :: "batch \<Rightarrow> channel \<Rightarrow> channel option" where
  "send b c =
     (if (case ch_closes c of None \<Rightarrow> True | Some n \<Rightarrow> length (ch_sent c) < n)
      then Some (c \<lparr> ch_sent := ch_sent c @ [b] \<rparr>) else None)"

text \<open>Send in order; \<open>False\<close> when the receiver went away in between.\<close>

fun send_all :: "batch list \<Rightarrow> channel \<Rightarrow> bool \<times> channel" where
  "send_all [] c = (True, c)"
| "send_all (b # bs) c = (case send b c of None \<Rightarrow> (False, c) | Some c' \<Rightarrow> send_all bs c')"

section \<open>Emission\<close>

definition confirmed_records :: "query_response \<Rightarrow> u64 \<Rightarrow> json list" where
  "confirmed_records resp effective_next =
     (if effective_next < r_next_block resp then
        filter (\<lambda>r. case block_number_of r of None \<Rightarrow> True | Some b \<Rightarrow> b < effective_next)
          (r_records resp)
      else r_records resp)"

text \<open>The loop over the chunks: \<open>seq\<close> is the chunk number, \<open>n\<close> their count.\<close>

definition chunk_batch :: "hs_source \<Rightarrow> u64 \<Rightarrow> u64 \<Rightarrow> nat \<Rightarrow> nat \<Rightarrow> json list \<Rightarrow> batch" where
  "chunk_batch s cursor effective_next n seq chunk =
     (let b = batch_new (s_name s) (s_chain_id s) (BlockRange cursor effective_next)
                (of_nat seq) Log chunk
      in if seq + 1 < n then b \<lparr> b_ack_block := Some cursor \<rparr> else b)"

definition emit_batches :: "hs_source \<Rightarrow> u64 \<Rightarrow> u64 \<Rightarrow> json list \<Rightarrow> batch list" where
  "emit_batches s cursor effective_next records =
     (let cs = chunks (s_max_records s) records; n = length cs
      in map (\<lambda>(seq, chunk). chunk_batch s cursor effective_next n seq chunk) (enumerate 0 cs))"

section \<open>The cursor loop\<close>

record ('s, 'w) loop_state =
  l_cursor :: u64
  l_backoff :: nat
  l_tracker :: "tracker option"
  l_kv :: "'s option"
  l_chan :: channel
  l_world :: 'w

text \<open>What the source uses of the outside: HTTP, the stop flag, the store, the text layer.\<close>

record ('s, 'w, 'b) src_env =
  e_http :: "'w http"
  e_stop :: "'w \<Rightarrow> bool"
  e_kv_get :: "'s \<Rightarrow> string \<Rightarrow> string \<Rightarrow> 'b option \<times> 's"
  e_kv_set :: "'s \<Rightarrow> string \<Rightarrow> string \<Rightarrow> 'b \<Rightarrow> 's"
  e_from_slice :: "'b \<Rightarrow> json res"
  e_to_vec :: "json \<Rightarrow> 'b"

definition locate_fork :: "'w http \<Rightarrow> hs_source \<Rightarrow> tracker \<Rightarrow> u64 \<Rightarrow> 'w \<Rightarrow> u64 \<times> 'w" where
  "locate_fork http s t cursor w =
     (case min_block t of
        None \<Rightarrow> (sat_sub cursor (s_reorg_window s + 1), w)
      | Some m \<Rightarrow>
          (case block_hashes http (s_client s) m cursor w of
             (Inr canonical, w') \<Rightarrow>
               (unwrap_or (sat_sub m 1) (last_matching t (map_of (rev canonical))), w')
           | (Inl e, w') \<Rightarrow> (sat_sub m 1, w')))"

definition rollback_batch :: "hs_source \<Rightarrow> u64 \<Rightarrow> batch" where
  "rollback_batch s fork = batch_control (s_name s) (s_chain_id s) (Rollback (s_chain_id s) fork)"

definition eof_batch :: "hs_source \<Rightarrow> u64 \<Rightarrow> batch" where
  "eof_batch s at = batch_control (s_name s) (s_chain_id s) (Eof (s_name s) at)"

text \<open>\<open>let _ = tx.send(eof)\<close>: a dropped receiver is ignored.\<close>

definition emit_eof :: "hs_source \<Rightarrow> u64 \<Rightarrow> channel \<Rightarrow> channel" where
  "emit_eof s at c = snd (send_all [eof_batch s at] c)"

datatype 'a flow = Continue 'a | Return 'a

definition rollback_step ::
  "('s, 'w, 'b) src_env \<Rightarrow> hs_source \<Rightarrow> tracker \<Rightarrow> ('s, 'w) loop_state \<Rightarrow> ('s, 'w) loop_state flow" where
  "rollback_step env s t st =
     (case locate_fork (e_http env) s t (l_cursor st) (l_world st) of (fork, w) \<Rightarrow>
        let t' = purge_after fork t;
            st1 = st \<lparr> l_world := w, l_tracker := Some t',
                       l_kv := tracker_save (e_kv_set env) (e_to_vec env) t' (s_name s) (l_kv st) \<rparr>
        in case send_all [rollback_batch s fork] (l_chan st1) of
             (False, c) \<Rightarrow> Return (st1 \<lparr> l_chan := c \<rparr>)
           | (True, c) \<Rightarrow>
               Continue (st1 \<lparr> l_chan := c, l_cursor := max (sat_add fork 1) (s_from_block s) \<rparr>))"

definition remember ::
  "('s, 'w, 'b) src_env \<Rightarrow> hs_source \<Rightarrow> query_response \<Rightarrow> u64 \<Rightarrow> ('s, 'w) loop_state \<Rightarrow> ('s, 'w) loop_state" where
  "remember env s resp effective_next st =
     (case l_tracker st of
        None \<Rightarrow> st
      | Some t \<Rightarrow>
          let t' = tracker_record resp effective_next t
          in st \<lparr> l_tracker := Some t',
                  l_kv := tracker_save (e_kv_set env) (e_to_vec env) t' (s_name s) (l_kv st) \<rparr>)"

definition emit_step ::
  "('s, 'w, 'b) src_env \<Rightarrow> hs_source \<Rightarrow> query_response \<Rightarrow> u64 \<Rightarrow> ('s, 'w) loop_state \<Rightarrow> ('s, 'w) loop_state flow" where
  "emit_step env s resp effective_next st =
     (let records = confirmed_records resp effective_next
      in case send_all (emit_batches s (l_cursor st) effective_next records) (l_chan st) of
           (False, c) \<Rightarrow> Return (st \<lparr> l_chan := c \<rparr>)
         | (True, c) \<Rightarrow>
             let st1 = remember env s resp effective_next
                         (st \<lparr> l_chan := c, l_cursor := effective_next \<rparr>)
             in if s_mode s = Backfill \<and> reached (s_to_block s) effective_next
                then Return (st1 \<lparr> l_chan := emit_eof s effective_next (l_chan st1) \<rparr>)
                else Continue st1)"

definition has_conflict :: "tracker option \<Rightarrow> query_response \<Rightarrow> bool" where
  "has_conflict t resp = (case t of None \<Rightarrow> False | Some t \<Rightarrow> conflict t resp \<noteq> None)"

definition response_step ::
  "('s, 'w, 'b) src_env \<Rightarrow> hs_source \<Rightarrow> query_response \<Rightarrow> ('s, 'w) loop_state \<Rightarrow> ('s, 'w) loop_state flow" where
  "response_step env s resp st =
     (if has_conflict (l_tracker st) resp then rollback_step env s (the (l_tracker st)) st
      else case plan_step (s_mode s) (l_cursor st) (s_to_block s) (s_confirmations s)
                  (r_next_block resp) (r_archive_height resp) of
             Wait \<Rightarrow> Continue st
           | StepEof \<Rightarrow> Return (st \<lparr> l_chan := emit_eof s (l_cursor st) (l_chan st) \<rparr>)
           | Emit effective_next \<Rightarrow> emit_step env s resp effective_next st)"

definition source_iter ::
  "('s, 'w, 'b) src_env \<Rightarrow> hs_source \<Rightarrow> ('s, 'w) loop_state \<Rightarrow> ('s, 'w) loop_state flow" where
  "source_iter env s st =
     (if e_stop env (l_world st) then Return st
      else case client_query (e_http env) (s_client s) (l_cursor st) (s_to_block s) (l_world st) of
             (Inl e, w) \<Rightarrow>
               Continue (st \<lparr> l_world := w, l_backoff := min (l_backoff st * 2) 30000 \<rparr>)
           | (Inr resp, w) \<Rightarrow> response_step env s resp (st \<lparr> l_world := w, l_backoff := 250 \<rparr>))"

text \<open>The loop, for at most \<open>n\<close> iterations; \<open>Continue\<close> says that it is still running.\<close>

fun source_loop ::
  "nat \<Rightarrow> ('s, 'w, 'b) src_env \<Rightarrow> hs_source \<Rightarrow> ('s, 'w) loop_state \<Rightarrow> ('s, 'w) loop_state flow" where
  "source_loop 0 env s st = Continue st"
| "source_loop (Suc n) env s st =
     (case source_iter env s st of
        Return st' \<Rightarrow> Return st'
      | Continue st' \<Rightarrow> source_loop n env s st')"

definition source_start ::
  "('s, 'w, 'b) src_env \<Rightarrow> hs_source \<Rightarrow> u64 \<Rightarrow> channel \<Rightarrow> 's option \<Rightarrow> 'w \<Rightarrow> ('s, 'w) loop_state" where
  "source_start env s start_cursor tx kv w =
     (let cursor = max start_cursor (s_from_block s);
          (tr, kv') = (if s_reorg_enabled s then
                         (case tracker_load (e_kv_get env) (e_from_slice env) (s_reorg_window s)
                                 (s_name s) kv of (t, kv') \<Rightarrow> (Some t, kv'))
                       else (None, kv));
          (cursor', w') = (if cursor = 0 \<and> s_mode s = Live then
                             (case archive_height (e_http env) (s_client s) w of
                                (Inr h, w') \<Rightarrow> (sat_sub h (s_confirmations s), w')
                              | (Inl e, w') \<Rightarrow> (cursor, w'))
                           else (cursor, w))
      in \<lparr> l_cursor = cursor', l_backoff = 250, l_tracker = tr, l_kv = kv', l_chan = tx,
           l_world = w' \<rparr>)"

definition source_run ::
  "nat \<Rightarrow> ('s, 'w, 'b) src_env \<Rightarrow> hs_source \<Rightarrow> u64 \<Rightarrow> channel \<Rightarrow> 's option \<Rightarrow> 'w
   \<Rightarrow> ('s, 'w) loop_state flow" where
  "source_run n env s start_cursor tx kv w =
     source_loop n env s (source_start env s start_cursor tx kv w)"

end
