(* ===== verification/SourceFacts.thy ===== *)
theory SourceFacts
  imports Source
begin

text \<open>
  What the source loop guarantees: the planning bounds, the chunking of a range, and the
  invariant that the rows a downstream table would hold are exactly the chain's logs below
  the cursor.
\<close>

section \<open>Planning\<close>

lemma unat_confirmed:
  assumes "conf \<le> (h :: u64)" "h \<noteq> u64_max \<or> conf \<noteq> 0"
  shows "unat (h - conf + 1) = unat h - unat conf + 1"
proof -
  have "unat (h - conf) = unat h - unat conf"
    using assms(1) by (simp add: unat_sub_if' word_le_nat_alt)
  moreover have "unat h - unat conf + 1 < 2 ^ 64"
  proof (cases "conf = 0")
    case True
    then have "unat h < unat u64_max"
      using assms(2) by (metis le_u64_max order_le_imp_less_or_eq word_less_nat_alt)
    then show ?thesis using True by (simp add: unat_u64_max)
  next
    case False
    then have "0 < unat conf" by (simp add: unat_gt_0)
    moreover have "unat h < 2 ^ 64" using unsigned_less [of h] by simp
    moreover have "unat conf \<le> unat h" using assms(1) by (simp add: word_le_nat_alt)
    ultimately show ?thesis by linarith
  qed
  ultimately show ?thesis by (simp add: unat_word_ariths)
qed

definition allowed :: "u64 \<Rightarrow> u64 option \<Rightarrow> u64 \<Rightarrow> u64 \<Rightarrow> u64 option \<Rightarrow> u64 set" where
  "allowed cursor to_block conf nb archive =
     {n. cursor < n \<and> n \<le> nb
         \<and> (case to_block of None \<Rightarrow> True | Some t \<Rightarrow> n \<le> t)
         \<and> (case archive of None \<Rightarrow> True | Some h \<Rightarrow> unat n + unat conf \<le> unat h + 1)}"

definition no_overflow :: "u64 \<Rightarrow> u64 option \<Rightarrow> bool" where
  "no_overflow conf archive = (conf \<noteq> 0 \<or> archive \<noteq> Some u64_max)"

definition step_bound :: "u64 option \<Rightarrow> u64 \<Rightarrow> u64 \<Rightarrow> u64 option \<Rightarrow> u64" where
  "step_bound to_block conf nb archive =
     min_opt to_block (min_opt (confirmed_bound conf archive) nb)"

lemma le_min_opt: "n \<le> min_opt m a \<longleftrightarrow> n \<le> a \<and> (case m of None \<Rightarrow> True | Some b \<Rightarrow> n \<le> b)"
  by (auto simp: min_opt_def split: option.splits)

lemma le_confirmed:
  assumes "no_overflow conf (Some h)" "0 < n"
  shows "n \<le> (if conf \<le> h then h - conf + 1 else 0) \<longleftrightarrow> unat n + unat conf \<le> unat h + 1"
proof -
  have "0 < unat n" using assms(2) by (simp add: word_less_nat_alt)
  then show ?thesis
    using assms unat_confirmed [of conf h]
    by (auto simp: word_le_nat_alt no_overflow_def)
qed

lemma allowed_bound:
  assumes "no_overflow conf archive"
  shows "n \<in> allowed cursor to_block conf nb archive
    \<longleftrightarrow> cursor < n \<and> n \<le> step_bound to_block conf nb archive"
proof -
  have pos: "cursor < n \<Longrightarrow> 0 < n" by (metis word_gt_0 word_not_simps(1))
  have "cursor < n \<Longrightarrow> (case archive of None \<Rightarrow> True | Some h \<Rightarrow> unat n + unat conf \<le> unat h + 1)
      = (case confirmed_bound conf archive of None \<Rightarrow> True | Some b \<Rightarrow> n \<le> b)"
    using le_confirmed [OF _ pos] assms
    by (cases archive) (simp_all add: confirmed_bound_def del: One_nat_def add_Suc_right)
  then show ?thesis
    unfolding allowed_def step_bound_def le_min_opt by auto
qed

lemma plan_step_bound:
  "plan_step mode cursor to_block conf nb archive =
     (if cursor < step_bound to_block conf nb archive
      then Emit (step_bound to_block conf nb archive)
      else if mode = Backfill \<and> reached to_block cursor then StepEof else Wait)"
  by (simp add: plan_step_def step_bound_def Let_def)

lemma plan_step_Emit:
  "plan_step mode cursor to_block conf nb archive = Emit e
   \<Longrightarrow> cursor < e \<and> e \<le> nb \<and> (\<forall>t. to_block = Some t \<longrightarrow> e \<le> t)"
proof -
  assume "plan_step mode cursor to_block conf nb archive = Emit e"
  then have "cursor < e" "e = step_bound to_block conf nb archive"
    by (auto simp: plan_step_bound split: if_splits)
  then show ?thesis using le_min_opt [of e to_block "min_opt (confirmed_bound conf archive) nb"]
      le_min_opt [of e "confirmed_bound conf archive" nb]
    by (auto simp: step_bound_def split: option.splits)
qed

lemma plan_step_allowed:
  assumes "no_overflow conf archive"
  shows "plan_step mode cursor to_block conf nb archive =
     (let A = allowed cursor to_block conf nb archive
      in if A \<noteq> {} then Emit (Max A)
         else if mode = Backfill \<and> reached to_block cursor then StepEof else Wait)"
proof -
  let ?A = "allowed cursor to_block conf nb archive"
  let ?b = "step_bound to_block conf nb archive"
  show ?thesis
  proof (cases "cursor < ?b")
    case True
    then have "?b \<in> ?A" using assms by (simp add: allowed_bound)
    moreover have "Max ?A = ?b"
      using True assms by (intro Max_eqI) (auto simp: allowed_bound)
    ultimately show ?thesis using True by (auto simp: plan_step_bound Let_def)
  next
    case False
    then have "?A = {}" using assms by (auto simp: allowed_bound)
    then show ?thesis using False by (simp add: plan_step_bound Let_def)
  qed
qed

section \<open>Chunks\<close>

lemma chunks_sizes: "c \<in> set (chunks n xs) \<Longrightarrow> 0 < length c \<and> length c \<le> n"
proof (induction n xs rule: chunks.induct)
  case (1 n xs)
  then show ?case by (subst (asm) (2) chunks.simps) (auto split: if_splits)
qed

lemma chunks_length_le: "length (chunks n xs) \<le> length xs"
proof (induction n xs rule: chunks.induct)
  case (1 n xs)
  show ?case
  proof (cases "n = 0 \<or> xs = []")
    case False
    have "length (chunks n (drop n xs)) \<le> length xs - n" using 1 False by simp
    moreover have "0 < n" "0 < length xs" using False by auto
    ultimately have "Suc (length (chunks n (drop n xs))) \<le> length xs" by linarith
    then show ?thesis using False by (subst chunks.simps) simp
  qed (subst chunks.simps, auto)
qed

lemma chunks_Nil [simp]: "chunks n [] = []"
  by (subst chunks.simps) simp

lemma chunk_batch_fields [simp, env_simps]:
  "b_records (chunk_batch s c e n i ch) = ch" "b_kind (chunk_batch s c e n i ch) = Log"
  "b_source (chunk_batch s c e n i ch) = s_name s"
  "b_chain_id (chunk_batch s c e n i ch) = s_chain_id s"
  "b_block_range (chunk_batch s c e n i ch) = BlockRange c e"
  "b_batch_id (chunk_batch s c e n i ch) = make_batch_id (s_name s) (BlockRange c e) (of_nat i)"
  "ack_block (chunk_batch s c e n i ch) = (if i + 1 < n then c else e)"
  by (simp_all add: chunk_batch_def batch_new_def Let_def ack_block_def)

lemma emit_batches_records:
  "map b_records (emit_batches s c e recs) = chunks (s_max_records s) recs"
  by (simp add: emit_batches_def Let_def o_def case_prod_beta enumerate_eq_zip)

lemma length_emit_batches: "length (emit_batches s c e recs) = length (chunks (s_max_records s) recs)"
  by (simp add: emit_batches_def Let_def)

lemma nth_emit_batches:
  "i < length (emit_batches s c e recs) \<Longrightarrow>
   emit_batches s c e recs ! i =
     chunk_batch s c e (length (emit_batches s c e recs)) i (chunks (s_max_records s) recs ! i)"
  by (simp add: emit_batches_def Let_def nth_enumerate_eq)

lemma emit_batches_not_control: "b \<in> set (emit_batches s c e recs) \<Longrightarrow> \<not> is_control b"
  by (auto simp: emit_batches_def Let_def is_control_def)

lemma emit_ids_distinct:
  assumes "length recs < 2 ^ 64"
  shows "distinct (map b_batch_id (emit_batches s c e recs))"
proof -
  let ?bs = "emit_batches s c e recs"
  have n: "length ?bs < 2 ^ 64"
    using assms chunks_length_le [of "s_max_records s" recs] by (simp add: length_emit_batches)
  have "(of_nat i :: u64) = of_nat j \<longleftrightarrow> i = j" if "i < length ?bs" "j < length ?bs" for i j
    using that n by (auto simp: word_of_nat_eq_iff take_bit_nat_eq_self)
  then show ?thesis
    by (auto simp: distinct_conv_nth nth_emit_batches batch_id_inject)
qed

section \<open>The channel\<close>

lemma send_all_open:
  "ch_closes c = None \<Longrightarrow> send_all bs c = (True, c \<lparr> ch_sent := ch_sent c @ bs \<rparr>)"
  by (induction bs arbitrary: c) (simp_all add: send_def)

lemma emit_eof_open:
  "ch_closes c = None \<Longrightarrow> emit_eof s at c = c \<lparr> ch_sent := ch_sent c @ [eof_batch s at] \<rparr>"
  by (simp add: emit_eof_def send_def)

lemma send_all_prefix:
  "send_all bs c = (ok, c') \<Longrightarrow>
   ch_closes c' = ch_closes c
   \<and> (\<exists>k. ch_sent c' = ch_sent c @ take k bs \<and> (ok \<longrightarrow> length bs \<le> k))"
proof (induction bs arbitrary: c)
  case (Cons b bs)
  show ?case
  proof (cases "send b c")
    case None
    then show ?thesis using Cons.prems by (auto intro: exI [of _ 0])
  next
    case (Some c1)
    then obtain k where k: "ch_closes c' = ch_closes c1"
        "ch_sent c' = ch_sent c1 @ take k bs" "ok \<longrightarrow> length bs \<le> k"
      using Cons by auto
    have "ch_sent c1 = ch_sent c @ [b]" "ch_closes c1 = ch_closes c"
      using Some by (auto simp: send_def split: if_splits)
    then show ?thesis using k by (auto intro!: exI [of _ "Suc k"])
  qed
qed simp

section \<open>The rows a downstream table holds\<close>

definition in_range :: "u64 \<Rightarrow> u64 \<Rightarrow> json \<Rightarrow> bool" where
  "in_range a b r = (case block_number_of r of None \<Rightarrow> False | Some n \<Rightarrow> a \<le> n \<and> n < b)"

definition up_to :: "u64 \<Rightarrow> json \<Rightarrow> bool" where
  "up_to f r = (case block_number_of r of None \<Rightarrow> True | Some n \<Rightarrow> n \<le> f)"

definition logs_ok :: "json list \<Rightarrow> bool" where
  "logs_ok logs = (list_all (\<lambda>r. block_number_of r \<noteq> None) logs
     \<and> sorted_wrt (\<lambda>x y. the (block_number_of x) \<le> the (block_number_of y)) logs)"

definition apply_msg :: "batch \<Rightarrow> json list \<Rightarrow> json list" where
  "apply_msg b rows =
     (case as_control b of
        None \<Rightarrow> rows @ b_records b
      | Some (Rollback _ f) \<Rightarrow> filter (up_to f) rows
      | Some (Eof _ _) \<Rightarrow> rows)"

definition table :: "batch list \<Rightarrow> json list" where
  "table msgs = fold apply_msg msgs []"

lemma filter_empty_range: "b \<le> a \<Longrightarrow> filter (in_range a b) logs = []"
  by (auto simp: filter_empty_conv in_range_def split: option.splits)

lemma filter_ranges:
  "logs_ok logs \<Longrightarrow> a \<le> b \<Longrightarrow> b \<le> c \<Longrightarrow>
   filter (in_range a b) logs @ filter (in_range b c) logs = filter (in_range a c) logs"
proof (induction logs)
  case (Cons x logs)
  obtain n where n: "block_number_of x = Some n" using Cons.prems by (auto simp: logs_ok_def)
  have ok: "logs_ok logs" using Cons.prems by (simp add: logs_ok_def)
  have "filter (in_range a b) logs = []" if "b \<le> n"
    using Cons.prems n that by (fastforce simp: logs_ok_def filter_empty_conv in_range_def
        split: option.splits)
  moreover have "in_range p q x \<longleftrightarrow> p \<le> n \<and> n < q" for p q by (simp add: in_range_def n)
  ultimately show ?case using Cons ok by (cases "b \<le> n") auto
qed simp

lemma apply_msg_data: "\<not> is_control b \<Longrightarrow> apply_msg b rows = rows @ b_records b"
  by (simp add: apply_msg_def as_control_def)

lemma fold_apply_data:
  "(\<And>b. b \<in> set bs \<Longrightarrow> \<not> is_control b) \<Longrightarrow> fold apply_msg bs rows = rows @ concat (map b_records bs)"
  by (induction bs arbitrary: rows) (auto simp: apply_msg_data)

lemma table_append_data:
  "(\<And>b. b \<in> set bs \<Longrightarrow> \<not> is_control b) \<Longrightarrow> table (msgs @ bs) = table msgs @ concat (map b_records bs)"
  by (simp add: table_def fold_apply_data)

lemma table_append_emit:
  "0 < s_max_records s \<Longrightarrow> table (msgs @ emit_batches s c e recs) = table msgs @ recs"
  by (subst table_append_data) (auto simp: emit_batches_not_control emit_batches_records)

lemma table_append_eof [simp]: "table (msgs @ [eof_batch s at]) = table msgs"
  by (simp add: table_def apply_msg_def eof_batch_def)

lemma table_append_rollback [simp]:
  "table (msgs @ [rollback_batch s f]) = filter (up_to f) (table msgs)"
  by (simp add: table_def apply_msg_def rollback_batch_def)

section \<open>An honest server\<close>

text \<open>
  The server serves one chain, given by its block hashes and its logs in block order: what
  it returns for a range is the logs of that range, and every hash is the chain's.
\<close>

definition honest :: "(u64 \<Rightarrow> string) \<Rightarrow> json list \<Rightarrow> u64 \<Rightarrow> query_response \<Rightarrow> bool" where
  "honest hash logs lo resp =
     ((lo < r_next_block resp \<longrightarrow> r_records resp = filter (in_range lo (r_next_block resp)) logs)
      \<and> (\<forall>(n, h) \<in> set (r_block_hashes resp). h = hash n)
      \<and> (case r_rollback_guard resp of
           None \<Rightarrow> True
         | Some g \<Rightarrow> rg_first_block_number g = lo \<and> rg_hash g = hash (rg_block_number g)
             \<and> (0 < lo \<longrightarrow> rg_first_parent_hash g = hash (lo - 1))))"

definition honest_server :: "'w http \<Rightarrow> hs_source \<Rightarrow> (u64 \<Rightarrow> string) \<Rightarrow> json list \<Rightarrow> bool" where
  "honest_server http s hash logs =
     (\<forall>w lo. case fst (client_query http (s_client s) lo (s_to_block s) w) of
                Inl e \<Rightarrow> True | Inr resp \<Rightarrow> honest hash logs lo resp)"

definition tracks :: "(u64 \<Rightarrow> string) \<Rightarrow> u64 \<Rightarrow> tracker option \<Rightarrow> bool" where
  "tracks hash c tr =
     (case tr of
        None \<Rightarrow> True
      | Some t \<Rightarrow> tracker_ok t \<and> (\<forall>n h. map_of (t_hashes t) n = Some h \<longrightarrow> h = hash n \<and> n < c))"

definition source_inv ::
  "hs_source \<Rightarrow> (u64 \<Rightarrow> string) \<Rightarrow> json list \<Rightarrow> u64 \<Rightarrow> ('s, 'w) loop_state \<Rightarrow> bool" where
  "source_inv s hash logs c0 st =
     (c0 \<le> l_cursor st \<and> ch_closes (l_chan st) = None
      \<and> table (ch_sent (l_chan st)) = filter (in_range c0 (l_cursor st)) logs
      \<and> tracks hash (l_cursor st) (l_tracker st))"

lemma honest_unconflicted:
  assumes "honest hash logs c resp" "tracks hash b tr"
  shows "\<not> has_conflict tr resp"
proof (cases tr)
  case (Some t)
  have "mismatches t resp = {}"
    using assms by (auto simp: mismatches_def honest_def tracks_def Some split: option.splits)
  then show ?thesis
    using conflict_is_least [of t resp] by (simp add: has_conflict_def Some is_least_Min)
qed (simp add: has_conflict_def)

lemma honest_no_conflict: "honest hash logs c resp \<Longrightarrow> tracks hash c tr \<Longrightarrow> \<not> has_conflict tr resp"
  by (rule honest_unconflicted)

lemma newest_Some: "newest w m n = Some h \<Longrightarrow> m n = Some h"
  by (simp add: newest_def split: if_splits)

lemma seen_hashes_honest:
  assumes "honest hash logs c resp" "seen_hashes resp e n = Some h" "c < e"
  shows "h = hash n \<and> n < e"
proof -
  have "c - 1 < e" if "0 < c"
  proof -
    have "unat (c - 1) = unat c - 1" using that by (simp add: unat_minus_one word_gt_0)
    then show ?thesis using assms(3) by (simp add: word_less_nat_alt)
  qed
  then show ?thesis using assms
    by (auto simp: seen_hashes_def honest_def map_add_def dest!: map_of_SomeD
        split: option.splits if_splits)
qed

lemma tracks_record:
  assumes "honest hash logs c resp" "tracks hash b (Some t)" "c < e"
  shows "tracks hash (max b e) (Some (tracker_record resp e t))"
proof -
  have ok: "tracker_ok t" using assms(2) by (simp add: tracks_def)
  have "h = hash n \<and> n < max b e" if "map_of (t_hashes (tracker_record resp e t)) n = Some h" for n h
  proof -
    have "(map_of (t_hashes t) ++ seen_hashes resp e) n = Some h"
      using that by (auto simp: tracker_record_view [OF ok] dest: newest_Some)
    then show ?thesis
      using seen_hashes_honest [OF assms(1) _ assms(3)] assms(2)
      by (auto simp: map_add_Some_iff tracks_def less_max_iff_disj)
  qed
  then show ?thesis by (simp add: tracks_def tracker_ok_record [OF ok])
qed

lemma confirmed_records_honest:
  assumes "honest hash logs c resp" "c < e" "e \<le> r_next_block resp"
  shows "confirmed_records resp e = filter (in_range c e) logs"
proof -
  have r: "r_records resp = filter (in_range c (r_next_block resp)) logs"
    using assms by (simp add: honest_def)
  show ?thesis
  proof (cases "e < r_next_block resp")
    case True
    have "filter (\<lambda>r. case block_number_of r of None \<Rightarrow> True | Some b \<Rightarrow> b < e)
            (filter (in_range c (r_next_block resp)) logs) = filter (in_range c e) logs"
      using True by (auto simp: in_range_def intro!: filter_cong split: option.splits)
    then show ?thesis using True r by (simp add: confirmed_records_def)
  next
    case False
    then show ?thesis using assms r by (simp add: confirmed_records_def)
  qed
qed

section \<open>The invariant of the loop\<close>

fun flow_state :: "'a flow \<Rightarrow> 'a" where
  "flow_state (Continue x) = x"
| "flow_state (Return x) = x"

lemma source_inv_eof:
  "source_inv s hash logs c0 st
   \<Longrightarrow> source_inv s hash logs c0 (st \<lparr> l_chan := emit_eof s' at (l_chan st) \<rparr>)"
  by (simp add: emit_eof_open source_inv_def)

text \<open>The reply to the next query, if there is one, is honest about this chain.\<close>

definition honest_reply ::
  "('s, 'w, 'b) src_env \<Rightarrow> hs_source \<Rightarrow> (u64 \<Rightarrow> string) \<Rightarrow> json list \<Rightarrow> ('s, 'w) loop_state \<Rightarrow> bool" where
  "honest_reply env s hash logs st =
     (case fst (client_query (e_http env) (s_client s) (l_cursor st) (s_to_block s) (l_world st)) of
        Inl e \<Rightarrow> True | Inr resp \<Rightarrow> honest hash logs (l_cursor st) resp)"

text \<open>
  What an iteration does that sees an honest reply, or none: the messages it appends are
  data of the source's chain or the end marker, and carry the logs from the cursor to
  the next one.
\<close>

definition source_data :: "hs_source \<Rightarrow> batch \<Rightarrow> bool" where
  "source_data s b = (\<not> is_control b \<and> b_chain_id b = s_chain_id s \<or> (\<exists>at. b = eof_batch s at))"

definition emits ::
  "hs_source \<Rightarrow> (u64 \<Rightarrow> string) \<Rightarrow> json list \<Rightarrow> u64 \<Rightarrow> ('s, 'w) loop_state \<Rightarrow> ('s, 'w) loop_state \<Rightarrow> bool" where
  "emits s hash logs b st st' =
     (l_cursor st \<le> l_cursor st' \<and> ch_closes (l_chan st') = None
      \<and> tracks hash (max b (l_cursor st')) (l_tracker st')
      \<and> (\<exists>bs. ch_sent (l_chan st') = ch_sent (l_chan st) @ bs \<and> (\<forall>x \<in> set bs. source_data s x)
            \<and> (\<forall>rows. fold apply_msg bs rows = rows @ filter (in_range (l_cursor st) (l_cursor st')) logs)))"

lemma emit_batches_source_data: "x \<in> set (emit_batches s c e recs) \<Longrightarrow> source_data s x"
  by (auto simp: source_data_def emit_batches_def Let_def is_control_def)

lemma emits_idle:
  assumes "ch_closes (l_chan st) = None" "tracks hash b (l_tracker st)" "l_cursor st \<le> b"
    and "l_cursor st' = l_cursor st" "l_tracker st' = l_tracker st"
    and "l_chan st' = l_chan st \<or> l_chan st' = emit_eof s at (l_chan st)"
  shows "emits s hash logs b st st'"
proof -
  obtain bs where bs: "ch_sent (l_chan st') = ch_sent (l_chan st) @ bs" "bs = [] \<or> bs = [eof_batch s at]"
    using assms(1,6) by (auto simp: emit_eof_open)
  then have "\<forall>x \<in> set bs. source_data s x" "\<And>rows. fold apply_msg bs rows = rows"
    by (auto simp: source_data_def apply_msg_def eof_batch_def)
  then show ?thesis using assms bs(1) by (auto simp: emits_def emit_eof_open max_absorb1 filter_empty_range)
qed

lemma emit_step_emits:
  assumes open_ch: "ch_closes (l_chan st) = None" and tr: "tracks hash b (l_tracker st)"
    and hon: "honest hash logs (l_cursor st) resp" and pos: "0 < s_max_records s"
    and e: "l_cursor st < e" "e \<le> r_next_block resp"
  shows "emits s hash logs b st (flow_state (emit_step env s resp e st))"
proof -
  let ?bs = "emit_batches s (l_cursor st) e (confirmed_records resp e)"
  let ?c = "l_chan st \<lparr> ch_sent := ch_sent (l_chan st) @ ?bs \<rparr>"
  let ?st = "remember env s resp e (st \<lparr> l_chan := ?c, l_cursor := e \<rparr>)"
  have fields: "l_chan ?st = ?c" "l_cursor ?st = e"
    "l_tracker ?st = map_option (tracker_record resp e) (l_tracker st)"
    by (simp_all add: remember_def Let_def split: option.splits)
  have tracked: "tracks hash (max b e) (l_tracker ?st)"
    using tr tracks_record [OF hon _ e(1)] unfolding fields
    by (cases "l_tracker st") (simp_all add: tracks_def [of _ _ None])
  have "emit_step env s resp e st =
      (if s_mode s = Backfill \<and> reached (s_to_block s) e
       then Return (?st \<lparr> l_chan := emit_eof s e (l_chan ?st) \<rparr>) else Continue ?st)"
    using open_ch by (simp add: emit_step_def Let_def send_all_open)
  moreover obtain tail where tail: "tail = (if s_mode s = Backfill \<and> reached (s_to_block s) e then [eof_batch s e] else [])"
    by blast
  ultimately have st': "ch_sent (l_chan (flow_state (emit_step env s resp e st))) = ch_sent (l_chan st) @ ?bs @ tail"
    "l_cursor (flow_state (emit_step env s resp e st)) = e" "ch_closes (l_chan (flow_state (emit_step env s resp e st))) = None"
    "l_tracker (flow_state (emit_step env s resp e st)) = l_tracker ?st"
    using open_ch fields by (simp_all add: emit_eof_open)
  have "fold apply_msg ?bs rows = rows @ filter (in_range (l_cursor st) e) logs" for rows
    using pos confirmed_records_honest [OF hon e]
    by (simp add: fold_apply_data [OF emit_batches_not_control] emit_batches_records)
  moreover have "fold apply_msg tail rows = rows" for rows
    by (simp add: tail apply_msg_def eof_batch_def)
  moreover have "\<forall>x \<in> set (?bs @ tail). source_data s x"
    using emit_batches_source_data by (auto simp: tail source_data_def [of s "eof_batch s e"])
  ultimately show ?thesis using st' tracked e(1)
    unfolding emits_def by (intro conjI exI [of _ "?bs @ tail"]) auto
qed

lemma source_iter_emits:
  assumes open_ch: "ch_closes (l_chan st) = None" and tr: "tracks hash b (l_tracker st)" and b: "l_cursor st \<le> b"
    and pos: "0 < s_max_records s" and srv: "honest_reply env s hash logs st"
  shows "emits s hash logs b st (flow_state (source_iter env s st))"
proof -
  obtain r w where q: "client_query (e_http env) (s_client s) (l_cursor st) (s_to_block s)
      (l_world st) = (r, w)" by fastforce
  show ?thesis
  proof (cases r)
    case (Inl e)
    show ?thesis using emits_idle [OF open_ch tr b] by (simp add: source_iter_def q Inl)
  next
    case (Inr resp)
    let ?st = "st \<lparr> l_world := w, l_backoff := 250 \<rparr>"
    have hon: "honest hash logs (l_cursor st) resp" using srv q Inr by (simp add: honest_reply_def)
    have nc: "\<not> has_conflict (l_tracker st) resp" using honest_unconflicted [OF hon tr] .
    have "emits s hash logs b ?st (flow_state (response_step env s resp ?st))"
    proof (cases "plan_step (s_mode s) (l_cursor st) (s_to_block s) (s_confirmations s)
        (r_next_block resp) (r_archive_height resp)")
      case (Emit e)
      then have "l_cursor ?st < e \<and> e \<le> r_next_block resp" by (auto dest: plan_step_Emit)
      then show ?thesis using emit_step_emits [of ?st hash b logs resp s e env] open_ch tr hon pos nc Emit
        by (simp add: response_step_def)
    next
      case Wait
      then show ?thesis using nc emits_idle [of ?st hash b ?st] open_ch tr b by (simp add: response_step_def)
    next
      case StepEof
      then show ?thesis using nc emits_idle [of ?st hash b _ s "l_cursor st"] open_ch tr b
        by (simp add: response_step_def)
    qed
    then have "emits s hash logs b st (flow_state (response_step env s resp ?st))" by (simp add: emits_def)
    moreover have "emits s hash logs b st st" using emits_idle [OF open_ch tr b] by simp
    ultimately show ?thesis by (simp add: source_iter_def q Inr)
  qed
qed

lemma emits_inv:
  assumes inv: "source_inv s hash logs c0 st" and "logs_ok logs" and emits: "emits s hash logs (l_cursor st) st st'"
  shows "source_inv s hash logs c0 st'"
proof -
  obtain bs where bs: "ch_sent (l_chan st') = ch_sent (l_chan st) @ bs"
      "\<And>rows. fold apply_msg bs rows = rows @ filter (in_range (l_cursor st) (l_cursor st')) logs"
    using emits unfolding emits_def by blast
  have c: "c0 \<le> l_cursor st" "l_cursor st \<le> l_cursor st'" using inv emits by (simp_all add: source_inv_def emits_def)
  have "table (ch_sent (l_chan st')) = table (ch_sent (l_chan st)) @ filter (in_range (l_cursor st) (l_cursor st')) logs"
    using bs by (simp add: table_def)
  then have "table (ch_sent (l_chan st')) = filter (in_range c0 (l_cursor st')) logs"
    using inv filter_ranges [OF assms(2) c] by (simp add: source_inv_def)
  then show ?thesis using c emits by (auto simp: source_inv_def emits_def max_absorb2)
qed

lemma emit_step_inv:
  assumes "source_inv s hash logs c0 st" "logs_ok logs" "0 < s_max_records s"
    and "honest hash logs (l_cursor st) resp" "l_cursor st < e" "e \<le> r_next_block resp"
  shows "source_inv s hash logs c0 (flow_state (emit_step env s resp e st))"
proof (rule emits_inv [OF assms(1,2)])
  show "emits s hash logs (l_cursor st) st (flow_state (emit_step env s resp e st))"
    using assms by (intro emit_step_emits) (simp_all add: source_inv_def)
qed

lemma source_iter_honest:
  assumes "source_inv s hash logs c0 st" "logs_ok logs" "0 < s_max_records s" "honest_reply env s hash logs st"
  shows "source_inv s hash logs c0 (flow_state (source_iter env s st))"
proof (rule emits_inv [OF assms(1,2)])
  show "emits s hash logs (l_cursor st) st (flow_state (source_iter env s st))"
    using assms by (intro source_iter_emits) (simp_all add: source_inv_def)
qed

lemma source_iter_inv:
  "source_inv s hash logs c0 st \<Longrightarrow> logs_ok logs \<Longrightarrow> 0 < s_max_records s
   \<Longrightarrow> honest_server (e_http env) s hash logs
   \<Longrightarrow> source_inv s hash logs c0 (flow_state (source_iter env s st))"
  by (rule source_iter_honest) (simp_all add: honest_server_def honest_reply_def)

lemma source_loop_inv:
  "source_inv s hash logs c0 st \<Longrightarrow> logs_ok logs \<Longrightarrow> 0 < s_max_records s
   \<Longrightarrow> honest_server (e_http env) s hash logs
   \<Longrightarrow> source_inv s hash logs c0 (flow_state (source_loop n env s st))"
proof (induction n env s st rule: source_loop.induct)
  case (2 n env s st)
  then show ?case
    using source_iter_inv [OF 2(2,3,4,5)] by (cases "source_iter env s st") auto
qed simp

lemma source_start_chan [simp]: "l_chan (source_start env s c tx kv w) = tx"
  by (simp add: source_start_def Let_def split: prod.splits)

lemma source_start_inv:
  assumes "tx = \<lparr> ch_sent = [], ch_closes = None \<rparr>"
    and "tracks hash (l_cursor (source_start env s c tx kv w)) (l_tracker (source_start env s c tx kv w))"
  shows "source_inv s hash logs (l_cursor (source_start env s c tx kv w)) (source_start env s c tx kv w)"
  using assms by (simp add: source_inv_def table_def filter_empty_range)

section \<open>Completion of a backfill\<close>

definition responsive :: "'w http \<Rightarrow> hs_source \<Rightarrow> (u64 \<Rightarrow> string) \<Rightarrow> json list \<Rightarrow> bool" where
  "responsive http s hash logs =
     (\<forall>w lo. \<exists>resp. fst (client_query http (s_client s) lo (s_to_block s) w) = Inr resp
        \<and> honest hash logs lo resp
        \<and> (\<not> reached (s_to_block s) lo \<longrightarrow>
             lo < step_bound (s_to_block s) (s_confirmations s) (r_next_block resp)
                    (r_archive_height resp)))"

text \<open>
  One iteration against a responsive server: at the end of the range the backfill finishes,
  before it the cursor moves on by at least one block.
\<close>

lemma backfill_at_end:
  assumes "s_mode s = Backfill" "s_to_block s = Some fin" "l_cursor st = fin"
    and "source_inv s hash logs c0 st" "\<not> has_conflict (l_tracker st) resp"
  shows "\<exists>st'. response_step env s resp st = Return st' \<and> l_cursor st' = fin
    \<and> source_inv s hash logs c0 st' \<and> last (ch_sent (l_chan st')) = eof_batch s fin"
proof -
  let ?b = "step_bound (s_to_block s) (s_confirmations s) (r_next_block resp) (r_archive_height resp)"
  have "?b \<le> fin" using le_min_opt [of ?b "s_to_block s"] assms(2)
    by (simp add: step_bound_def min_opt_def)
  then have "plan_step Backfill fin (s_to_block s) (s_confirmations s)
      (r_next_block resp) (r_archive_height resp) = StepEof"
    using assms(2) by (auto simp: plan_step_bound reached_def)
  moreover have "ch_closes (l_chan st) = None" using assms(4) by (simp add: source_inv_def)
  ultimately show ?thesis using assms
    by (auto simp: response_step_def emit_eof_open send_all_open source_inv_def)
qed

lemma backfill_progress:
  assumes "s_mode s = Backfill" "s_to_block s = Some fin" "l_cursor st < b"
    and bound: "b = step_bound (s_to_block s) (s_confirmations s) (r_next_block resp) (r_archive_height resp)"
    and inv: "source_inv s hash logs c0 st" and hon: "honest hash logs (l_cursor st) resp"
    and logs: "logs_ok logs" and pos: "0 < s_max_records s"
  shows "\<exists>st'. source_inv s hash logs c0 st' \<and> l_cursor st' = b \<and> b \<le> fin
    \<and> (if b = fin then response_step env s resp st = Return st' \<and> last (ch_sent (l_chan st')) = eof_batch s fin
       else response_step env s resp st = Continue st')"
proof -
  have plan: "plan_step Backfill (l_cursor st) (s_to_block s) (s_confirmations s)
      (r_next_block resp) (r_archive_height resp) = Emit b"
    using assms(3) by (simp add: plan_step_bound bound)
  have e: "b \<le> fin" "b \<le> r_next_block resp" using plan_step_Emit [OF plan] assms(2) by auto
  have open_ch: "ch_closes (l_chan st) = None" using inv by (simp add: source_inv_def)
  have "\<not> has_conflict (l_tracker st) resp"
    using honest_no_conflict [OF hon] inv by (simp add: source_inv_def)
  then have it: "response_step env s resp st = emit_step env s resp b st"
    using plan assms(1) by (simp add: response_step_def)
  have inv2: "source_inv s hash logs c0 (flow_state (emit_step env s resp b st))"
    using emit_step_inv [OF inv logs pos, of resp b env] hon assms(3) e by simp
  have cur: "l_cursor (flow_state (emit_step env s resp b st)) = b"
    using open_ch by (auto simp: emit_step_def Let_def send_all_open remember_def split: option.splits)
  show ?thesis
  proof (cases "b = fin")
    case True
    then have "\<exists>st'. emit_step env s resp b st = Return st' \<and> last (ch_sent (l_chan st')) = eof_batch s fin"
      using open_ch assms(1,2)
      by (auto simp: emit_step_def Let_def send_all_open remember_def reached_def emit_eof_open split: option.splits)
    then show ?thesis using it inv2 cur True by auto
  next
    case False
    then have "\<not> fin \<le> b" using e by simp
    then have "\<exists>st'. emit_step env s resp b st = Continue st'"
      using open_ch assms(2) by (simp add: emit_step_def Let_def send_all_open reached_def)
    then show ?thesis using it inv2 cur False e(1) by auto
  qed
qed

lemma source_loop_completes:
  assumes "s_mode s = Backfill" "s_to_block s = Some fin" "\<And>w. \<not> e_stop env w"
    and resp: "responsive (e_http env) s hash logs" and logs: "logs_ok logs"
    and pos: "0 < s_max_records s"
  shows "source_inv s hash logs c0 st \<Longrightarrow> l_cursor st \<le> fin \<Longrightarrow> unat fin - unat (l_cursor st) < n
    \<Longrightarrow> \<exists>st'. source_loop n env s st = Return st' \<and> l_cursor st' = fin
          \<and> source_inv s hash logs c0 st' \<and> last (ch_sent (l_chan st')) = eof_batch s fin"
proof (induction n arbitrary: st)
  case (Suc n)
  obtain r w where q: "client_query (e_http env) (s_client s) (l_cursor st) (s_to_block s)
      (l_world st) = (r, w)" by fastforce
  obtain resp where r: "r = Inr resp" and hon: "honest hash logs (l_cursor st) resp"
    and prog: "\<not> reached (s_to_block s) (l_cursor st) \<Longrightarrow>
      l_cursor st < step_bound (s_to_block s) (s_confirmations s) (r_next_block resp)
        (r_archive_height resp)"
    using resp q unfolding responsive_def by (metis fst_conv)
  let ?st = "st \<lparr> l_world := w, l_backoff := 250 \<rparr>"
  let ?b = "step_bound (s_to_block s) (s_confirmations s) (r_next_block resp) (r_archive_height resp)"
  have inv': "source_inv s hash logs c0 ?st" using Suc.prems by (simp add: source_inv_def)
  have it: "source_iter env s st = response_step env s resp ?st"
    using assms(3) by (simp add: source_iter_def q r)
  show ?case
  proof (cases "l_cursor st = fin")
    case True
    have "\<not> has_conflict (l_tracker ?st) resp"
      using honest_no_conflict [OF hon] Suc.prems by (simp add: source_inv_def)
    from backfill_at_end [OF assms(1,2) _ inv' this, of env] show ?thesis using True it by auto
  next
    case False
    then have b: "l_cursor ?st < ?b" using prog assms(2) Suc.prems(2) by (simp add: reached_def)
    from backfill_progress [OF assms(1,2) b refl inv' _ logs pos, of env] hon
    obtain st' where st': "source_inv s hash logs c0 st'" "l_cursor st' = ?b" "?b \<le> fin"
      "if ?b = fin then source_iter env s st = Return st' \<and> last (ch_sent (l_chan st')) = eof_batch s fin
       else source_iter env s st = Continue st'"
      unfolding it by auto
    show ?thesis
    proof (cases "?b = fin")
      case True
      then show ?thesis using st' by auto
    next
      case False
      have "unat fin - unat (l_cursor st') < n"
        using Suc.prems(3) b st'(2,3) False by (simp add: word_less_nat_alt word_le_nat_alt)
      then show ?thesis using Suc.IH [of st'] st' False by simp
    qed
  qed
qed simp

section \<open>Rolling back\<close>

lemma locate_fork_cases:
  assumes "tracker_ok t" "min_block t = Some m"
    "block_hashes http (s_client s) m cursor w = (r, w')"
  shows "locate_fork http s t cursor w =
    (case r of
       Inl e \<Rightarrow> sat_sub m 1
     | Inr canonical \<Rightarrow>
         let M = matching t (map_of (rev canonical)) in if M = {} then sat_sub m 1 else Max M, w')"
  using last_matching_greatest [OF assms(1)] assms
  by (simp add: locate_fork_def is_greatest_Max Let_def split: sum.splits)

lemma min_block_tracked:
  assumes "tracker_ok t" "min_block t = Some m"
  shows "map_of (t_hashes t) m \<noteq> None"
  using min_block_least [OF assms(1)] assms(2) by (auto simp: is_least_def)

lemma sat_sub_one_less: "m < c \<Longrightarrow> sat_sub m 1 < c"
  by (auto simp: word_less_nat_alt unat_sat_sub)

lemma locate_fork_below:
  assumes "tracker_ok t" "\<And>n. map_of (t_hashes t) n \<noteq> None \<Longrightarrow> n < cursor"
    and "t_hashes t \<noteq> []"
  shows "fst (locate_fork http s t cursor w) < cursor"
proof -
  obtain m where m: "min_block t = Some m"
    using assms(3) by (cases "t_hashes t") (auto simp: min_block_def)
  obtain r w' where b: "block_hashes http (s_client s) m cursor w = (r, w')" by fastforce
  have lt: "m < cursor" using assms(2) min_block_tracked [OF assms(1) m] by blast
  have "Max (matching t g) < cursor" if "matching t g \<noteq> {}" for g
  proof -
    have "finite (matching t g)" by simp
    then have "Max (matching t g) \<in> matching t g" using that by (rule Max_in)
    then show ?thesis using assms(2) by (auto simp: matching_def)
  qed
  then show ?thesis using locate_fork_cases [OF assms(1) m b] sat_sub_one_less [OF lt]
    by (auto simp: Let_def split: sum.splits)
qed

lemma block_hashes_empty: "\<not> lo < hi \<Longrightarrow> block_hashes http c lo hi w = (Inr [], w)"
  by (simp add: block_hashes_def block_hashes_loop.simps)

lemma matching_empty [simp]: "matching t Map.empty = {}"
  by (auto simp: matching_def)

lemma locate_fork_above:
  assumes "tracker_ok t" "min_block t = Some m" "cursor \<le> m"
  shows "locate_fork http s t cursor w = (sat_sub m 1, w)"
  using locate_fork_cases [OF assms(1,2) block_hashes_empty] assms(3)
  by (simp add: not_less)

text \<open>
  Two chains that agree on the hash of a block agree on everything up to it: the hash of a
  block commits to its ancestors and to their logs.
\<close>

definition commits ::
  "(u64 \<Rightarrow> string) \<Rightarrow> json list \<Rightarrow> (u64 \<Rightarrow> string) \<Rightarrow> json list \<Rightarrow> bool" where
  "commits hash logs hash' logs' =
     (\<forall>n. hash n = hash' n \<longrightarrow>
        (\<forall>m \<le> n. hash m = hash' m) \<and> filter (up_to n) logs = filter (up_to n) logs')"

lemma less_sat_add: "f < c \<Longrightarrow> n < sat_add f 1 \<longleftrightarrow> n \<le> f"
proof -
  assume "f < (c :: u64)"
  moreover have "unat c < 2 ^ 64" using unsigned_less [of c] by simp
  ultimately have "unat (sat_add f 1) = unat f + 1"
    by (simp add: unat_sat_add word_less_nat_alt)
  then show ?thesis by (simp add: word_less_nat_alt word_le_nat_alt less_Suc_eq_le)
qed

lemma in_range_up_to:
  "f < c \<Longrightarrow> in_range a (sat_add f 1) r \<longleftrightarrow> up_to f r \<and> in_range a c r"
  by (auto simp: up_to_def in_range_def less_sat_add split: option.splits)

lemma filter_in_range_up_to:
  "f < c \<Longrightarrow> filter (up_to f) (filter (in_range a c) logs) = filter (in_range a (sat_add f 1)) logs"
  by (auto simp: in_range_up_to intro!: filter_cong)

lemma filter_in_range_commits:
  assumes "filter (up_to f) logs = filter (up_to f) logs'" "f < c"
  shows "filter (in_range a (sat_add f 1)) logs = filter (in_range a (sat_add f 1)) logs'"
proof -
  have "filter (in_range a (sat_add f 1)) l = filter (in_range a (sat_add f 1)) (filter (up_to f) l)"
    for l
    by (auto simp: in_range_up_to [OF assms(2)] intro!: filter_cong)
  then show ?thesis using assms(1) by metis
qed

lemma filter_rebase:
  assumes "cursor' = max (sat_add f 1) from_block" "from_block \<le> c0"
  shows "filter (in_range c0 (sat_add f 1)) logs = filter (in_range (min c0 cursor') cursor') logs"
proof (cases "sat_add f 1 \<le> c0")
  case True
  then have "cursor' \<le> c0" using assms by simp
  then show ?thesis using True by (simp add: filter_empty_range min_def)
next
  case False
  then have "from_block \<le> sat_add f 1" using assms(2) by (meson le_cases order_trans)
  then have "cursor' = sat_add f 1" using assms(1) by (simp add: max_def)
  then show ?thesis using False by (simp add: min_def)
qed

lemma rollback_step_open:
  assumes "ch_closes (l_chan st) = None"
    "locate_fork (e_http env) s t (l_cursor st) (l_world st) = (fork, w)"
  shows "\<exists>kv'. rollback_step env s t st =
     Continue (st \<lparr> l_world := w, l_tracker := Some (purge_after fork t), l_kv := kv',
       l_chan := l_chan st \<lparr> ch_sent := ch_sent (l_chan st) @ [rollback_batch s fork] \<rparr>,
       l_cursor := max (sat_add fork 1) (s_from_block s) \<rparr>)"
  using assms by (auto simp: rollback_step_def Let_def send_def)

lemma rollback_step_inv:
  assumes inv: "source_inv s hash logs c0 st" and t: "l_tracker st = Some t"
    and com: "commits hash logs hash' logs'"
    and m: "min_block t = Some m"
    and can: "block_hashes (e_http env) (s_client s) m (l_cursor st) (l_world st) = (Inr canonical, w)"
    and true_hashes: "\<forall>(n, h) \<in> set canonical. h = hash' n"
    and some: "matching t (map_of (rev canonical)) \<noteq> {}"
    and from0: "s_from_block s \<le> c0"
  shows "\<exists>st'. rollback_step env s t st = Continue st'
     \<and> l_cursor st' = max (sat_add (Max (matching t (map_of (rev canonical)))) 1) (s_from_block s)
     \<and> source_inv s hash' logs' (min c0 (l_cursor st')) st'"
proof -
  define f where "f = Max (matching t (map_of (rev canonical)))"
  have ok: "tracker_ok t" and open_ch: "ch_closes (l_chan st) = None"
    and tr: "\<And>n h. map_of (t_hashes t) n = Some h \<Longrightarrow> h = hash n \<and> n < l_cursor st"
    and rows: "table (ch_sent (l_chan st)) = filter (in_range c0 (l_cursor st)) logs"
    using inv t by (auto simp: source_inv_def tracks_def)
  have "f \<in> matching t (map_of (rev canonical))"
    using some unfolding f_def by (intro Max_in) simp_all
  then obtain h where h: "map_of (t_hashes t) f = Some h" "map_of (rev canonical) f = Some h"
    by (auto simp: matching_def)
  have f: "f < l_cursor st" "h = hash f" using tr [OF h(1)] by auto
  have "h = hash' f" using map_of_SomeD [OF h(2)] true_hashes by auto
  then have anc: "\<forall>n \<le> f. hash n = hash' n"
    and pre: "filter (up_to f) logs = filter (up_to f) logs'"
    using com f(2) unfolding commits_def by metis+
  have "locate_fork (e_http env) s t (l_cursor st) (l_world st) = (f, w)"
    using locate_fork_cases [OF ok m can] some by (simp add: f_def Let_def)
  then obtain kv' where step: "rollback_step env s t st =
     Continue (st \<lparr> l_world := w, l_tracker := Some (purge_after f t), l_kv := kv',
       l_chan := l_chan st \<lparr> ch_sent := ch_sent (l_chan st) @ [rollback_batch s f] \<rparr>,
       l_cursor := max (sat_add f 1) (s_from_block s) \<rparr>)"
    using rollback_step_open [OF open_ch] by blast
  define c' where "c' = max (sat_add f 1) (s_from_block s)"
  have "n < c'" if "n \<le> f" for n
    using that less_sat_add [OF f(1), of n] by (simp add: c'_def less_max_iff_disj)
  then have "tracks hash' c' (Some (purge_after f t))"
    using tr anc by (auto simp: tracks_def tracker_ok_purge ok purge_after_view split: if_splits)
  moreover have "filter (up_to f) (table (ch_sent (l_chan st)))
      = filter (in_range (min c0 c') c') logs'"
    using filter_in_range_commits [OF pre f(1), of c0] filter_rebase [OF c'_def from0, of logs']
    by (simp add: rows filter_in_range_up_to [OF f(1)] del: filter_filter)
  ultimately show ?thesis
    using step open_ch by (simp add: source_inv_def c'_def f_def)
qed

end
