(* ===== verification/SourceProps.thy ===== *)
theory SourceProps
  imports SourceFacts
begin

text \<open>
  The properties of the source layer, each with a concrete run that meets its hypotheses.
\<close>

section \<open>A concrete source and server\<close>

definition demo_client :: client where
  "demo_client = client_new ''http://h/'' None
     \<lparr> q_logs = [], q_field_selection = field_selection_default \<rparr> True"

definition demo_source :: "source_mode \<Rightarrow> hs_source" where
  "demo_source mode =
     \<lparr> s_name = ''eth'', s_chain_id = 1, s_client = demo_client, s_mode = mode,
       s_from_block = 0, s_to_block = Some 1, s_confirmations = 10, s_reorg_enabled = True,
       s_reorg_window = 64, s_max_records = 1000 \<rparr>"

definition demo_logs :: "json list" where
  "demo_logs = [JObj [(''block_number'', jnat 0)]]"

text \<open>Blocks 0 to 4 in one page for a query from 0, an empty answer for any other.\<close>

definition demo_http :: "nat http" where
  "demo_http w req =
     (case hr_method req of
        GET \<Rightarrow> (Inl ''down'', w + 1)
      | POST v \<Rightarrow>
          if jget_u64 ''from_block'' v = Some 0
          then (Inr (200, JObj [(''data'', JObj [(''logs'', JArr demo_logs)]),
                                (''next_block'', jnat 5)]), w + 1)
          else (Inr (200, JObj []), w + 1))"

definition demo_env :: "(json mem_kv, nat, json) src_env" where
  "demo_env = \<lparr> e_http = demo_http, e_stop = (\<lambda>_. False), e_kv_get = mem_kv_get,
     e_kv_set = mem_kv_set, e_from_slice = Inr, e_to_vec = (\<lambda>v. v) \<rparr>"

definition demo_resp :: query_response where
  "demo_resp = \<lparr> r_archive_height = None, r_next_block = 5, r_records = demo_logs,
     r_block_hashes = [], r_rollback_guard = None \<rparr>"

definition empty_resp :: "u64 \<Rightarrow> query_response" where
  "empty_resp lo = \<lparr> r_archive_height = None, r_next_block = lo, r_records = [],
     r_block_hashes = [], r_rollback_guard = None \<rparr>"

lemma from_block_of_req: "jget_u64 ''from_block'' (query_req_to_value q) = Some (qr_from_block q)"
  by (simp add: query_req_to_value_def jget_u64_def jget_obj skip_empty_def split: option.splits)

lemma parse_demo:
  "parse_response (JObj [(''data'', JObj [(''logs'', JArr demo_logs)]), (''next_block'', jnat 5)])
     0 ts h = demo_resp"
  by (simp add: parse_response_def demo_resp_def demo_logs_def jget_u64_def ingest_data_def
      ingest_def jget_array_def hashes_of_def List.map_filter_simps parse_rollback_guard_def
      join_block_def flex_u64_def)

lemma parse_empty: "parse_response (JObj []) lo ts h = empty_resp lo"
  by (simp add: parse_response_def empty_resp_def jget_u64_def ingest_data_def
      ingest_def jget_array_def hashes_of_def List.map_filter_simps parse_rollback_guard_def)

lemma demo_query:
  "client_query demo_http c lo hi w = (Inr (if lo = 0 then demo_resp else empty_resp lo), w + 1)"
  by (simp add: client_query_def post_query_def demo_http_def auth_def from_block_of_req
      is_success_def parse_demo parse_empty)

lemma demo_honest: "honest hash demo_logs lo (if lo = 0 then demo_resp else empty_resp lo)"
  by (auto simp: honest_def demo_resp_def empty_resp_def demo_logs_def in_range_def
      block_number_of_def)

lemma demo_server: "honest_server demo_http s hash demo_logs"
  unfolding honest_server_def by (simp add: demo_query demo_honest)

lemma demo_logs_ok: "logs_ok demo_logs"
  by (simp add: logs_ok_def demo_logs_def block_number_of_def)

lemma demo_responsive: "responsive demo_http (demo_source mode) hash demo_logs"
proof -
  have one: "reached (Some 1) (lo :: u64) \<longleftrightarrow> lo \<noteq> 0" for lo
    by (simp add: reached_def word_le_nat_alt Suc_le_eq unat_gt_0)
  show ?thesis
    unfolding responsive_def
    by (auto simp: one demo_query demo_honest demo_source_def step_bound_def min_opt_def
        confirmed_bound_def demo_resp_def empty_resp_def)
qed

definition no_rows :: channel where
  "no_rows = \<lparr> ch_sent = [], ch_closes = None \<rparr>"

lemma demo_start:
  "source_start demo_env (demo_source mode) 0 no_rows (None :: json mem_kv option) 0 =
     \<lparr> l_cursor = 0, l_backoff = 250, l_tracker = Some (tracker_new 64), l_kv = None,
       l_chan = no_rows, l_world = (if mode = Live then 1 else 0) \<rparr>"
  by (simp add: source_start_def demo_source_def tracker_load_def archive_height_def
      demo_env_def demo_http_def auth_def)

lemma demo_source_fields [simp]:
  "s_mode (demo_source m) = m" "s_to_block (demo_source m) = Some 1"
  "s_max_records (demo_source m) = 1000" "s_from_block (demo_source m) = 0"
  "s_name (demo_source m) = ''eth''" "s_confirmations (demo_source m) = 10"
  by (simp_all add: demo_source_def)

lemma demo_env_fields [simp]: "e_http demo_env = demo_http" "e_stop demo_env = (\<lambda>_. False)"
  by (simp_all add: demo_env_def)

lemma demo_tracks: "tracks hash 0 (Some (tracker_new 64))"
  by (simp add: tracks_def tracker_ok_new)

section \<open>Properties\<close>

text \<open>
  The cursor advances exactly to the largest block number that the response, the
  confirmation lag and the configured end all allow; it stays when there is none, and a
  backfill ends only once its configured end is reached.
\<close>

theorem plan_step_exact:
  assumes "no_overflow conf archive"
  shows "plan_step mode cursor to_block conf nb archive =
     (let A = allowed cursor to_block conf nb archive
      in if A \<noteq> {} then Emit (Max A)
         else if mode = Backfill \<and> reached to_block cursor then StepEof else Wait)"
  using assms by (rule plan_step_allowed)

theorem plan_step_exact_witness:
  "plan_step Live 985 None 10 1000 (Some 1000) =
     (let A = allowed 985 None 10 1000 (Some 1000)
      in if A \<noteq> {} then Emit (Max A)
         else if Live = Backfill \<and> reached None 985 then StepEof else Wait)"
  by (rule plan_step_exact) (simp add: no_overflow_def)

text \<open>
  The batches of one emitted range carry its records in order, none empty and none
  above the configured size, under distinct ids; only the last one acknowledges the end of
  the range, every earlier one its start.
\<close>

theorem emit_batches_chunked:
  assumes "0 < s_max_records s" "length recs < 2 ^ 64"
  shows "concat (map b_records (emit_batches s c e recs)) = recs
    \<and> distinct (map b_batch_id (emit_batches s c e recs))
    \<and> (\<forall>i < length (emit_batches s c e recs).
           let b = emit_batches s c e recs ! i
           in b_block_range b = BlockRange c e \<and> b_kind b = Log
              \<and> 0 < batch_len b \<and> batch_len b \<le> s_max_records s
              \<and> ack_block b = (if i + 1 < length (emit_batches s c e recs) then c else e))"
proof -
  have "0 < length (chunks (s_max_records s) recs ! i)
      \<and> length (chunks (s_max_records s) recs ! i) \<le> s_max_records s"
    if "i < length (emit_batches s c e recs)" for i
    using that by (intro chunks_sizes [of _ _ recs] nth_mem) (simp add: length_emit_batches)
  then have "\<forall>i < length (emit_batches s c e recs).
           let b = emit_batches s c e recs ! i
           in b_block_range b = BlockRange c e \<and> b_kind b = Log
              \<and> 0 < batch_len b \<and> batch_len b \<le> s_max_records s
              \<and> ack_block b = (if i + 1 < length (emit_batches s c e recs) then c else e)"
    by (simp add: Let_def nth_emit_batches batch_len_def)
  then show ?thesis using assms by (simp add: emit_batches_records emit_ids_distinct)
qed

theorem emit_batches_chunked_witness:
  "concat (map b_records (emit_batches (demo_source Live) 0 1 demo_logs)) = demo_logs
   \<and> distinct (map b_batch_id (emit_batches (demo_source Live) 0 1 demo_logs))"
  using emit_batches_chunked [of "demo_source Live" demo_logs]
  by (simp add: demo_logs_def)

text \<open>
  C5: Exactly once and in order.  Against a server of one chain, at whatever point the loop
  is observed, and whatever transport failures, stalls and confirmation lags occurred, the
  rows that the sent batches add up to are the chain's logs from the start to the cursor.
\<close>

theorem source_emits_exactly:
  assumes "honest_server (e_http env) s hash logs" "logs_ok logs" "0 < s_max_records s"
    and "tracks hash (l_cursor (source_start env s c no_rows kv w))
           (l_tracker (source_start env s c no_rows kv w))"
  shows "let st = flow_state (source_run n env s c no_rows kv w)
         in table (ch_sent (l_chan st)) =
              filter (in_range (l_cursor (source_start env s c no_rows kv w)) (l_cursor st)) logs"
  using source_loop_inv [OF source_start_inv [OF no_rows_def assms(4), of logs] assms(2,3,1), of n]
  by (simp add: source_run_def Let_def source_inv_def)

theorem source_emits_exactly_witness:
  "let st = flow_state (source_run 3 demo_env (demo_source Live) 0 no_rows None 0)
   in table (ch_sent (l_chan st)) = filter (in_range 0 (l_cursor st)) demo_logs"
  using source_emits_exactly [where env = demo_env and s = "demo_source Live" and hash = "\<lambda>_. ''h''"
      and logs = demo_logs and c = 0 and kv = None and w = 0 and n = 3]
  by (simp add: demo_start demo_tracks demo_server demo_logs_ok)

text \<open>
  C6: a backfill completes.  Against a responsive server of one chain it returns within one
  iteration per block of its range, having sent exactly the chain's logs of the range, and
  the end-of-stream marker last.
\<close>

theorem backfill_completes:
  assumes "s_mode s = Backfill" "s_to_block s = Some fin" "\<And>w. \<not> e_stop env w"
    and "responsive (e_http env) s hash logs" "logs_ok logs" "0 < s_max_records s"
    and "tracks hash (l_cursor (source_start env s c no_rows kv w))
           (l_tracker (source_start env s c no_rows kv w))"
    and "l_cursor (source_start env s c no_rows kv w) \<le> fin"
    and "unat fin - unat (l_cursor (source_start env s c no_rows kv w)) < n"
  shows "\<exists>st. source_run n env s c no_rows kv w = Return st
     \<and> table (ch_sent (l_chan st)) =
         filter (in_range (l_cursor (source_start env s c no_rows kv w)) fin) logs
     \<and> last (ch_sent (l_chan st)) = eof_batch s fin"
  using source_loop_completes [OF assms(1-6) source_start_inv [OF no_rows_def assms(7)] assms(8,9)]
  by (auto simp: source_run_def source_inv_def)

theorem backfill_completes_witness:
  "\<exists>st. source_run 2 demo_env (demo_source Backfill) 0 no_rows None 0 = Return st
     \<and> table (ch_sent (l_chan st)) = filter (in_range 0 1) demo_logs
     \<and> last (ch_sent (l_chan st)) = eof_batch (demo_source Backfill) 1"
  using backfill_completes [where env = demo_env and s = "demo_source Backfill" and fin = 1
      and hash = "\<lambda>_. ''h''" and logs = demo_logs and c = 0 and kv = None and w = 0 and n = 2]
  by (simp add: demo_start demo_tracks demo_responsive demo_logs_ok)

section \<open>Rollback\<close>

text \<open>A two-block chain whose second block is replaced.\<close>

definition fork_http :: "nat http" where
  "fork_http w req =
     (Inr (200, JObj [(''data'', JObj [(''blocks'',
        JArr [JObj [(''hash'', JStr ''a''), (''number'', jnat 0)]])])]), w + 1)"

definition old_hash :: "u64 \<Rightarrow> string" where
  "old_hash n = (if n = 0 then ''a'' else ''b'')"

definition new_hash :: "u64 \<Rightarrow> string" where
  "new_hash n = (if n = 0 then ''a'' else ''c'')"

definition old_logs :: "json list" where
  "old_logs = [JObj [(''block_number'', jnat 0)], JObj [(''block_number'', jnat 1)]]"

definition new_logs :: "json list" where
  "new_logs = [JObj [(''block_number'', jnat 0)],
               JObj [(''address'', JStr ''x''), (''block_number'', jnat 1)]]"

definition fork_env :: "(json mem_kv, nat, json) src_env" where
  "fork_env = demo_env \<lparr> e_http := fork_http \<rparr>"

definition fork_tracker :: tracker where
  "fork_tracker = \<lparr> t_window = 64, t_hashes = [(0, ''a''), (1, ''b'')] \<rparr>"

definition fork_state :: "(json mem_kv, nat) loop_state" where
  "fork_state = \<lparr> l_cursor = 2, l_backoff = 250, l_tracker = Some fork_tracker, l_kv = None,
     l_chan = \<lparr> ch_sent = emit_batches (demo_source Live) 0 2 old_logs, ch_closes = None \<rparr>,
     l_world = 0 \<rparr>"

lemma fork_inv: "source_inv (demo_source Live) old_hash old_logs 0 fork_state"
proof -
  have "table ([] @ emit_batches (demo_source Live) 0 2 old_logs) = old_logs"
    by (subst table_append_emit) (simp_all add: table_def)
  then have "table (emit_batches (demo_source Live) 0 2 old_logs) = old_logs" by simp
  then show ?thesis
    by (auto simp: source_inv_def fork_state_def fork_tracker_def tracks_def tracker_ok_def
        btm_ok_def old_logs_def in_range_def block_number_of_def old_hash_def)
qed

lemma fork_hashes: "block_hashes fork_http c 0 2 0 = (Inr [(0, ''a'')], 1)"
proof -
  have "parse_response (JObj [(''data'', JObj [(''blocks'',
        JArr [JObj [(''hash'', JStr ''a''), (''number'', jnat 0)]])])]) 0 False False
      = \<lparr> r_archive_height = None, r_next_block = 0, r_records = [],
          r_block_hashes = [(0, ''a'')], r_rollback_guard = None \<rparr>"
    by (simp add: parse_response_def jget_u64_def ingest_data_def ingest_def jget_array_def
        ingest_block_def flex_u64_def jget_str_def hashes_of_def List.map_filter_simps
        parse_rollback_guard_def)
  then show ?thesis
    by (simp add: block_hashes_def block_hashes_loop.simps post_query_def fork_http_def auth_def
        is_success_def)
qed

lemma fork_commits: "commits old_hash old_logs new_hash new_logs"
  by (auto simp: commits_def old_hash_def new_hash_def old_logs_def new_logs_def up_to_def
      block_number_of_def split: if_splits)

lemma fork_matching: "matching fork_tracker [0 \<mapsto> ''a''] = {0}"
  by (auto simp: matching_def fork_tracker_def split: if_splits)

lemma fork_tracker_ok: "tracker_ok fork_tracker"
  by (simp add: fork_tracker_def tracker_ok_def btm_ok_def)

lemma fork_tracked: "map_of (t_hashes fork_tracker) n \<noteq> None \<Longrightarrow> n < l_cursor fork_state"
  by (auto simp: fork_tracker_def fork_state_def split: if_splits)

text \<open>
  C7: a rollback is correct.  When the tracked hashes are those of the old chain and the
  sweep reports hashes of the new one, the loop signals the newest tracked block that both
  chains share and rewinds behind it: the rows downstream are then exactly the new chain's
  logs below the new cursor, and what is still tracked is the new chain's.
\<close>

theorem rollback_restores_invariant:
  assumes "source_inv s hash logs c0 st" "l_tracker st = Some t"
    and "commits hash logs hash' logs'" "min_block t = Some m"
    and "block_hashes (e_http env) (s_client s) m (l_cursor st) (l_world st) = (Inr canonical, w)"
    and "\<forall>(n, h) \<in> set canonical. h = hash' n"
    and "matching t (map_of (rev canonical)) \<noteq> {}" "s_from_block s \<le> c0"
  shows "\<exists>st'. rollback_step env s t st = Continue st'
     \<and> l_cursor st' = max (sat_add (Max (matching t (map_of (rev canonical)))) 1) (s_from_block s)
     \<and> source_inv s hash' logs' (min c0 (l_cursor st')) st'"
  using assms by (rule rollback_step_inv)

theorem rollback_restores_invariant_witness:
  "\<exists>st'. rollback_step fork_env (demo_source Live) fork_tracker fork_state = Continue st'
     \<and> l_cursor st' = 1
     \<and> source_inv (demo_source Live) new_hash new_logs 0 st'"
  using rollback_restores_invariant [OF fork_inv _ fork_commits, of fork_tracker 0 fork_env
      "[(0, ''a'')]" 1] fork_hashes fork_matching
  by (simp add: fork_state_def fork_env_def new_hash_def)
    (simp add: fork_tracker_def min_block_def sat_add_def)

text \<open>
  As long as every tracked block lies below the cursor, a rollback never moves the
  cursor forward, whatever the server answers while the fork is being located.
\<close>

theorem rollback_moves_back:
  assumes "tracker_ok t" "\<And>n. map_of (t_hashes t) n \<noteq> None \<Longrightarrow> n < l_cursor st"
    and "t_hashes t \<noteq> []" "s_from_block s \<le> l_cursor st"
  shows "l_cursor (flow_state (rollback_step env s t st)) \<le> l_cursor st"
proof -
  obtain fork w where f: "locate_fork (e_http env) s t (l_cursor st) (l_world st) = (fork, w)"
    by fastforce
  then have "fork < l_cursor st"
    using locate_fork_below [OF assms(1,2,3), of "e_http env" s "l_world st"] by simp
  then have "sat_add fork 1 \<le> l_cursor st" by (rule sat_add_one_greater)
  then show ?thesis using assms(4) f
    by (auto simp: rollback_step_def Let_def split: prod.splits bool.splits)
qed

theorem rollback_moves_back_witness:
  "l_cursor (flow_state (rollback_step fork_env (demo_source Live) fork_tracker fork_state)) \<le> 2"
  using rollback_moves_back [of fork_tracker fork_state "demo_source Live" fork_env,
      OF fork_tracker_ok fork_tracked]
  by (simp add: fork_tracker_def) (simp add: fork_state_def)

text \<open>
  C36: when the tracked window lies above the cursor (a resume from an earlier cursor than
  the one the window was saved at), the rollback moves the cursor forward to the window:
  the blocks in between are never fetched.
\<close>

theorem rollback_skips_forward:
  assumes "tracker_ok t" "min_block t = Some m" "l_cursor st < m"
    and "ch_closes (l_chan st) = None" "s_from_block s \<le> m"
  shows "\<exists>st'. rollback_step env s t st = Continue st' \<and> l_cursor st' = m
     \<and> ch_sent (l_chan st') = ch_sent (l_chan st) @ [rollback_batch s (m - 1)]"
proof -
  have m: "0 < m" using assms(3) by (metis word_gt_0 word_not_simps(1))
  have "locate_fork (e_http env) s t (l_cursor st) (l_world st) = (sat_sub m 1, l_world st)"
    by (rule locate_fork_above [OF assms(1,2)]) (use assms(3) in simp)
  then obtain kv' where "rollback_step env s t st =
     Continue (st \<lparr> l_world := l_world st, l_tracker := Some (purge_after (sat_sub m 1) t), l_kv := kv',
       l_chan := l_chan st \<lparr> ch_sent := ch_sent (l_chan st) @ [rollback_batch s (sat_sub m 1)] \<rparr>,
       l_cursor := max (sat_add (sat_sub m 1) 1) (s_from_block s) \<rparr>)"
    using rollback_step_open [OF assms(4)] by blast
  moreover have "sat_sub m 1 = m - 1" using m by (auto simp: sat_sub_def word_le_nat_alt word_gt_0
        Suc_le_eq unat_gt_0)
  moreover have "sat_add (m - 1) 1 = m"
    using m unsigned_less [of m] by (auto simp: sat_add_def unat_minus_one word_gt_0 unat_gt_0)
  ultimately show ?thesis using assms(5) by (simp add: max_def)
qed

definition skip_state :: "(json mem_kv, nat) loop_state" where
  "skip_state = fork_state \<lparr> l_cursor := 100,
     l_tracker := Some \<lparr> t_window = 64, t_hashes = [(200, ''a'')] \<rparr> \<rparr>"

theorem rollback_skips_forward_witness:
  "\<exists>st'. rollback_step fork_env (demo_source Live) \<lparr> t_window = 64, t_hashes = [(200, ''a'')] \<rparr>
       skip_state = Continue st' \<and> l_cursor skip_state = 100 \<and> l_cursor st' = 200"
  using rollback_skips_forward [of "\<lparr> t_window = 64, t_hashes = [(200, ''a'')] \<rparr>" 200 skip_state
      "demo_source Live" fork_env]
  by (auto simp: skip_state_def fork_state_def tracker_ok_def btm_ok_def min_block_def)

end
