(* ===== verification/Checkpoint.thy ===== *)
theory Checkpoint
  imports Reorg
begin

text \<open>
  The checkpoint store: \<open>crates/engine/src/checkpoint.rs\<close>.  SQLite is reduced to what the
  code relies on: two tables, single statements that succeed or fail, and a transaction
  that takes effect as a whole or not at all.  Whether a statement fails is an argument.
  The bodies of the two \<open>HashMap\<close>s behind mutexes are ordered maps.
\<close>

declare split_paired_All [simp del] split_paired_Ex [simp del]

section \<open>The database\<close>

text \<open>A \<open>u64\<close> is stored by its two's-complement bits: \<open>as i64\<close> and back.\<close>

definition as_i64 :: "u64 \<Rightarrow> int" where
  "as_i64 w = sint w"

definition of_i64 :: "int \<Rightarrow> u64" where
  "of_i64 i = word_of_int i"

type_synonym cursor_key = "string \<times> string"

record 'b ckpt_db =
  db_cursors :: "(cursor_key, int) btm"
  db_kv :: "(kv_key, 'b) btm"

definition empty_db :: "'b ckpt_db" where
  "empty_db = \<lparr> db_cursors = [], db_kv = [] \<rparr>"

text \<open>\<open>INSERT ... ON CONFLICT DO UPDATE\<close>, and the guarded \<open>UPDATE\<close> of a rewind.\<close>

definition sql_upsert_cursor :: "cursor_key \<Rightarrow> int \<Rightarrow> 'b ckpt_db \<Rightarrow> 'b ckpt_db" where
  "sql_upsert_cursor k v db = db \<lparr> db_cursors := btm_insert k v (db_cursors db) \<rparr>"

definition sql_upsert_kv :: "kv_key \<Rightarrow> 'b \<Rightarrow> 'b ckpt_db \<Rightarrow> 'b ckpt_db" where
  "sql_upsert_kv k v db = db \<lparr> db_kv := btm_insert k v (db_kv db) \<rparr>"

definition sql_lower_cursor :: "cursor_key \<Rightarrow> int \<Rightarrow> 'b ckpt_db \<Rightarrow> 'b ckpt_db" where
  "sql_lower_cursor k v db =
     db \<lparr> db_cursors := map (\<lambda>(k', w). (k', if k' = k \<and> v < w then v else w)) (db_cursors db) \<rparr>"

section \<open>The store\<close>

record 'b ckpt =
  ck_db :: "'b ckpt_db"
  ck_cursors :: "(cursor_key, u64) btm"
  ck_kv_dirty :: "(kv_key, 'b) btm"
  ck_kv_cache :: "(kv_key, 'b option) btm"

text \<open>\<open>CREATE TABLE IF NOT EXISTS\<close>, then load the cursor rows.\<close>

definition ckpt_open :: "'b ckpt_db option \<Rightarrow> 'b ckpt" where
  "ckpt_open file =
     (let db = unwrap_or empty_db file
      in \<lparr> ck_db = db,
           ck_cursors = btm_of_list (map (\<lambda>(k, v). (k, of_i64 v)) (db_cursors db)),
           ck_kv_dirty = [], ck_kv_cache = [] \<rparr>)"

text \<open>\<open>entry(k).or_insert(d)\<close>, then the guarded update.\<close>

definition ckpt_ack :: "string \<Rightarrow> string \<Rightarrow> u64 \<Rightarrow> 'b ckpt \<Rightarrow> 'b ckpt" where
  "ckpt_ack src sink next_block st =
     (let e = unwrap_or 0 (map_of (ck_cursors st) (src, sink))
      in st \<lparr> ck_cursors :=
           btm_insert (src, sink) (if e < next_block then next_block else e) (ck_cursors st) \<rparr>)"

text \<open>The memory move comes first; the \<open>UPDATE\<close> may fail.\<close>

definition rewind_memory :: "string \<Rightarrow> string \<Rightarrow> u64 \<Rightarrow> 'b ckpt \<Rightarrow> 'b ckpt" where
  "rewind_memory src sink next_block st =
     (let e = unwrap_or next_block (map_of (ck_cursors st) (src, sink))
      in st \<lparr> ck_cursors :=
           btm_insert (src, sink) (if next_block < e then next_block else e) (ck_cursors st) \<rparr>)"

definition ckpt_rewind :: "bool \<Rightarrow> string \<Rightarrow> string \<Rightarrow> u64 \<Rightarrow> 'b ckpt \<Rightarrow> bool \<times> 'b ckpt" where
  "ckpt_rewind sql_ok src sink next_block st =
     (let st1 = rewind_memory src sink next_block st
      in if sql_ok
         then (True, st1 \<lparr> ck_db := sql_lower_cursor (src, sink) (as_i64 next_block) (ck_db st1) \<rparr>)
         else (False, st1))"

fun restore_min :: "(cursor_key, u64) btm \<Rightarrow> string \<Rightarrow> string list \<Rightarrow> u64 \<Rightarrow> u64 option" where
  "restore_min c src [] m = Some m"
| "restore_min c src (sink # sinks) m =
     (case map_of c (src, sink) of
        Some v \<Rightarrow> restore_min c src sinks (min m v)
      | None \<Rightarrow> None)"

definition ckpt_restore :: "string \<Rightarrow> string list \<Rightarrow> 'b ckpt \<Rightarrow> u64 option" where
  "ckpt_restore src sinks st =
     (case restore_min (ck_cursors st) src sinks u64_max of
        None \<Rightarrow> None
      | Some m \<Rightarrow> if sinks = [] \<or> m = u64_max then None else Some m)"

type_synonym snapshot = "(cursor_key \<times> u64) list"

definition ckpt_snapshot :: "'b ckpt \<Rightarrow> snapshot" where
  "ckpt_snapshot st = ck_cursors st"

text \<open>The floor of one row against the live watermark.\<close>

definition floor_row :: "(cursor_key, u64) btm \<Rightarrow> cursor_key \<times> u64 \<Rightarrow> u64" where
  "floor_row c row =
     (case row of (k, n) \<Rightarrow> (case map_of c k of Some cur \<Rightarrow> min n cur | None \<Rightarrow> n))"

definition write_rows :: "(cursor_key, u64) btm \<Rightarrow> snapshot \<Rightarrow> 'b ckpt_db \<Rightarrow> 'b ckpt_db" where
  "write_rows c snap db =
     fold (\<lambda>row db. sql_upsert_cursor (fst row) (as_i64 (floor_row c row)) db) snap db"

definition write_kv :: "(kv_key \<times> 'b) list \<Rightarrow> 'b ckpt_db \<Rightarrow> 'b ckpt_db" where
  "write_kv dirty db = fold (\<lambda>(k, v) db. sql_upsert_kv k v db) dirty db"

text \<open>
  \<open>persist_snapshot\<close>: the dirty entries are drained before the transaction begins.
  \<open>txn_ok\<close> says whether every statement of the transaction and its commit succeed.
\<close>

definition persist_snapshot :: "bool \<Rightarrow> snapshot \<Rightarrow> 'b ckpt \<Rightarrow> bool \<times> 'b ckpt" where
  "persist_snapshot txn_ok snap st =
     (let dirty = ck_kv_dirty st; st1 = st \<lparr> ck_kv_dirty := [] \<rparr>
      in if snap = [] \<and> dirty = [] then (True, st1)
         else if txn_ok then
           (True, st1 \<lparr> ck_db := write_kv dirty (write_rows (ck_cursors st1) snap (ck_db st1)) \<rparr>)
         else (False, st1))"

section \<open>The key-value store\<close>

definition ckpt_kv_get :: "bool \<Rightarrow> 'b ckpt \<Rightarrow> string \<Rightarrow> string \<Rightarrow> 'b option \<times> 'b ckpt" where
  "ckpt_kv_get sql_ok st m key =
     (let k = (m, key)
      in case map_of (ck_kv_dirty st) k of
           Some v \<Rightarrow> (Some v, st)
         | None \<Rightarrow>
             (case map_of (ck_kv_cache st) k of
                Some v \<Rightarrow> (v, st)
              | None \<Rightarrow>
                  let loaded = (if sql_ok then map_of (db_kv (ck_db st)) k else None)
                  in (loaded, st \<lparr> ck_kv_cache := btm_insert k loaded (ck_kv_cache st) \<rparr>)))"

definition ckpt_kv_set :: "'b ckpt \<Rightarrow> string \<Rightarrow> string \<Rightarrow> 'b \<Rightarrow> 'b ckpt" where
  "ckpt_kv_set st m key v =
     (let k = (m, key)
      in st \<lparr> ck_kv_cache := btm_insert k (Some v) (ck_kv_cache st),
              ck_kv_dirty := btm_insert k v (ck_kv_dirty st) \<rparr>)"

definition kv_view :: "'b ckpt \<Rightarrow> kv_key \<Rightarrow> 'b option" where
  "kv_view st k =
     (case map_of (ck_kv_dirty st) k of
        Some v \<Rightarrow> Some v
      | None \<Rightarrow>
          (case map_of (ck_kv_cache st) k of Some v \<Rightarrow> v | None \<Rightarrow> map_of (db_kv (ck_db st)) k))"

definition maps_ok :: "'b ckpt \<Rightarrow> bool" where
  "maps_ok st = (btm_ok (ck_cursors st) \<and> btm_ok (ck_kv_dirty st) \<and> btm_ok (ck_kv_cache st)
     \<and> btm_ok (db_cursors (ck_db st)) \<and> btm_ok (db_kv (ck_db st)))"

lemma maps_okD:
  "maps_ok st \<Longrightarrow> btm_ok (ck_cursors st)" "maps_ok st \<Longrightarrow> btm_ok (ck_kv_dirty st)"
  "maps_ok st \<Longrightarrow> btm_ok (ck_kv_cache st)" "maps_ok st \<Longrightarrow> btm_ok (db_cursors (ck_db st))"
  "maps_ok st \<Longrightarrow> btm_ok (db_kv (ck_db st))"
  by (simp_all add: maps_ok_def)

lemma ckpt_get_cases:
  "ckpt_kv_get True st m k =
     (kv_view st (m, k),
      if map_of (ck_kv_dirty st) (m, k) = None \<and> map_of (ck_kv_cache st) (m, k) = None
      then st \<lparr> ck_kv_cache := btm_insert (m, k) (map_of (db_kv (ck_db st)) (m, k)) (ck_kv_cache st) \<rparr>
      else st)"
  by (simp add: ckpt_kv_get_def kv_view_def Let_def split: option.split)

lemma maps_ok_set: "maps_ok st \<Longrightarrow> maps_ok (ckpt_kv_set st m k v)"
  by (simp add: maps_ok_def ckpt_kv_set_def Let_def)

lemma kv_view_set:
  "maps_ok st \<Longrightarrow> kv_view (ckpt_kv_set st m k v) = (kv_view st)((m, k) \<mapsto> v)"
  by (rule ext) (simp add: kv_view_def ckpt_kv_set_def Let_def maps_okD split: option.split)

lemma kv_view_load:
  assumes "maps_ok st" "map_of (ck_kv_cache st) k = None"
  shows "kv_view (st \<lparr> ck_kv_cache := btm_insert k (map_of (db_kv (ck_db st)) k) (ck_kv_cache st) \<rparr>)
    = kv_view st"
  by (rule ext) (use assms in \<open>simp add: kv_view_def maps_okD split: option.split\<close>)

interpretation durable: kv_store "ckpt_kv_get True" ckpt_kv_set maps_ok kv_view
proof (unfold_locales, goal_cases)
  case (3 s m k)
  then show ?case by (simp add: ckpt_get_cases maps_ok_def)
qed (auto simp: ckpt_get_cases kv_view_load kv_view_set maps_ok_set)

section \<open>Cursors in memory and on disk\<close>

definition mem_cursor :: "'b ckpt \<Rightarrow> cursor_key \<Rightarrow> u64 option" where
  "mem_cursor st = map_of (ck_cursors st)"

definition durable_cursor :: "'b ckpt \<Rightarrow> cursor_key \<Rightarrow> u64 option" where
  "durable_cursor st k = map_option of_i64 (map_of (db_cursors (ck_db st)) k)"

text \<open>Block numbers below \<open>2^63\<close>, where the signed column keeps their order.\<close>

definition small :: "u64 \<Rightarrow> bool" where
  "small n = (unat n < 2 ^ 63)"

lemma of_as_i64 [simp]: "of_i64 (as_i64 w) = w"
  by (simp add: of_i64_def as_i64_def)

lemma as_i64_small: "small n \<Longrightarrow> as_i64 n = uint n"
proof -
  assume "small n"
  then have "int (unat n) < int (2 ^ 63)" by (simp only: small_def of_nat_less_iff)
  then have lt: "uint n < 2 ^ 63" by simp
  have "signed_take_bit 63 (uint n) = uint n"
    by (rule signed_take_bit_int_eq_self [OF order_trans [OF _ uint_ge_0] lt]) simp
  then show ?thesis by (simp add: as_i64_def sint_uint)
qed

lemma small_mono: "a \<le> b \<Longrightarrow> small b \<Longrightarrow> small a"
  by (simp add: small_def word_le_nat_alt)


lemma mem_cursor_ack:
  "maps_ok st \<Longrightarrow> mem_cursor (ckpt_ack src sink n st) =
     (mem_cursor st)((src, sink) \<mapsto> max n (unwrap_or 0 (mem_cursor st (src, sink))))"
  by (auto simp: mem_cursor_def ckpt_ack_def Let_def maps_okD max_def)

lemma mem_cursor_rewind:
  "maps_ok st \<Longrightarrow> mem_cursor (rewind_memory src sink n st) =
     (mem_cursor st)((src, sink) \<mapsto> min n (unwrap_or n (mem_cursor st (src, sink))))"
  by (auto simp: mem_cursor_def rewind_memory_def Let_def maps_okD min_def)

lemma btm_ok_map_val: "btm_ok m \<Longrightarrow> btm_ok (map (\<lambda>(k, w). (k, f k w)) m)"
  by (simp add: btm_ok_def o_def case_prod_beta)

lemma map_of_map_val: "map_of (map (\<lambda>(k, w). (k, f k w)) m) k = map_option (f k) (map_of m k)"
  by (induction m) auto

lemma maps_ok_ack [simp]: "maps_ok st \<Longrightarrow> maps_ok (ckpt_ack src sink n st)"
  by (simp add: maps_ok_def ckpt_ack_def Let_def)

lemma maps_ok_rewind [simp]: "maps_ok st \<Longrightarrow> maps_ok (snd (ckpt_rewind ok src sink n st))"
  by (simp add: maps_ok_def ckpt_rewind_def rewind_memory_def sql_lower_cursor_def Let_def
      btm_ok_map_val)

lemma write_kv_fold:
  "write_kv dirty db = db \<lparr> db_kv := fold (\<lambda>(k, v) m. btm_insert k v m) dirty (db_kv db) \<rparr>"
  by (induction dirty arbitrary: db) (auto simp: write_kv_def sql_upsert_kv_def)

lemma write_rows_fold:
  "write_rows c snap db = db \<lparr> db_cursors :=
     fold (\<lambda>(k, v) m. btm_insert k v m)
       (map (\<lambda>row. (fst row, as_i64 (floor_row c row))) snap) (db_cursors db) \<rparr>"
  by (induction snap arbitrary: db) (auto simp: write_rows_def sql_upsert_cursor_def)

lemma write_kv_view:
  "btm_ok (db_kv db) \<Longrightarrow> btm_ok (db_kv (write_kv dirty db))
   \<and> db_cursors (write_kv dirty db) = db_cursors db
   \<and> map_of (db_kv (write_kv dirty db)) = map_of (db_kv db) ++ map_of (rev dirty)"
  by (simp add: write_kv_fold map_of_fold_insert)

lemma write_rows_view:
  "btm_ok (db_cursors db) \<Longrightarrow> btm_ok (db_cursors (write_rows c snap db))
   \<and> db_kv (write_rows c snap db) = db_kv db
   \<and> map_of (db_cursors (write_rows c snap db)) =
       map_of (db_cursors db) ++ map_of (rev (map (\<lambda>row. (fst row, as_i64 (floor_row c row))) snap))"
  by (simp add: write_rows_fold map_of_fold_insert del: fold_map)

lemma maps_ok_persist [simp]: "maps_ok st \<Longrightarrow> maps_ok (snd (persist_snapshot ok snap st))"
  using write_rows_view [of "ck_db st" "ck_cursors st" snap]
    write_kv_view [of "write_rows (ck_cursors st) snap (ck_db st)" "ck_kv_dirty st"]
  by (simp add: maps_ok_def persist_snapshot_def Let_def)

lemma mem_cursor_persist [simp]: "mem_cursor (snd (persist_snapshot ok snap st)) = mem_cursor st"
  by (simp add: mem_cursor_def persist_snapshot_def Let_def)

lemma mem_cursor_get [simp]: "mem_cursor (snd (ckpt_kv_get ok st m k)) = mem_cursor st"
  by (simp add: mem_cursor_def ckpt_kv_get_def Let_def split: option.split)

lemma ck_db_get [simp]: "ck_db (snd (ckpt_kv_get ok st m k)) = ck_db st"
  by (simp add: ckpt_kv_get_def Let_def split: option.split)

lemma maps_ok_get [simp]: "maps_ok st \<Longrightarrow> maps_ok (snd (ckpt_kv_get ok st m k))"
  by (auto simp: ckpt_kv_get_def maps_ok_def Let_def split: option.split)

lemma mem_cursor_set [simp]: "mem_cursor (ckpt_kv_set st m k v) = mem_cursor st"
  by (simp add: mem_cursor_def ckpt_kv_set_def Let_def)

lemma ck_db_set [simp]: "ck_db (ckpt_kv_set st m k v) = ck_db st"
  by (simp add: ckpt_kv_set_def Let_def)

lemma ck_db_ack [simp]: "ck_db (ckpt_ack src sink n st) = ck_db st"
  by (simp add: ckpt_ack_def Let_def)

lemma durable_persist:
  assumes "maps_ok st"
  shows "durable_cursor (snd (persist_snapshot True snap st)) k =
     (case map_of (rev snap) k of
        Some n \<Rightarrow> Some (floor_row (ck_cursors st) (k, n)) | None \<Rightarrow> durable_cursor st k)"
proof -
  have "map_of (rev (map (\<lambda>row. (fst row, as_i64 (floor_row (ck_cursors st) row))) snap)) k
      = map_option (\<lambda>n. as_i64 (floor_row (ck_cursors st) (k, n))) (map_of (rev snap) k)"
    using map_of_map_val [of "\<lambda>k n. as_i64 (floor_row (ck_cursors st) (k, n))" "rev snap" k]
    unfolding rev_map case_prod_beta prod.collapse .
  moreover have "db_cursors (ck_db (snd (persist_snapshot True snap st)))
      = db_cursors (write_rows (ck_cursors st) snap (ck_db st))"
    using write_rows_view [of "ck_db st" "ck_cursors st" snap]
      write_kv_view [of "write_rows (ck_cursors st) snap (ck_db st)" "ck_kv_dirty st"] assms
    by (simp add: persist_snapshot_def Let_def maps_okD write_rows_def)
  ultimately show ?thesis
    using write_rows_view [of "ck_db st" "ck_cursors st" snap] assms
    by (simp add: durable_cursor_def maps_okD map_add_def split: option.split)
qed

lemma durable_persist_failed [simp]:
  "ck_db (snd (persist_snapshot False snap st)) = ck_db st"
  by (simp add: persist_snapshot_def Let_def)

definition stored_ok :: "'b ckpt \<Rightarrow> bool" where
  "stored_ok st = (\<forall>k i. map_of (db_cursors (ck_db st)) k = Some i \<longrightarrow> as_i64 (of_i64 i) = i)"

lemma as_i64_less: "small a \<Longrightarrow> small b \<Longrightarrow> as_i64 a < as_i64 b \<longleftrightarrow> a < b"
  by (simp add: as_i64_small word_less_def)

lemma durable_lower:
  assumes "small n" "\<And>d. durable_cursor st k = Some d \<Longrightarrow> small d" "stored_ok st"
  shows "map_option of_i64 (map_of (db_cursors (sql_lower_cursor k (as_i64 n) (ck_db st))) k') =
     (if k' = k then map_option (min n) (durable_cursor st k') else durable_cursor st k')"
proof (cases "map_of (db_cursors (ck_db st)) k'")
  case (Some i)
  have i: "as_i64 (of_i64 i) = i" using assms(3) Some by (simp add: stored_ok_def)
  have "of_i64 (if k' = k \<and> as_i64 n < i then as_i64 n else i)
      = (if k' = k then min n (of_i64 i) else of_i64 i)"
  proof (cases "k' = k")
    case True
    then have "small (of_i64 i)" using assms(2) Some by (simp add: durable_cursor_def)
    then have "as_i64 n < i \<longleftrightarrow> n < of_i64 i" using as_i64_less [OF assms(1)] i by metis
    then show ?thesis using True by (auto simp: min_def)
  qed simp
  then show ?thesis using Some
    by (auto simp: sql_lower_cursor_def map_of_map_val durable_cursor_def)
qed (auto simp: sql_lower_cursor_def map_of_map_val durable_cursor_def)

section \<open>Reachable stores\<close>

text \<open>
  A store together with the snapshot that a tick has taken and not yet persisted.  Other
  tasks acknowledge, rewind (the database write succeeding) and use the key-value store in
  between; a crash loses the memory and reopens the file.
\<close>

inductive ck_reach :: "'b ckpt \<Rightarrow> snapshot option \<Rightarrow> bool" where
  fresh: "ck_reach (ckpt_open None) None"
| ack: "ck_reach st p \<Longrightarrow> small n \<Longrightarrow> ck_reach (ckpt_ack src sink n st) p"
| rewind: "ck_reach st p \<Longrightarrow> small n \<Longrightarrow> ck_reach (snd (ckpt_rewind True src sink n st)) p"
| snap: "ck_reach st p \<Longrightarrow> ck_reach st (Some (ckpt_snapshot st))"
| persist: "ck_reach st (Some s) \<Longrightarrow> ck_reach (snd (persist_snapshot ok s st)) None"
| get: "ck_reach st p \<Longrightarrow> ck_reach (snd (ckpt_kv_get ok st m k)) p"
| set: "ck_reach st p \<Longrightarrow> ck_reach (ckpt_kv_set st m k v) p"
| crash: "ck_reach st p \<Longrightarrow> ck_reach (ckpt_open (Some (ck_db st))) None"

definition pending :: "snapshot option \<Rightarrow> cursor_key \<rightharpoonup> u64" where
  "pending p = (case p of None \<Rightarrow> Map.empty | Some s \<Rightarrow> map_of (rev s))"

text \<open>The relation between the cursors in memory, on disk and in a pending snapshot.\<close>

definition cursors_inv ::
  "('k \<rightharpoonup> u64) \<Rightarrow> ('k \<rightharpoonup> u64) \<Rightarrow> ('k \<rightharpoonup> u64) \<Rightarrow> bool" where
  "cursors_inv M D P =
     ((\<forall>k m. M k = Some m \<longrightarrow> small m)
      \<and> (\<forall>k d. D k = Some d \<longrightarrow> (\<exists>m. M k = Some m \<and> d \<le> m))
      \<and> (\<forall>k n. P k = Some n \<longrightarrow> small n \<and> M k \<noteq> None))"

definition ckpt_inv :: "'b ckpt \<Rightarrow> snapshot option \<Rightarrow> bool" where
  "ckpt_inv st p =
     (maps_ok st \<and> stored_ok st \<and> cursors_inv (mem_cursor st) (durable_cursor st) (pending p))"

lemma cursors_inv_ack:
  "cursors_inv M D P \<Longrightarrow> small n \<Longrightarrow> cursors_inv (M(k \<mapsto> max n (unwrap_or 0 (M k)))) D P"
  by (cases "M k") (fastforce simp: cursors_inv_def small_def [of 0] max_def split: if_splits)+

lemma cursors_inv_rewind:
  assumes "cursors_inv M D P" "small n"
  shows "cursors_inv (M(k \<mapsto> min n (unwrap_or n (M k)))) (D(k := map_option (min n) (D k))) P"
proof -
  have "small (min n m)" for m
    using assms(2) small_mono [of "min n m" n] by simp
  moreover have "\<exists>m. (M(k \<mapsto> min n (unwrap_or n (M k)))) k' = Some m \<and> d \<le> m"
    if d: "(D(k := map_option (min n) (D k))) k' = Some d" for k' d
  proof (cases "k' = k")
    case True
    then obtain d0 where "D k = Some d0" "d = min n d0" using d by auto
    moreover obtain m where "M k = Some m" "d0 \<le> m"
      using \<open>D k = Some d0\<close> assms(1) unfolding cursors_inv_def by blast
    ultimately show ?thesis using True by (simp add: min.coboundedI2)
  qed (use d assms(1) in \<open>simp add: cursors_inv_def\<close>)
  ultimately show ?thesis using assms(1) unfolding cursors_inv_def by auto
qed

lemma cursors_inv_persist:
  assumes c: "cursors_inv M D P"
    and D': "\<And>k. D' k = (case P k of
        Some n \<Rightarrow> Some (case M k of Some cur \<Rightarrow> min n cur | None \<Rightarrow> n) | None \<Rightarrow> D k)"
  shows "cursors_inv M D' Map.empty"
proof -
  have "\<exists>m. M k = Some m \<and> d \<le> m" if "D' k = Some d" for k d
  proof (cases "P k")
    case None
    then show ?thesis using that c by (simp add: D' cursors_inv_def)
  next
    case (Some n)
    then obtain m where "M k = Some m" using c unfolding cursors_inv_def by blast
    then show ?thesis using that Some by (auto simp: D')
  qed
  then show ?thesis using c by (simp add: cursors_inv_def)
qed

lemma cursors_inv_small: "cursors_inv M D P \<Longrightarrow> D k = Some d \<Longrightarrow> small d"
proof -
  assume c: "cursors_inv M D P" and "D k = Some d"
  then obtain m where "M k = Some m" "d \<le> m" unfolding cursors_inv_def by blast
  then show ?thesis using c small_mono [of d m] unfolding cursors_inv_def by blast
qed

lemma cursors_inv_crash: "cursors_inv M D P \<Longrightarrow> cursors_inv D D Map.empty"
proof -
  assume c: "cursors_inv M D P"
  have "\<forall>k d. D k = Some d \<longrightarrow> small d" using cursors_inv_small [OF c] by blast
  then show ?thesis unfolding cursors_inv_def by auto
qed

lemma cursors_inv_snap: "cursors_inv M D P \<Longrightarrow> (\<And>k n. P' k = Some n \<Longrightarrow> M k = Some n) \<Longrightarrow> cursors_inv M D P'"
  by (auto simp: cursors_inv_def)

lemma maps_ok_open [simp]: "btm_ok (db_cursors db) \<Longrightarrow> btm_ok (db_kv db) \<Longrightarrow> maps_ok (ckpt_open (Some db))"
  by (simp add: maps_ok_def ckpt_open_def)

lemma mem_cursor_open:
  "btm_ok (db_cursors db) \<Longrightarrow>
   mem_cursor (ckpt_open (Some db)) k = map_option of_i64 (map_of (db_cursors db) k)"
  using map_of_map_val [of "\<lambda>_. of_i64" "db_cursors db" k]
    btm_ok_map_val [of "db_cursors db" "\<lambda>_. of_i64"]
  by (simp add: mem_cursor_def ckpt_open_def)

lemma durable_cong: "ck_db st = ck_db st' \<Longrightarrow> durable_cursor st = durable_cursor st'"
  by (simp add: durable_cursor_def fun_eq_iff)

lemma stored_cong: "ck_db st = ck_db st' \<Longrightarrow> stored_ok st = stored_ok st'"
  by (simp add: stored_ok_def)

lemma durable_open [simp]: "durable_cursor (ckpt_open (Some (ck_db st))) = durable_cursor st"
  by (rule durable_cong) (simp add: ckpt_open_def Let_def)

lemma ck_db_open [simp]: "ck_db (ckpt_open (Some db)) = db"
  by (simp add: ckpt_open_def Let_def)

lemma ck_db_rewind:
  "ck_db (snd (ckpt_rewind True src sink n st)) = sql_lower_cursor (src, sink) (as_i64 n) (ck_db st)"
  by (simp add: ckpt_rewind_def rewind_memory_def Let_def)

lemma mem_cursor_rewind_step:
  "maps_ok st \<Longrightarrow> mem_cursor (snd (ckpt_rewind ok src sink n st)) =
     (mem_cursor st)((src, sink) \<mapsto> min n (unwrap_or n (mem_cursor st (src, sink))))"
  using mem_cursor_rewind [of st src sink n]
  by (auto simp: ckpt_rewind_def Let_def mem_cursor_def)

lemma stored_rewind: "stored_ok st \<Longrightarrow> stored_ok (snd (ckpt_rewind True src sink n st))"
  by (auto simp: stored_ok_def ck_db_rewind sql_lower_cursor_def map_of_map_val)

lemma stored_persist:
  assumes "maps_ok st" "stored_ok st"
  shows "stored_ok (snd (persist_snapshot ok s st))"
proof -
  have "stored_ok (st \<lparr> ck_kv_dirty := [], ck_db := write_kv dirty (write_rows c s (ck_db st)) \<rparr>)"
    for c dirty
    using assms write_rows_view [of "ck_db st" c s] write_kv_view [of "write_rows c s (ck_db st)" dirty]
    by (auto simp: stored_ok_def maps_okD map_add_Some_iff
        dest!: map_of_SomeD [of "rev xs" for xs])
  then show ?thesis using assms by (simp add: persist_snapshot_def Let_def stored_ok_def)
qed

lemma ckpt_db_unchanged [simp]:
  "durable_cursor (ckpt_ack src sink n st) = durable_cursor st"
  "stored_ok (ckpt_ack src sink n st) = stored_ok st"
  "durable_cursor (snd (ckpt_kv_get ok st m k)) = durable_cursor st"
  "stored_ok (snd (ckpt_kv_get ok st m k)) = stored_ok st"
  "durable_cursor (ckpt_kv_set st m k v) = durable_cursor st"
  "stored_ok (ckpt_kv_set st m k v) = stored_ok st"
  "stored_ok (ckpt_open (Some (ck_db st))) = stored_ok st"
  by (simp_all add: durable_cursor_def fun_eq_iff stored_ok_def)

lemma ckpt_inv_fresh: "ckpt_inv (ckpt_open None) None"
  by (simp add: ckpt_inv_def ckpt_open_def maps_ok_def empty_db_def mem_cursor_def stored_ok_def
      cursors_inv_def pending_def durable_cursor_def)

lemma ckpt_inv_rewind:
  assumes "ckpt_inv st p" "small n"
  shows "ckpt_inv (snd (ckpt_rewind True src sink n st)) p"
proof -
  let ?k = "(src, sink)" and ?st = "snd (ckpt_rewind True src sink n st)"
  have c: "cursors_inv (mem_cursor st) (durable_cursor st) (pending p)" and ok: "maps_ok st"
    and sto: "stored_ok st" using assms(1) by (simp_all add: ckpt_inv_def)
  have "small d" if "durable_cursor st ?k = Some d" for d
    using cursors_inv_small [OF c that] .
  then have "durable_cursor ?st k = ((durable_cursor st)(?k := map_option (min n) (durable_cursor st ?k))) k" for k
    using durable_lower [OF assms(2) _ sto, of ?k k]
    by (simp add: durable_cursor_def [of ?st] ck_db_rewind)
  then have "durable_cursor ?st = (durable_cursor st)(?k := map_option (min n) (durable_cursor st ?k))"
    by (rule ext)
  then show ?thesis
    using cursors_inv_rewind [OF c assms(2), of ?k] ok sto
    by (simp add: ckpt_inv_def mem_cursor_rewind_step stored_rewind)
qed

lemma ckpt_inv_persist:
  assumes "ckpt_inv st (Some s)"
  shows "ckpt_inv (snd (persist_snapshot ok s st)) None"
proof -
  have c: "cursors_inv (mem_cursor st) (durable_cursor st) (pending (Some s))" and ok: "maps_ok st"
    and sto: "stored_ok st" using assms by (simp_all add: ckpt_inv_def)
  have "cursors_inv (mem_cursor st) (durable_cursor (snd (persist_snapshot ok s st))) Map.empty"
  proof (cases ok)
    case True
    show ?thesis
      by (rule cursors_inv_persist [OF c])
        (simp add: True durable_persist [OF \<open>maps_ok st\<close>] pending_def floor_row_def
          mem_cursor_def cong: option.case_cong)
  next
    case False
    then have "durable_cursor (snd (persist_snapshot ok s st)) = durable_cursor st"
      by (intro durable_cong) simp
    then show ?thesis using c by (simp add: cursors_inv_def)
  qed
  then show ?thesis using stored_persist [OF \<open>maps_ok st\<close> sto] \<open>maps_ok st\<close>
    by (simp add: ckpt_inv_def pending_def)
qed

lemma ckpt_inv_reach: "ck_reach st p \<Longrightarrow> ckpt_inv st p"
proof (induction rule: ck_reach.induct)
  case fresh
  show ?case by (rule ckpt_inv_fresh)
next
  case (ack st p n src sink)
  then show ?case
    using cursors_inv_ack [of "mem_cursor st" "durable_cursor st" "pending p" n "(src, sink)"]
    by (simp add: ckpt_inv_def mem_cursor_ack)
next
  case (rewind st p n src sink)
  then show ?case by (simp add: ckpt_inv_rewind)
next
  case (snap st p)
  have "btm_ok (ck_cursors st)" using snap by (simp add: ckpt_inv_def maps_okD)
  then have "mem_cursor st k = Some n" if "pending (Some (ckpt_snapshot st)) k = Some n" for k n
    using that by (auto simp: pending_def ckpt_snapshot_def mem_cursor_def btm_set_map_of [symmetric]
        dest!: map_of_SomeD)
  then show ?case using snap cursors_inv_snap unfolding ckpt_inv_def by blast
next
  case (persist st s ok)
  then show ?case by (simp add: ckpt_inv_persist)
next
  case (get st p ok m k)
  then show ?case
    by (simp add: ckpt_inv_def)
next
  case (set st p m k v)
  then show ?case
    by (simp add: ckpt_inv_def maps_ok_set)
next
  case (crash st p)
  then have ok: "maps_ok st" by (simp add: ckpt_inv_def)
  have "mem_cursor (ckpt_open (Some (ck_db st))) = durable_cursor st"
    using ok by (simp add: fun_eq_iff mem_cursor_open maps_okD durable_cursor_def)
  then show ?case using crash ok cursors_inv_crash
    by (auto simp: ckpt_inv_def maps_okD pending_def stored_ok_def)
qed

end
