(* ===== verification/Secret.thy ===== *)
theory Secret
  imports Json
begin

text \<open>
  Secret references: \<open>crates/engine/src/config/secret.rs\<close>, and \<open>referenced_secrets\<close> of
  \<open>config/mod.rs\<close>.  The secret source (the environment) is a function from names to
  values.  A \<open>BTreeSet\<close> is an ordered map to unit.
\<close>

type_synonym secret_source = "string \<Rightarrow> string option"

type_synonym 'k bts = "('k, unit) btm"

definition bts_insert :: "'k::linorder \<Rightarrow> 'k bts \<Rightarrow> 'k bts" where
  "bts_insert x s = btm_insert x () s"

definition bts_set :: "'k bts \<Rightarrow> 'k set" where
  "bts_set s = fst ` set s"

lemma bts_set_insert [simp]: "bts_set (bts_insert x s) = insert x (bts_set s)"
  by (simp add: bts_set_def bts_insert_def)

lemma bts_set_Nil [simp]: "bts_set [] = {}"
  by (simp add: bts_set_def)

text \<open>The environment of \<open>EnvSecrets\<close>.\<close>

definition env_secrets :: "(string \<Rightarrow> string option) \<Rightarrow> secret_source" where
  "env_secrets env name = env (''HYPERPIPE_SECRET_'' @ name)"

record resolution =
  missing :: "string bts"
  resolved :: "(string \<times> string) list"

definition resolution_empty :: resolution where
  "resolution_empty = \<lparr> missing = [], resolved = [] \<rparr>"

definition secret_open :: string where
  "secret_open = ''${secret:''"

definition secret_ref :: "string \<Rightarrow> string" where
  "secret_ref name = secret_open @ name @ ''}''"

lemma secret_open_not_Nil [simp]: "secret_open \<noteq> []"
  by (simp add: secret_open_def)

lemma split_ref_shorter:
  "split_once secret_open rest = Some (before, after) \<Longrightarrow> split_once ''}'' after = Some (name, rest')
   \<Longrightarrow> length rest' < length rest"
  by (drule split_once_length, drule split_once_length) (simp add: secret_open_def)

definition substitute :: "secret_source \<Rightarrow> string \<Rightarrow> resolution \<Rightarrow> string \<times> resolution" where
  "substitute src name res =
     (case src name of
        Some val \<Rightarrow> (val, res \<lparr> resolved := resolved res @ [(name, val)] \<rparr>)
      | None \<Rightarrow> (secret_ref name, res \<lparr> missing := bts_insert name (missing res) \<rparr>))"

function replace_loop ::
  "secret_source \<Rightarrow> string \<Rightarrow> string \<Rightarrow> resolution \<Rightarrow> string \<times> resolution" where
  "replace_loop src out rest res =
     (case split_once secret_open rest of
        None \<Rightarrow> (out @ rest, res)
      | Some (before, after) \<Rightarrow>
          (case split_once ''}'' after of
             None \<Rightarrow> (out @ before @ secret_open @ after, res)
           | Some (name, rest') \<Rightarrow>
               (case substitute src name res of
                  (txt, res') \<Rightarrow> replace_loop src (out @ before @ txt) rest' res')))"
  by pat_completeness auto
termination
  by (relation "measure (\<lambda>(_, _, rest, _). length rest)") (auto dest: split_ref_shorter)

declare replace_loop.simps [simp del]

definition replace_refs :: "secret_source \<Rightarrow> string \<Rightarrow> resolution \<Rightarrow> string option \<times> resolution" where
  "replace_refs src s res =
     (if \<not> str_contains secret_open s then (None, res)
      else case replace_loop src [] s res of (out, res') \<Rightarrow> (Some out, res'))"

text \<open>The walk over a document: string leaves in order; object keys are left alone.\<close>

fun walk :: "secret_source \<Rightarrow> json \<Rightarrow> resolution \<Rightarrow> json \<times> resolution"
  and walk_list :: "secret_source \<Rightarrow> json list \<Rightarrow> resolution \<Rightarrow> json list \<times> resolution"
  and walk_fields :: "secret_source \<Rightarrow> (string \<times> json) list \<Rightarrow> resolution \<Rightarrow> (string \<times> json) list \<times> resolution"
where
  "walk src (JStr s) res =
     (case replace_refs src s res of (r, res') \<Rightarrow> (JStr (unwrap_or s r), res'))"
| "walk src (JArr vs) res = (case walk_list src vs res of (vs', res') \<Rightarrow> (JArr vs', res'))"
| "walk src (JObj m) res = (case walk_fields src m res of (m', res') \<Rightarrow> (JObj m', res'))"
| "walk src JNull res = (JNull, res)"
| "walk src (JBool b) res = (JBool b, res)"
| "walk src (JNum n) res = (JNum n, res)"
| "walk_list src [] res = ([], res)"
| "walk_list src (v # vs) res =
     (case walk src v res of (v', res1) \<Rightarrow>
      case walk_list src vs res1 of (vs', res2) \<Rightarrow> (v' # vs', res2))"
| "walk_fields src [] res = ([], res)"
| "walk_fields src ((k, v) # m) res =
     (case walk src v res of (v', res1) \<Rightarrow>
      case walk_fields src m res1 of (m', res2) \<Rightarrow> ((k, v') # m', res2))"

definition resolve_in_place_report :: "secret_source \<Rightarrow> json \<Rightarrow> json \<times> resolution" where
  "resolve_in_place_report src v = walk src v resolution_empty"

definition resolve_in_place :: "secret_source \<Rightarrow> json \<Rightarrow> json \<times> string bts" where
  "resolve_in_place src v =
     (case resolve_in_place_report src v of (v', res) \<Rightarrow> (v', missing res))"

text \<open>Longest values first; the sort is stable.\<close>

definition redact :: "resolution \<Rightarrow> string \<Rightarrow> string" where
  "redact res text =
     fold (\<lambda>(name, value) out. replace_all value (secret_ref name) out)
       (sort_key (\<lambda>(name, value). - int (length value)) (filter (\<lambda>(_, v). v \<noteq> []) (resolved res)))
       text"

function referenced_loop :: "string \<Rightarrow> string bts \<Rightarrow> string bts" where
  "referenced_loop rest out =
     (case split_once secret_open rest of
        None \<Rightarrow> out
      | Some (before, after) \<Rightarrow>
          (case split_once ''}'' after of
             None \<Rightarrow> out
           | Some (name, rest') \<Rightarrow> referenced_loop rest' (bts_insert name out)))"
  by pat_completeness auto
termination
  by (relation "measure (\<lambda>(rest, _). length rest)") (auto dest: split_ref_shorter)

declare referenced_loop.simps [simp del]

definition referenced_secrets :: "string \<Rightarrow> string bts" where
  "referenced_secrets text = referenced_loop text []"

section \<open>A reference semantics\<close>

text \<open>
  A string is literal text and references in turn; a document's references are those of its
  string leaves.
\<close>

datatype token = Lit string | Ref string

function tokens :: "string \<Rightarrow> token list" where
  "tokens s =
     (case split_once secret_open s of
        None \<Rightarrow> [Lit s]
      | Some (before, after) \<Rightarrow>
          (case split_once ''}'' after of
             None \<Rightarrow> [Lit s]
           | Some (name, rest) \<Rightarrow> Lit before # Ref name # tokens rest))"
  by pat_completeness auto
termination by (relation "measure length") (auto dest: split_ref_shorter)

declare tokens.simps [simp del]

fun render :: "(string \<Rightarrow> string) \<Rightarrow> token \<Rightarrow> string" where
  "render f (Lit s) = s"
| "render f (Ref n) = f n"

definition value_of :: "secret_source \<Rightarrow> string \<Rightarrow> string" where
  "value_of src name = (case src name of Some v \<Rightarrow> v | None \<Rightarrow> secret_ref name)"

definition subst_str :: "secret_source \<Rightarrow> string \<Rightarrow> string" where
  "subst_str src s = concat (map (render (value_of src)) (tokens s))"

fun subst_json :: "secret_source \<Rightarrow> json \<Rightarrow> json" where
  "subst_json src (JStr s) = JStr (subst_str src s)"
| "subst_json src (JArr vs) = JArr (map (subst_json src) vs)"
| "subst_json src (JObj m) = JObj (map (\<lambda>(k, v). (k, subst_json src v)) m)"
| "subst_json src v = v"

definition refs_str :: "string \<Rightarrow> string list" where
  "refs_str s = concat (map (\<lambda>t. case t of Ref n \<Rightarrow> [n] | Lit _ \<Rightarrow> []) (tokens s))"

fun refs_json :: "json \<Rightarrow> string list" where
  "refs_json (JStr s) = refs_str s"
| "refs_json (JArr vs) = concat (map refs_json vs)"
| "refs_json (JObj m) = concat (map (\<lambda>(k, v). refs_json v) m)"
| "refs_json v = []"

text \<open>What a pass adds to a resolution: the references it met, in order.\<close>

definition add_refs :: "secret_source \<Rightarrow> string list \<Rightarrow> resolution \<Rightarrow> resolution" where
  "add_refs src names res = fold (\<lambda>n res. snd (substitute src n res)) names res"

lemma add_refs_append [simp]: "add_refs src (a @ b) res = add_refs src b (add_refs src a res)"
  by (simp add: add_refs_def)

lemma add_refs_Nil [simp]: "add_refs src [] res = res"
  by (simp add: add_refs_def)

lemma substitute_value: "substitute src n res = (value_of src n, snd (substitute src n res))"
  by (simp add: substitute_def value_of_def split: option.split)

lemma replace_loop_tokens:
  "replace_loop src out s res =
     (out @ concat (map (render (value_of src)) (tokens s)), add_refs src (refs_str s) res)"
proof (induction s arbitrary: out res rule: tokens.induct)
  case (1 s)
  show ?case
  proof (cases "split_once secret_open s")
    case None
    then show ?thesis
      by (simp add: replace_loop.simps tokens.simps [of s] refs_str_def)
  next
    case (Some ba)
    obtain before after where ba: "ba = (before, after)" by (cases ba)
    show ?thesis
    proof (cases "split_once ''}'' after")
      case None
      have eq: "before @ secret_open @ after = s"
        using split_once_Some [of secret_open s before after] Some ba by simp
      have tk: "tokens s = [Lit s]" using Some ba None by (simp add: tokens.simps [of s])
      show ?thesis using Some ba None eq
        by (subst replace_loop.simps) (simp add: tk refs_str_def)
    next
      case (Some nr)
      obtain name rest where nr: "nr = (name, rest)" by (cases nr)
      have split: "split_once secret_open s = Some (before, after)"
        "split_once ''}'' after = Some (name, rest)"
        using \<open>split_once secret_open s = Some ba\<close> ba Some nr by simp_all
      have tk: "tokens s = Lit before # Ref name # tokens rest"
        using split by (simp add: tokens.simps [of s])
      define r where "r = snd (substitute src name res)"
      have sub: "substitute src name res = (value_of src name, r)"
        unfolding r_def by (rule substitute_value)
      have ih: "replace_loop src (out @ before @ value_of src name) rest r =
          ((out @ before @ value_of src name) @ concat (map (render (value_of src)) (tokens rest)),
           add_refs src (refs_str rest) r)"
        using 1 split by blast
      have "add_refs src (refs_str s) res = add_refs src (refs_str rest) r"
        by (simp add: refs_str_def tk add_refs_def r_def)
      then show ?thesis
        by (subst replace_loop.simps) (simp add: split sub ih tk)
    qed
  qed
qed

lemma tokens_no_ref: "\<not> str_contains secret_open s \<Longrightarrow> tokens s = [Lit s]"
  by (cases "split_once secret_open s") (simp_all add: str_contains_def tokens.simps [of s])

lemma replace_refs_tokens:
  "unwrap_or s (fst (replace_refs src s res)) = subst_str src s
   \<and> snd (replace_refs src s res) = add_refs src (refs_str s) res"
  by (simp add: replace_refs_def replace_loop_tokens subst_str_def tokens_no_ref refs_str_def)

lemma walk_spec:
  "walk src v res = (subst_json src v, add_refs src (refs_json v) res)"
  "walk_list src vs res = (map (subst_json src) vs, add_refs src (concat (map refs_json vs)) res)"
  "walk_fields src m res =
     (map (\<lambda>(k, v). (k, subst_json src v)) m,
      add_refs src (concat (map (\<lambda>(k, v). refs_json v) m)) res)"
proof (induction src v res and src vs res and src m res
    rule: walk_walk_list_walk_fields.induct)
  case (1 src s res)
  then show ?case using replace_refs_tokens [of s src res] by (cases "replace_refs src s res") simp
qed simp_all

lemma bts_set_add_refs:
  "bts_set (missing (add_refs src names res)) =
     bts_set (missing res) \<union> {n \<in> set names. src n = None}"
  by (induction names arbitrary: res)
    (auto simp: add_refs_def substitute_def split: option.splits)

lemma resolved_add_refs:
  "resolved (add_refs src names res) =
     resolved res @ List.map_filter (\<lambda>n. map_option (\<lambda>v. (n, v)) (src n)) names"
  by (induction names arbitrary: res)
    (auto simp: add_refs_def substitute_def List.map_filter_simps split: option.splits)

lemma referenced_loop_tokens: "bts_set (referenced_loop s out) = bts_set out \<union> set (refs_str s)"
proof (induction s out rule: referenced_loop.induct)
  case (1 rest out)
  then show ?case
    by (subst referenced_loop.simps)
      (auto simp: refs_str_def tokens.simps [of rest] split: option.splits)
qed

section \<open>Properties\<close>

text \<open>
  C27: one pass over a document substitutes every reference of every string leaf and
  nothing else, reports exactly the unresolvable names, and records exactly the values it
  substituted, in order.
\<close>

theorem resolve_is_exact:
  "resolve_in_place_report src doc = (doc', res) \<longleftrightarrow>
     doc' = subst_json src doc \<and> res = add_refs src (refs_json doc) resolution_empty
     \<and> bts_set (missing res) = {n \<in> set (refs_json doc). src n = None}
     \<and> resolved res = List.map_filter (\<lambda>n. map_option (\<lambda>v. (n, v)) (src n)) (refs_json doc)"
  by (auto simp: resolve_in_place_report_def walk_spec bts_set_add_refs resolved_add_refs
      resolution_empty_def)

end
