(* ===== verification/Config.thy ===== *)
theory Config
  imports ConfigTypes Secret
begin

text \<open>
  Loading and validating a pipeline: \<open>crates/engine/src/config/mod.rs\<close> and
  \<open>config/chains.rs\<close> with the bundled \<open>chains.toml\<close>.  A formatted error message is a
  constructor with the values it quotes.
\<close>

section \<open>The chain registry\<close>

record chain_entry =
  ce_chain_id :: u64
  ce_url :: string

type_synonym chain_registry = "(string, chain_entry) btm"

definition chain_registry_builtin :: chain_registry where
  "chain_registry_builtin = btm_of_list
     [(''ethereum'', \<lparr> ce_chain_id = 1, ce_url = ''https://eth.hypersync.xyz'' \<rparr>),
      (''base'', \<lparr> ce_chain_id = 8453, ce_url = ''https://base.hypersync.xyz'' \<rparr>),
      (''arbitrum'', \<lparr> ce_chain_id = 42161, ce_url = ''https://arbitrum.hypersync.xyz'' \<rparr>),
      (''optimism'', \<lparr> ce_chain_id = 10, ce_url = ''https://optimism.hypersync.xyz'' \<rparr>),
      (''polygon'', \<lparr> ce_chain_id = 137, ce_url = ''https://polygon.hypersync.xyz'' \<rparr>)]"

definition chain_lookup :: "chain_registry \<Rightarrow> string \<Rightarrow> chain_entry option" where
  "chain_lookup reg name = map_of reg name"

definition chain_names :: "chain_registry \<Rightarrow> string list" where
  "chain_names reg = map fst reg"

section \<open>Errors\<close>

datatype config_error =
    IoError string string
  | ParseError string
  | MissingSecrets "string list"
  | NoSources
  | NoSinks
  | DuplicateNode string
  | UnsupportedType string string
  | UnknownChain string string "string list"
  | ChainIdWithoutUrl string u64
  | UrlWithoutChainId string
  | NoEndpoint string
  | BackfillNeedsToBlock string
  | LiveForbidsToBlock string
  | EmptyRange string u64 u64
  | ReorgWindowZero string
  | ReorgWindowLarge string u64
  | Unconfirmed string
  | NoInputs string
  | UnknownInput string string
  | SinkAsInput string string
  | SelfInput string
  | OrphanProcessor string
  | OrphanSource string
  | CycleInDag "string list"
  | BadModuleRef string string
  | UnknownConnection string string
  | ConnectionNotGranted string string
  | PostgresNeedsConnection string
  | PostgresNeedsDsn string

type_synonym 'a cfg = "config_error + 'a"

section \<open>Module references\<close>

definition parse_builtin_ref :: "string \<Rightarrow> (string \<times> u32) option" where
  "parse_builtin_ref s =
     (case strip_prefix ''builtin/'' s of
        None \<Rightarrow> None
      | Some rest \<Rightarrow>
          (case split_once ''@'' rest of
             None \<Rightarrow> None
           | Some (name, major) \<Rightarrow>
               if name = [] then None else map_option (\<lambda>m. (name, m)) (parse_u32 major)))"

fun builtin_parts :: "module_ref \<Rightarrow> (string \<times> u32) option" where
  "builtin_parts (Builtin s) = parse_builtin_ref s"
| "builtin_parts (File _) = None"

fun module_display :: "module_ref \<Rightarrow> string" where
  "module_display (Builtin s) = s"
| "module_display (File f) = ''file:'' @ f"

section \<open>Endpoints\<close>

definition resolve_endpoint :: "source_cfg \<Rightarrow> chain_registry \<Rightarrow> resolved_endpoint cfg" where
  "resolve_endpoint s reg =
     (case (src_chain s, src_chain_id s, src_url s) of
        (_, Some cid, Some url) \<Rightarrow> Inr \<lparr> ep_chain_id = cid, ep_url = url \<rparr>
      | (Some name, cid, url) \<Rightarrow>
          (case chain_lookup reg name of
             None \<Rightarrow> Inl (UnknownChain (src_name s) name (chain_names reg))
           | Some entry \<Rightarrow>
               Inr \<lparr> ep_chain_id = unwrap_or (ce_chain_id entry) cid,
                     ep_url = unwrap_or (ce_url entry) url \<rparr>)
      | (None, Some cid, None) \<Rightarrow> Inl (ChainIdWithoutUrl (src_name s) cid)
      | (None, None, Some _) \<Rightarrow> Inl (UrlWithoutChainId (src_name s))
      | (None, None, None) \<Rightarrow> Inl (NoEndpoint (src_name s)))"

section \<open>Cycle detection\<close>

datatype color = White | Gray | Black

type_synonym graph = "(string, string list) btm"

definition succs :: "graph \<Rightarrow> string \<Rightarrow> string list" where
  "succs g n = unwrap_or [] (map_of g n)"

definition color_of :: "(string \<rightharpoonup> color) \<Rightarrow> string \<Rightarrow> color" where
  "color_of col n = unwrap_or White (col n)"

text \<open>The slice of the stack from the back edge's target on, closed by the target.\<close>

fun cycle_from :: "string \<Rightarrow> string list \<Rightarrow> string list" where
  "cycle_from c [] = []"
| "cycle_from c (x # xs) = (if x = c then x # xs else cycle_from c xs)"

definition report_cycle :: "string \<Rightarrow> string list \<Rightarrow> string list" where
  "report_cycle c stack = (if c \<in> set stack then cycle_from c stack else stack) @ [c]"

text \<open>
  The recursive search; the first argument bounds the depth of the recursion (\<open>None\<close> fail_if it
  runs out), the loop over the consumers of a node is \<open>dfs_each\<close>.
\<close>

fun dfs :: "nat \<Rightarrow> graph \<Rightarrow> string \<Rightarrow> (string \<rightharpoonup> color) \<Rightarrow> string list
      \<Rightarrow> (string \<rightharpoonup> color) cfg option"
  and dfs_each :: "nat \<Rightarrow> graph \<Rightarrow> string list \<Rightarrow> (string \<rightharpoonup> color) \<Rightarrow> string list
      \<Rightarrow> (string \<rightharpoonup> color) cfg option" where
  "dfs 0 g node col stack = None"
| "dfs (Suc n) g node col stack =
     (case dfs_each n g (succs g node) (col(node \<mapsto> Gray)) (stack @ [node]) of
        None \<Rightarrow> None
      | Some (Inl e) \<Rightarrow> Some (Inl e)
      | Some (Inr col') \<Rightarrow> Some (Inr (col'(node \<mapsto> Black))))"
| "dfs_each n g [] col stack = Some (Inr col)"
| "dfs_each n g (c # cs) col stack =
     (case color_of col c of
        Gray \<Rightarrow> Some (Inl (CycleInDag (report_cycle c stack)))
      | Black \<Rightarrow> dfs_each n g cs col stack
      | White \<Rightarrow>
          (case dfs n g c col stack of
             None \<Rightarrow> None
           | Some (Inl e) \<Rightarrow> Some (Inl e)
           | Some (Inr col') \<Rightarrow> dfs_each n g cs col' stack))"

fun detect_loop :: "nat \<Rightarrow> graph \<Rightarrow> string list \<Rightarrow> (string \<rightharpoonup> color) \<Rightarrow> unit cfg option" where
  "detect_loop fuel g [] col = Some (Inr ())"
| "detect_loop fuel g (n # ns) col =
     (if color_of col n = White then
        (case dfs fuel g n col [] of
           None \<Rightarrow> None
         | Some (Inl e) \<Rightarrow> Some (Inl e)
         | Some (Inr col') \<Rightarrow> detect_loop fuel g ns col')
      else detect_loop fuel g ns col)"

text \<open>A path of the search has no repeated node, so the number of nodes bounds its depth.\<close>

definition graph_size :: "string list \<Rightarrow> graph \<Rightarrow> nat" where
  "graph_size nodes g = length nodes + sum_list (map (\<lambda>e. length (snd e)) g)"

definition detect_cycle :: "string list \<Rightarrow> graph \<Rightarrow> unit cfg option" where
  "detect_cycle nodes g =
     detect_loop (Suc (graph_size nodes g)) g nodes (\<lambda>n. if n \<in> set nodes then Some White else None)"

section \<open>Validation\<close>

definition node_list :: "config \<Rightarrow> (string \<times> node_kind) list" where
  "node_list c =
     map (\<lambda>s. (src_name s, SourceNode)) (cfg_sources c)
     @ map (\<lambda>p. (proc_name p, ProcessorNode)) (cfg_processors c)
     @ map (\<lambda>s. (sink_name s, SinkNode)) (cfg_sinks c)"

definition nodes :: "config \<Rightarrow> (string, node_kind) btm" where
  "nodes c = btm_of_list (node_list c)"

fun unique_nodes :: "(string \<times> node_kind) list \<Rightarrow> (string, node_kind) btm \<Rightarrow> (string, node_kind) btm cfg" where
  "unique_nodes [] m = Inr m"
| "unique_nodes ((name, kind) # xs) m =
     (if map_of m name \<noteq> None then Inl (DuplicateNode name)
      else unique_nodes xs (btm_insert name kind m))"

definition fail_if :: "bool \<Rightarrow> config_error \<Rightarrow> unit cfg" where
  "fail_if b e = (if b then Inl e else Inr ())"

definition check_mode :: "source_cfg \<Rightarrow> unit cfg" where
  "check_mode s =
     (case src_mode s of
        Backfill \<Rightarrow> fail_if (src_to_block s = None) (BackfillNeedsToBlock (src_name s))
      | Live \<Rightarrow> fail_if (src_to_block s \<noteq> None) (LiveForbidsToBlock (src_name s))
      | Both \<Rightarrow> Inr ())"

definition check_range :: "source_cfg \<Rightarrow> unit cfg" where
  "check_range s =
     (case (src_from_block s, src_to_block s) of
        (Some f, Some t) \<Rightarrow> fail_if (t \<le> f) (EmptyRange (src_name s) f t)
      | _ \<Rightarrow> Inr ())"

definition check_reorg :: "source_cfg \<Rightarrow> unit cfg" where
  "check_reorg s =
     (if reorg_enabled (src_reorg s) then
        and_then (fail_if (reorg_window (src_reorg s) = 0) (ReorgWindowZero (src_name s)))
          (\<lambda>_. fail_if (10000 < reorg_window (src_reorg s))
                 (ReorgWindowLarge (src_name s) (reorg_window (src_reorg s))))
      else fail_if (src_confirmations s = 0 \<and> src_mode s \<noteq> Backfill) (Unconfirmed (src_name s)))"

definition check_source :: "source_cfg \<Rightarrow> source_cfg cfg" where
  "check_source s =
     and_then (fail_if (src_type s \<noteq> ''hypersync'') (UnsupportedType (src_name s) (src_type s))) (\<lambda>_.
     and_then (resolve_endpoint s chain_registry_builtin) (\<lambda>ep.
     and_then (check_mode s) (\<lambda>_.
     and_then (check_range s) (\<lambda>_.
     and_then (check_reorg s) (\<lambda>_. Inr (s \<lparr> src_resolved := Some ep \<rparr>))))))"

fun check_each :: "('a \<Rightarrow> unit cfg) \<Rightarrow> 'a list \<Rightarrow> unit cfg" where
  "check_each f [] = Inr ()"
| "check_each f (x # xs) = and_then (f x) (\<lambda>_. check_each f xs)"

definition check_input :: "(string, node_kind) btm \<Rightarrow> string \<Rightarrow> string \<Rightarrow> unit cfg" where
  "check_input kinds node inp =
     (case map_of kinds inp of
        None \<Rightarrow> Inl (UnknownInput node inp)
      | Some SinkNode \<Rightarrow> Inl (SinkAsInput node inp)
      | Some _ \<Rightarrow> fail_if (inp = node) (SelfInput node))"

definition check_inputs :: "(string, node_kind) btm \<Rightarrow> string \<times> string list \<Rightarrow> unit cfg" where
  "check_inputs kinds ni =
     (case ni of (node, inputs) \<Rightarrow>
        if inputs = [] then Inl (NoInputs node) else check_each (check_input kinds node) inputs)"

text \<open>Every consumer with its inputs, in the order the code visits them.\<close>

definition consumer_list :: "config \<Rightarrow> (string \<times> string list) list" where
  "consumer_list c =
     map (\<lambda>p. (proc_name p, proc_inputs p)) (cfg_processors c)
     @ map (\<lambda>s. (sink_name s, sink_inputs s)) (cfg_sinks c)"

definition edge_list :: "config \<Rightarrow> (string \<times> string) list" where
  "edge_list c = concat (map (\<lambda>(n, is). map (\<lambda>i. (i, n)) is) (consumer_list c))"

text \<open>\<open>entry(inp).or_default().push(name)\<close>.\<close>

definition push_edge :: "string \<times> string \<Rightarrow> graph \<Rightarrow> graph" where
  "push_edge e g = btm_insert (fst e) (succs g (fst e) @ [snd e]) g"

definition consumers_of :: "config \<Rightarrow> graph" where
  "consumers_of c = fold push_edge (edge_list c) []"

definition module_list :: "config \<Rightarrow> (string \<times> module_ref) list" where
  "module_list c =
     map (\<lambda>p. (proc_name p, proc_module p)) (cfg_processors c)
     @ map (\<lambda>s. (sink_name s, sink_module s)) (cfg_sinks c)"

definition check_module :: "string \<times> module_ref \<Rightarrow> unit cfg" where
  "check_module nm =
     (case snd nm of
        Builtin s \<Rightarrow> fail_if (parse_builtin_ref s = None) (BadModuleRef (fst nm) s)
      | File _ \<Rightarrow> Inr ())"

definition check_grants :: "config \<Rightarrow> sink_cfg \<Rightarrow> unit cfg" where
  "check_grants c s =
     and_then (check_each (\<lambda>conn. fail_if (map_of (cfg_connections c) conn = None)
                 (UnknownConnection (sink_name s) conn)) (sink_connections s)) (\<lambda>_.
       case builtin_parts (sink_module s) of
         Some (mod_name, _) \<Rightarrow>
           if mod_name = ''postgres'' then
             (case jget_str ''connection'' (sink_config s) of
                Some conn \<Rightarrow>
                  fail_if (conn \<notin> set (sink_connections s)) (ConnectionNotGranted (sink_name s) conn)
              | None \<Rightarrow> Inl (PostgresNeedsConnection (sink_name s)))
           else Inr ()
       | None \<Rightarrow> Inr ())"

definition check_connection :: "string \<times> connection \<Rightarrow> unit cfg" where
  "check_connection nc =
     fail_if (conn_type (snd nc) = Postgres \<and> conn_dsn (snd nc) = None) (PostgresNeedsDsn (fst nc))"

text \<open>The search never runs out of depth, so its \<open>None\<close> is never taken.\<close>

definition check_acyclic :: "(string, node_kind) btm \<Rightarrow> graph \<Rightarrow> unit cfg" where
  "check_acyclic kinds g = unwrap_or (Inr ()) (detect_cycle (map fst kinds) g)"

definition validate :: "config \<Rightarrow> config cfg" where
  "validate c =
     and_then (fail_if (cfg_sources c = []) NoSources) (\<lambda>_.
     and_then (fail_if (cfg_sinks c = []) NoSinks) (\<lambda>_.
     and_then (unique_nodes (node_list c) []) (\<lambda>kinds.
     and_then (map_res check_source (cfg_sources c)) (\<lambda>sources.
     and_then (check_each (check_inputs kinds) (consumer_list c)) (\<lambda>_.
     and_then (check_each (\<lambda>p. fail_if (succs (consumers_of c) (proc_name p) = [])
                 (OrphanProcessor (proc_name p))) (cfg_processors c)) (\<lambda>_.
     and_then (check_each (\<lambda>s. fail_if (succs (consumers_of c) (src_name s) = [])
                 (OrphanSource (src_name s))) (cfg_sources c)) (\<lambda>_.
     and_then (check_acyclic kinds (consumers_of c)) (\<lambda>_.
     and_then (check_each check_module (module_list c)) (\<lambda>_.
     and_then (check_each (check_grants c) (cfg_sinks c)) (\<lambda>_.
     and_then (check_each check_connection (cfg_connections c)) (\<lambda>_.
       Inr (c \<lparr> cfg_sources := sources \<rparr>))))))))))))"

definition summary :: "config \<Rightarrow> string" where
  "summary c =
     ''valid: '' @ show_nat (length (cfg_sources c)) @ '' source(s), ''
     @ show_nat (length (cfg_processors c)) @ '' processor(s), ''
     @ show_nat (length (cfg_sinks c)) @ '' sink(s)''"

section \<open>Loading\<close>

text \<open>The YAML parser and the rendering of serde's errors are parameters.\<close>

definition load_str ::
  "(string \<Rightarrow> string + json) \<Rightarrow> (de_error \<Rightarrow> string) \<Rightarrow> secret_source \<Rightarrow> string \<Rightarrow> config cfg" where
  "load_str yaml show_de secrets text =
     (case yaml text of
        Inl e \<Rightarrow> Inl (ParseError e)
      | Inr doc \<Rightarrow>
          (case config_from_value doc of
             Inl e \<Rightarrow> Inl (ParseError (show_de e))
           | Inr _ \<Rightarrow>
               (case resolve_in_place_report secrets doc of
                  (doc', res) \<Rightarrow>
                    if missing res \<noteq> [] then Inl (MissingSecrets (map fst (missing res)))
                    else
                      (case config_from_value doc' of
                         Inl e \<Rightarrow> Inl (ParseError (redact res (show_de e)))
                       | Inr config \<Rightarrow> validate config))))"

end
