(* ===== verification/Sdk.thy ===== *)
theory Sdk
  imports Envelope "HOL-Library.Multiset"
begin

text \<open>
  The guest SDK: \<open>modules/sdk/src/lib.rs\<close>.  The traits \<open>Processor\<close> and \<open>Sink\<close> are locales
  (what a module provides and the contract it has to keep); \<open>export_processor!\<close> and
  \<open>export_sink!\<close> are the glue that every module is wrapped in.  The text layer of the codec
  is a pair of parameters, as in \<open>Envelope\<close>.
\<close>

section \<open>Calls into a guest\<close>

text \<open>
  A call into a WASM guest returns a value, traps (a panic, a denied allocation) or would
  never return.
\<close>

datatype 'a call = Returned 'a | Trapped string | Spins

record 'bytes wire =
  w_encoding :: encoding
  w_data :: 'bytes

fun codec_error_text :: "codec_error \<Rightarrow> string" where
  "codec_error_text (Unsupported e) = ''unsupported encoding for this build: ''"
| "codec_error_text (JsonError s) = ''json: '' @ s"

definition decode_batch :: "('bytes \<Rightarrow> string + json) \<Rightarrow> u8 \<Rightarrow> 'bytes \<Rightarrow> batch res" where
  "decode_batch from_slice tag d =
     (case encoding_from_u8 tag of
        None \<Rightarrow> Inl (''unknown encoding tag '' @ show_nat (unat tag))
      | Some enc \<Rightarrow>
          (case decode from_slice enc d of
             Inl e \<Rightarrow> Inl (codec_error_text e) | Inr b \<Rightarrow> Inr b))"

definition encode_batch :: "(json \<Rightarrow> 'bytes) \<Rightarrow> batch \<Rightarrow> 'bytes res" where
  "encode_batch to_vec b =
     (case encode to_vec Json b of Inl e \<Rightarrow> Inl (codec_error_text e) | Inr d \<Rightarrow> Inr d)"

lemma encode_batch_Inr [simp]: "encode_batch to_vec b = Inr (to_vec (batch_to_value b))"
  by (simp add: encode_batch_def)

lemma decode_batch_Json [simp]:
  "(\<And>v. from_slice (to_vec v) = Inr v)
   \<Longrightarrow> decode_batch from_slice (encoding_as_u8 Json) (to_vec (batch_to_value b)) = Inr b"
  by (simp add: decode_batch_def del: encoding_as_u8.simps)

section \<open>The processor glue\<close>

text \<open>\<open>Guest::init\<close>; an empty configuration is \<open>null\<close>.\<close>

definition guest_init ::
  "(json \<Rightarrow> 'p res) \<Rightarrow> ('bytes \<Rightarrow> string + json) \<Rightarrow> 'bytes option \<Rightarrow> 'p option \<Rightarrow> unit res \<times> 'p option" where
  "guest_init init from_slice config st =
     (let cfg = (case config of
                   None \<Rightarrow> Inr JNull
                 | Some c \<Rightarrow> (case from_slice c of Inl e \<Rightarrow> Inl (''config json: '' @ e) | Inr v \<Rightarrow> Inr v))
      in case and_then cfg init of
           Inl e \<Rightarrow> (Inl e, st)
         | Inr inst \<Rightarrow> (Inr (), Some inst))"

definition to_wire :: "(json \<Rightarrow> 'bytes) \<Rightarrow> batch \<Rightarrow> 'bytes wire" where
  "to_wire to_vec b = \<lparr> w_encoding = Json, w_data = to_vec (batch_to_value b) \<rparr>"

definition guest_process ::
  "('p \<Rightarrow> batch \<Rightarrow> batch list res call \<times> 'p) \<Rightarrow> ('bytes \<Rightarrow> string + json) \<Rightarrow> (json \<Rightarrow> 'bytes)
   \<Rightarrow> 'p option \<Rightarrow> 'bytes wire \<Rightarrow> 'bytes wire list res call \<times> 'p option" where
  "guest_process process from_slice to_vec st input =
     (case decode_batch from_slice (encoding_as_u8 (w_encoding input)) (w_data input) of
        Inl e \<Rightarrow> (Returned (Inl e), st)
      | Inr b \<Rightarrow>
          if is_control b then (Returned (Inr [input]), st)
          else
            (case st of
               None \<Rightarrow> (Returned (Inl ''process called before init''), None)
             | Some inst \<Rightarrow>
                 (case process inst b of
                    (Returned (Inl e), inst') \<Rightarrow> (Returned (Inl e), Some inst')
                  | (Returned (Inr outs), inst') \<Rightarrow>
                      (Returned (Inr (map (to_wire to_vec) outs)), Some inst')
                  | (Trapped m, inst') \<Rightarrow> (Trapped m, Some inst')
                  | (Spins, inst') \<Rightarrow> (Spins, Some inst'))))"

section \<open>The processor contract\<close>

text \<open>
  What the pipeline relies on: every batch a processor derives keeps the identity of its
  input (id, source, chain, range, acknowledgement), and data never turns into control.
\<close>

locale processor =
  fixes init :: "json \<Rightarrow> 'p res"
    and process :: "'p \<Rightarrow> batch \<Rightarrow> batch list res call \<times> 'p"
  assumes keeps_identity:
      "process p b = (Returned (Inr outs), p') \<Longrightarrow> out \<in> set outs \<Longrightarrow> same_identity out b"
    and stays_data:
      "process p b = (Returned (Inr outs), p') \<Longrightarrow> out \<in> set outs \<Longrightarrow> \<not> is_control b \<Longrightarrow> \<not> is_control out"
begin

lemma guest_keeps_identity:
  assumes "\<And>v. from_slice (to_vec v) = Inr v"
    and "decode_batch from_slice (encoding_as_u8 (w_encoding input)) (w_data input) = Inr b"
    and "guest_process process from_slice to_vec st input = (Returned (Inr wires), st')"
    and "wire \<in> set wires"
  shows "\<exists>out. decode_batch from_slice (encoding_as_u8 (w_encoding wire)) (w_data wire) = Inr out
     \<and> same_identity out b \<and> is_control out = is_control b"
proof (cases "is_control b")
  case True
  then show ?thesis using assms by (auto simp: guest_process_def)
next
  case False
  then obtain inst outs p' where "st = Some inst" "process inst b = (Returned (Inr outs), p')"
      "wires = map (to_wire to_vec) outs"
    using assms(2,3)
    by (auto simp: guest_process_def split: option.splits prod.splits call.splits sum.splits)
  moreover from this obtain out where "out \<in> set outs" "wire = to_wire to_vec out"
    using assms(4) by auto
  ultimately show ?thesis
    using keeps_identity stays_data False assms(1) by (auto simp: to_wire_def simp del: encoding_as_u8.simps)
qed

text \<open>A control batch comes out as it went in, byte for byte, whatever the module does.\<close>

lemma control_passes:
  "decode_batch from_slice (encoding_as_u8 (w_encoding input)) (w_data input) = Inr b
   \<Longrightarrow> is_control b
   \<Longrightarrow> guest_process process from_slice to_vec st input = (Returned (Inr [input]), st)"
  by (simp add: guest_process_def)

end

section \<open>The sink glue\<close>

definition guest_write ::
  "('p \<Rightarrow> batch \<Rightarrow> 'w \<Rightarrow> unit res \<times> 'p \<times> 'w) \<Rightarrow> ('p \<Rightarrow> control_record \<Rightarrow> 'w \<Rightarrow> unit res \<times> 'p \<times> 'w)
   \<Rightarrow> ('bytes \<Rightarrow> string + json) \<Rightarrow> 'p option \<Rightarrow> 'bytes wire \<Rightarrow> 'w \<Rightarrow> unit res \<times> 'p option \<times> 'w" where
  "guest_write write on_control from_slice st input w =
     (case decode_batch from_slice (encoding_as_u8 (w_encoding input)) (w_data input) of
        Inl e \<Rightarrow> (Inl e, st, w)
      | Inr b \<Rightarrow>
          (case st of
             None \<Rightarrow> (Inl ''write called before init'', None, w)
           | Some inst \<Rightarrow>
               if is_control b then
                 (case as_control b of
                    Some ctrl \<Rightarrow>
                      (case on_control inst ctrl w of (r, inst', w') \<Rightarrow> (r, Some inst', w'))
                  | None \<Rightarrow> (Inr (), st, w))
               else (case write inst b w of (r, inst', w') \<Rightarrow> (r, Some inst', w'))))"

definition guest_flush ::
  "('p \<Rightarrow> 'w \<Rightarrow> unit res \<times> 'p \<times> 'w) \<Rightarrow> 'p option \<Rightarrow> 'w \<Rightarrow> unit res \<times> 'p option \<times> 'w" where
  "guest_flush flush st w =
     (case st of
        Some inst \<Rightarrow> (case flush inst w of (r, inst', w') \<Rightarrow> (r, Some inst', w'))
      | None \<Rightarrow> (Inr (), None, w))"

text \<open>The defaults of the trait \<open>Sink\<close>.\<close>

definition default_flush :: "'p \<Rightarrow> 'w \<Rightarrow> unit res \<times> 'p \<times> 'w" where
  "default_flush p w = (Inr (), p, w)"

definition default_on_control :: "'p \<Rightarrow> control_record \<Rightarrow> 'w \<Rightarrow> unit res \<times> 'p \<times> 'w" where
  "default_on_control p ctrl w = (Inr (), p, w)"

text \<open>Write in order, stopping at the first error.\<close>

fun write_all :: "('p \<Rightarrow> batch \<Rightarrow> 'w \<Rightarrow> unit res \<times> 'p \<times> 'w) \<Rightarrow> 'p \<Rightarrow> batch list \<Rightarrow> 'w
    \<Rightarrow> unit res \<times> 'p \<times> 'w" where
  "write_all write p [] w = (Inr (), p, w)"
| "write_all write p (b # bs) w =
     (case write p b w of
        (Inr _, p', w') \<Rightarrow> write_all write p' bs w'
      | (Inl e, p', w') \<Rightarrow> (Inl e, p', w'))"

section \<open>The sink contract\<close>

text \<open>
  \<open>delivered\<close> is what the outside has received, \<open>pending\<close> what the instance still holds.
  An accepted write adds exactly the records of the batch to what is held or delivered; a
  successful flush leaves nothing pending and loses nothing.
\<close>

locale buffered_sink =
  fixes sink_write :: "'p \<Rightarrow> batch \<Rightarrow> 'w \<Rightarrow> unit res \<times> 'p \<times> 'w"
    and sink_flush :: "'p \<Rightarrow> 'w \<Rightarrow> unit res \<times> 'p \<times> 'w"
    and delivered :: "'w \<Rightarrow> json multiset"
    and pending :: "'p \<Rightarrow> json multiset"
    and sink_inv :: "'p \<Rightarrow> bool"
  assumes write_keeps:
      "sink_inv p \<Longrightarrow> \<not> is_control b \<Longrightarrow> sink_write p b w = (Inr (), p', w') \<Longrightarrow>
         delivered w' + pending p' = delivered w + pending p + mset (b_records b)"
    and flush_keeps:
      "sink_inv p \<Longrightarrow> sink_flush p w = (Inr (), p', w') \<Longrightarrow>
         pending p' = {#} \<and> delivered w' = delivered w + pending p"
    and write_inv: "sink_inv p \<Longrightarrow> sink_write p b w = (r, p', w') \<Longrightarrow> sink_inv p'"
    and flush_inv: "sink_inv p \<Longrightarrow> sink_flush p w = (r, p', w') \<Longrightarrow> sink_inv p'"
begin

lemma write_all_keeps:
  "sink_inv p \<Longrightarrow> \<forall>b \<in> set bs. \<not> is_control b \<Longrightarrow> write_all sink_write p bs w = (Inr (), p', w') \<Longrightarrow>
   sink_inv p' \<and> delivered w' + pending p' = delivered w + pending p + mset (concat (map b_records bs))"
proof (induction bs arbitrary: p w)
  case (Cons b bs)
  obtain r p1 w1 where s: "sink_write p b w = (r, p1, w1)" by (cases "sink_write p b w") auto
  then have r: "r = Inr ()" "write_all sink_write p1 bs w1 = (Inr (), p', w')"
    using Cons.prems by (cases r; simp)+
  have "delivered w1 + pending p1 = delivered w + pending p + mset (b_records b)" "sink_inv p1"
    using write_keeps write_inv Cons.prems(1,2) s r(1) by auto
  then show ?case using Cons.IH [OF _ _ r(2)] Cons.prems(2) by (simp add: add.assoc)
qed simp

text \<open>Once a flush succeeds after accepted writes, every record is outside, exactly once.\<close>

lemma flushed_all:
  assumes "sink_inv p" "\<forall>b \<in> set bs. \<not> is_control b"
    and "write_all sink_write p bs w = (Inr (), p', w')" "sink_flush p' w' = (Inr (), p'', w'')"
  shows "pending p'' = {#} \<and> delivered w'' = delivered w + pending p + mset (concat (map b_records bs))"
  using write_all_keeps [OF assms(1-3)] flush_keeps [OF _ assms(4)] by simp

end

end
