(* ===== verification/HostImpl.thy ===== *)
theory HostImpl
  imports Json Kv
begin

text \<open>
  The host imports: \<open>crates/wasm-host/src/host_impl.rs\<close>, the only way a module touches the
  outside world.  What leaves the process is recorded as a list of effects; what comes back
  (an HTTP answer, the result of a transaction or an upload) is a function of the effects so
  far.  The URL parser, the HTTP client, the database driver and the object store are
  parameters.
\<close>

section \<open>Metrics\<close>

definition metrics_add :: "string \<Rightarrow> u64 \<Rightarrow> (string, u64) btm \<Rightarrow> (string, u64) btm" where
  "metrics_add name value m = btm_insert name (unwrap_or 0 (map_of m name) + value) m"

section \<open>Capabilities\<close>

text \<open>\<open>Url::parse\<close> gives the scheme and the host, if the URL has one.\<close>

type_synonym url_parser = "string \<Rightarrow> (string \<times> string option) option"

definition url_host :: "url_parser \<Rightarrow> string \<Rightarrow> string option" where
  "url_host parse url =
     (case parse url of
        None \<Rightarrow> None
      | Some (scheme, host) \<Rightarrow>
          if scheme \<noteq> ''http'' \<and> scheme \<noteq> ''https'' then None
          else (case host of None \<Rightarrow> None | Some h \<Rightarrow> if h = [] then None else Some h))"

definition host_allowed_by :: "url_parser \<Rightarrow> string list \<Rightarrow> string \<Rightarrow> bool" where
  "host_allowed_by parse allow url =
     (case url_host parse url of
        Some host \<Rightarrow> list_ex (\<lambda>h. eq_ignore_ascii_case h host) allow
      | None \<Rightarrow> False)"

section \<open>Binding parameters\<close>

datatype bound_param = BindNull | BindBool bool | BindI64 int | BindF64 number | BindText string

text \<open>\<open>as_f64\<close> has a value for every number; the float itself is not modelled.\<close>

fun bind_json :: "(json \<Rightarrow> string) \<Rightarrow> json \<Rightarrow> bound_param" where
  "bind_json to_text JNull = BindNull"
| "bind_json to_text (JBool b) = BindBool b"
| "bind_json to_text (JNum n) =
     (case number_as_i64 n of Some i \<Rightarrow> BindI64 i | None \<Rightarrow> BindF64 n)"
| "bind_json to_text (JStr s) = BindText s"
| "bind_json to_text other = BindText (to_text other)"

section \<open>The outside world\<close>

record http_req =
  rq_method :: string
  rq_url :: string
  rq_headers :: "(string \<times> string) list"
  rq_body :: "string option"

record http_resp =
  rs_status :: u16
  rs_headers :: "(string \<times> string) list"
  rs_body :: string

type_synonym bound_statement = "string \<times> bound_param list"

datatype effect =
    HttpSent http_req
  | SqlTransaction string "bound_statement list"
  | BlobWritten string string string  \<comment> \<open>connection, path, data\<close>
  | KvWritten string string string    \<comment> \<open>module, key, value\<close>
  | Logged string string              \<comment> \<open>module, message\<close>

text \<open>The answer of a server: its headers, the announced length, and the chunks of the body.\<close>

datatype http_answer =
    SendError string
  | Answer u16 "(string \<times> string) list" "u64 option" "string res list"

record outside =
  out_http :: "effect list \<Rightarrow> http_answer"
  out_begin :: "effect list \<Rightarrow> unit res"
  out_exec :: "effect list \<Rightarrow> string \<Rightarrow> bound_statement list \<Rightarrow> u64 res"
  out_commit :: "effect list \<Rightarrow> unit res"
  out_blob :: "effect list \<Rightarrow> unit res"
  out_kv :: "effect list \<Rightarrow> string \<Rightarrow> string \<Rightarrow> string option"

record host_world =
  hw_effects :: "effect list"
  hw_metrics :: "(string, u64) btm"

definition emit :: "effect \<Rightarrow> host_world \<Rightarrow> host_world" where
  "emit e w = w \<lparr> hw_effects := hw_effects w @ [e] \<rparr>"

section \<open>The host state of one instance\<close>

record host_state =
  h_module :: string
  h_http_allow :: "string list"
  h_granted :: "string list"
  h_sql :: "string list"                  \<comment> \<open>connections with an open pool\<close>
  h_blob :: "(string \<times> string) list"      \<comment> \<open>connections with an open store, and their prefix\<close>

definition HTTP_BODY_LIMIT :: nat where
  "HTTP_BODY_LIMIT = 32 * 2 ^ 20"

fun read_body :: "string \<Rightarrow> string res list \<Rightarrow> string res" where
  "read_body body [] = Inr body"
| "read_body body (Inl e # rest) = Inl (''body: '' @ e)"
| "read_body body (Inr chunk # rest) =
     (if HTTP_BODY_LIMIT < length body + length chunk then
        Inl (''response body exceeds '' @ show_nat HTTP_BODY_LIMIT @ '' byte limit'')
      else read_body (body @ chunk) rest)"

definition read_answer :: "http_answer \<Rightarrow> http_resp res" where
  "read_answer a =
     (case a of
        SendError e \<Rightarrow> Inl (''request: '' @ e)
      | Answer status headers len chunks1 \<Rightarrow>
          if (case len of None \<Rightarrow> False | Some n \<Rightarrow> HTTP_BODY_LIMIT < unat n) then
            Inl (''response body '' @ show_u64 (the len) @ '' bytes exceeds '' @ show_nat HTTP_BODY_LIMIT @ '' limit'')
          else
            and_then (read_body [] chunks1) (\<lambda>body.
              Inr \<lparr> rs_status = status, rs_headers = headers, rs_body = body \<rparr>))"

text \<open>
  \<open>http\<close>: \<open>method_ok\<close> is \<open>Method::from_bytes\<close>.  A request whose headers the client cannot
  encode fails in \<open>send\<close>.
\<close>

definition host_http ::
  "url_parser \<Rightarrow> (string \<Rightarrow> bool) \<Rightarrow> outside \<Rightarrow> host_state \<Rightarrow> http_req \<Rightarrow> host_world \<Rightarrow> http_resp res \<times> host_world" where
  "host_http parse method_ok out h req w =
     (if \<not> host_allowed_by parse (h_http_allow h) (rq_url req) then
        (Inl (''http denied: host `'' @ unwrap_or ''<invalid url>'' (url_host parse (rq_url req))
              @ ''` not in permissions.http allowlist''), w)
      else if \<not> method_ok (rq_method req) then (Inl ''bad method'', w)
      else
        let w' = emit (HttpSent req) w
        in (read_answer (out_http out (hw_effects w')), w'))"

definition not_granted :: "host_state \<Rightarrow> string \<Rightarrow> string" where
  "not_granted h conn = ''connection `'' @ conn @ ''` not granted to module `'' @ h_module h @ ''`''"

text \<open>The parameters of each statement: an empty byte string binds nothing.\<close>

definition bind_statement ::
  "(string \<Rightarrow> json list res) \<Rightarrow> (json \<Rightarrow> string) \<Rightarrow> string \<times> string \<Rightarrow> bound_statement res" where
  "bind_statement parse_params to_text st =
     and_then (if snd st = [] then Inr []
               else (case parse_params (snd st) of Inl e \<Rightarrow> Inl (''params json: '' @ e) | Inr ps \<Rightarrow> Inr ps))
       (\<lambda>ps. Inr (fst st, map (bind_json to_text) ps))"

text \<open>
  \<open>run_sql_batch\<close>: one transaction.  The statements run in order; a failing statement or
  parameters that do not parse drop the transaction, so that nothing leaves.
\<close>

fun run_statements ::
  "(string \<Rightarrow> json list res) \<Rightarrow> (json \<Rightarrow> string) \<Rightarrow> (bound_statement list \<Rightarrow> u64 res) \<Rightarrow> bound_statement list
   \<Rightarrow> u64 \<Rightarrow> (string \<times> string) list \<Rightarrow> (bound_statement list \<times> u64) res" where
  "run_statements parse_params to_text exec executed affected [] = Inr (executed, affected)"
| "run_statements parse_params to_text exec executed affected (st # sts) =
     and_then (bind_statement parse_params to_text st) (\<lambda>b.
       case exec (executed @ [b]) of
         Inl e \<Rightarrow> Inl (''exec: '' @ e)
       | Inr n \<Rightarrow> run_statements parse_params to_text exec (executed @ [b]) (affected + n) sts)"

definition run_sql_batch ::
  "(string \<Rightarrow> json list res) \<Rightarrow> (json \<Rightarrow> string) \<Rightarrow> outside \<Rightarrow> host_state \<Rightarrow> string \<Rightarrow> (string \<times> string) list
   \<Rightarrow> host_world \<Rightarrow> u64 res \<times> host_world" where
  "run_sql_batch parse_params to_text out h conn stmts w =
     (if conn \<notin> set (h_granted h) then (Inl (not_granted h conn), w)
      else if conn \<notin> set (h_sql h) then (Inl (''connection `'' @ conn @ ''` has no open pool''), w)
      else
        (case out_begin out (hw_effects w) of
           Inl e \<Rightarrow> (Inl (''begin: '' @ e), w)
         | Inr _ \<Rightarrow>
             (case run_statements parse_params to_text (out_exec out (hw_effects w) conn) [] 0 stmts of
                Inl e \<Rightarrow> (Inl e, w)
              | Inr (executed, affected) \<Rightarrow>
                  (case out_commit out (hw_effects w) of
                     Inl e \<Rightarrow> (Inl (''commit: '' @ e), w)
                   | Inr _ \<Rightarrow> (Inr affected, emit (SqlTransaction conn executed) w)))))"

definition host_blob_put ::
  "(string \<Rightarrow> string) \<Rightarrow> outside \<Rightarrow> host_state \<Rightarrow> string \<Rightarrow> string \<Rightarrow> string \<Rightarrow> host_world
   \<Rightarrow> unit res \<times> host_world" where
  "host_blob_put to_path out h conn key data w =
     (if conn \<notin> set (h_granted h) then (Inl (not_granted h conn), w)
      else
        (case map_of (h_blob h) conn of
           None \<Rightarrow> (Inl (''connection `'' @ conn @ ''` has no open object store''), w)
         | Some prefix \<Rightarrow>
             let w' = emit (BlobWritten conn (to_path (prefix @ key)) data) w
             in (case out_blob out (hw_effects w') of
                   Inl e \<Rightarrow> (Inl (''blob put: '' @ e), w') | Inr _ \<Rightarrow> (Inr (), w'))))"

section \<open>The interface a guest sees\<close>

datatype host_call =
    CallLog string
  | CallMetricAdd string u64
  | CallKvGet string
  | CallKvSet string string
  | CallHttp http_req
  | CallSqlExec string string string
  | CallSqlBatch string "(string \<times> string) list"
  | CallKafkaProduce string string "string option" string
  | CallBlobPut string string string

datatype host_reply =
    ReplyUnit
  | ReplyValue "string option"
  | ReplyHttp "http_resp res"
  | ReplyCount "u64 res"
  | ReplyDone "unit res"

record host_lib =
  lib_parse_url :: url_parser
  lib_method_ok :: "string \<Rightarrow> bool"
  lib_parse_params :: "string \<Rightarrow> json list res"
  lib_to_text :: "json \<Rightarrow> string"
  lib_to_path :: "string \<Rightarrow> string"

fun host_call_step :: "host_lib \<Rightarrow> outside \<Rightarrow> host_state \<Rightarrow> host_call \<Rightarrow> host_world \<Rightarrow> host_reply \<times> host_world" where
  "host_call_step L out h (CallLog m) w = (ReplyUnit, emit (Logged (h_module h) m) w)"
| "host_call_step L out h (CallMetricAdd name v) w =
     (ReplyUnit, w \<lparr> hw_metrics := metrics_add (h_module h @ ''.'' @ name) v (hw_metrics w) \<rparr>)"
| "host_call_step L out h (CallKvGet key) w =
     (ReplyValue (out_kv out (hw_effects w) (h_module h) key), w)"
| "host_call_step L out h (CallKvSet key v) w = (ReplyUnit, emit (KvWritten (h_module h) key v) w)"
| "host_call_step L out h (CallHttp req) w =
     (case host_http (lib_parse_url L) (lib_method_ok L) out h req w of (r, w') \<Rightarrow> (ReplyHttp r, w'))"
| "host_call_step L out h (CallSqlExec conn stmt ps) w =
     (case run_sql_batch (lib_parse_params L) (lib_to_text L) out h conn [(stmt, ps)] w of
        (r, w') \<Rightarrow> (ReplyCount r, w'))"
| "host_call_step L out h (CallSqlBatch conn stmts) w =
     (case run_sql_batch (lib_parse_params L) (lib_to_text L) out h conn stmts w of
        (r, w') \<Rightarrow> (ReplyCount r, w'))"
| "host_call_step L out h (CallKafkaProduce conn topic key payload) w =
     (ReplyDone (Inl ''kafka sink not wired (phase 1)''), w)"
| "host_call_step L out h (CallBlobPut conn key data) w =
     (case host_blob_put (lib_to_path L) out h conn key data w of (r, w') \<Rightarrow> (ReplyDone r, w'))"

text \<open>A guest is a program that makes host calls, each depending on the replies so far.\<close>

type_synonym guest = "host_reply list \<Rightarrow> host_call option"

fun run_guest :: "nat \<Rightarrow> host_lib \<Rightarrow> outside \<Rightarrow> host_state \<Rightarrow> guest \<Rightarrow> host_reply list \<Rightarrow> host_world \<Rightarrow> host_world" where
  "run_guest 0 L out h g replies w = w"
| "run_guest (Suc n) L out h g replies w =
     (case g replies of
        None \<Rightarrow> w
      | Some c \<Rightarrow>
          (case host_call_step L out h c w of
             (r, w') \<Rightarrow> run_guest n L out h g (replies @ [r]) w'))"

section \<open>Properties\<close>

text \<open>What a module's grants allow to leave the process.\<close>

fun permitted :: "host_lib \<Rightarrow> host_state \<Rightarrow> effect \<Rightarrow> bool" where
  "permitted L h (HttpSent req) =
     (\<exists>scheme host allow. lib_parse_url L (rq_url req) = Some (scheme, Some host) \<and> host \<noteq> []
        \<and> (scheme = ''http'' \<or> scheme = ''https'') \<and> allow \<in> set (h_http_allow h)
        \<and> map to_ascii_lower allow = map to_ascii_lower host)"
| "permitted L h (SqlTransaction conn stmts) = (conn \<in> set (h_granted h) \<and> conn \<in> set (h_sql h))"
| "permitted L h (BlobWritten conn path data) =
     (conn \<in> set (h_granted h)
      \<and> (\<exists>prefix key. map_of (h_blob h) conn = Some prefix \<and> path = lib_to_path L (prefix @ key)))"
| "permitted L h (KvWritten m key v) = (m = h_module h)"
| "permitted L h (Logged m msg) = (m = h_module h)"

lemma host_allowed_permitted:
  "host_allowed_by (lib_parse_url L) (h_http_allow h) (rq_url req) \<Longrightarrow> permitted L h (HttpSent req)"
  by (auto simp: host_allowed_by_def url_host_def list_ex_iff eq_ignore_ascii_case_def
      split: option.splits prod.splits if_splits)

lemma host_call_permitted:
  "\<exists>new. hw_effects (snd (host_call_step L out h c w)) = hw_effects w @ new \<and> list_all (permitted L h) new"
proof (cases c)
  case (CallHttp req)
  then show ?thesis
    using host_allowed_permitted [of L h req]
    by (auto simp: host_http_def emit_def Let_def split: prod.splits)
next
  case (CallBlobPut conn key data)
  then show ?thesis
    by (auto simp: host_blob_put_def emit_def Let_def split: prod.splits option.splits sum.splits)
qed (auto simp: emit_def run_sql_batch_def Let_def split: prod.splits sum.splits)

lemma run_guest_permitted:
  "\<exists>new. hw_effects (run_guest n L out h g replies w) = hw_effects w @ new \<and> list_all (permitted L h) new"
proof (induction n arbitrary: replies w)
  case (Suc n)
  show ?case
  proof (cases "g replies")
    case (Some c)
    obtain r w' where s: "host_call_step L out h c w = (r, w')" by (cases "host_call_step L out h c w")
    obtain new1 where "hw_effects w' = hw_effects w @ new1" "list_all (permitted L h) new1"
      using host_call_permitted [of L out h c w] s by auto
    then show ?thesis using Suc [of "replies @ [r]" w'] Some s by auto
  qed simp
qed simp

text \<open>
  The sandbox: whatever a guest computes and however it reacts to the replies, everything
  that leaves the process is covered by its grants.  A request goes only to an http(s) host
  that is an allowlist entry in full (never to a prefix or suffix of one), SQL and objects
  only to granted connections, an object only below its connection's prefix, and keys only
  in the module's own namespace.
\<close>

theorem guest_stays_in_grants:
  "\<exists>new. hw_effects (run_guest n L out h g [] w) = hw_effects w @ new \<and> list_all (permitted L h) new"
  by (rule run_guest_permitted)

lemma read_body_bounded:
  "read_body body cs = Inr b \<Longrightarrow> length body \<le> HTTP_BODY_LIMIT \<Longrightarrow> length b \<le> HTTP_BODY_LIMIT"
  by (induction body cs rule: read_body.induct) (auto split: if_splits)

lemma read_body_exact:
  "read_body body cs = Inr b \<Longrightarrow> \<exists>parts. cs = map Inr parts \<and> b = body @ concat parts"
proof (induction body cs rule: read_body.induct)
  case (3 body chunk rest)
  then obtain parts where "rest = map Inr parts" "b = (body @ chunk) @ concat parts"
    by (auto split: if_splits)
  then show ?case by (intro exI [of _ "chunk # parts"]) simp
qed auto

text \<open>
  C18: a response that reaches a guest is at most 32 MiB long and complete: its body is the
  concatenation of all the chunks the server sent, whatever length the server announced.
\<close>

theorem response_bounded_and_complete:
  assumes "host_http parse method_ok out h req w = (Inr resp, w')"
  shows "length (rs_body resp) \<le> HTTP_BODY_LIMIT
     \<and> (\<exists>len parts. out_http out (hw_effects w') = Answer (rs_status resp) (rs_headers resp) len (map Inr parts)
          \<and> rs_body resp = concat parts)
     \<and> hw_effects w' = hw_effects w @ [HttpSent req]"
proof -
  have w: "w' = emit (HttpSent req) w" "read_answer (out_http out (hw_effects w')) = Inr resp"
    using assms by (auto simp: host_http_def Let_def split: if_splits)
  obtain status headers len cs where a: "out_http out (hw_effects w') = Answer status headers len cs"
    using w(2) by (cases "out_http out (hw_effects w')") (simp_all add: read_answer_def)
  obtain body where b: "read_body [] cs = Inr body"
    "resp = \<lparr> rs_status = status, rs_headers = headers, rs_body = body \<rparr>"
    using w(2) by (auto simp: a read_answer_def split: if_splits)
  obtain parts where "cs = map Inr parts" "body = concat parts"
    using read_body_exact [OF b(1)] by auto
  moreover have "length body \<le> HTTP_BODY_LIMIT" using read_body_bounded [OF b(1)] by simp
  ultimately show ?thesis using a b(2) w(1) by (simp add: emit_def)
qed

definition demo_out :: outside where
  "demo_out = \<lparr> out_http = (\<lambda>es. Answer 200 [] None [Inr ''o'', Inr ''k'']), out_begin = (\<lambda>es. Inr ()),
     out_exec = (\<lambda>es conn stmts. Inr 1), out_commit = (\<lambda>es. Inr ()), out_blob = (\<lambda>es. Inr ()),
     out_kv = (\<lambda>es m k. None) \<rparr>"

definition demo_host :: host_state where
  "demo_host = \<lparr> h_module = ''m'', h_http_allow = [''x.io''], h_granted = [], h_sql = [], h_blob = [] \<rparr>"

definition demo_req :: http_req where
  "demo_req = \<lparr> rq_method = ''GET'', rq_url = ''u'', rq_headers = [], rq_body = None \<rparr>"

theorem response_bounded_and_complete_witness:
  "\<exists>resp w'. host_http (\<lambda>u. Some (''https'', Some ''x.io'')) (\<lambda>m. True) demo_out demo_host demo_req
        \<lparr> hw_effects = [], hw_metrics = [] \<rparr> = (Inr resp, w')
     \<and> length (rs_body resp) \<le> HTTP_BODY_LIMIT \<and> hw_effects w' = [HttpSent demo_req]"
proof -
  obtain resp w' where r: "host_http (\<lambda>u. Some (''https'', Some ''x.io'')) (\<lambda>m. True) demo_out demo_host demo_req
        \<lparr> hw_effects = [], hw_metrics = [] \<rparr> = (Inr resp, w')"
    by (simp add: host_http_def host_allowed_by_def url_host_def eq_ignore_ascii_case_def demo_out_def demo_host_def
        read_answer_def HTTP_BODY_LIMIT_def Let_def)
  then show ?thesis using response_bounded_and_complete [OF r] by auto
qed

end
