(* ===== verification/WasmHost.thy ===== *)
theory WasmHost
  imports Sdk HostImpl ConfigTypes
begin

text \<open>
  The module host: \<open>crates/wasm-host/src/lib.rs\<close>.  A processor or sink handle owns a pool of
  initialised instances; a call checks one out, calls it under a deadline and puts it back
  unless it trapped.  Compiled components are cached in a directory that is used only if
  nobody else can write to it.  wasmtime (compiling, instantiating and calling a component),
  the file system and the database and object-store clients are parameters.
\<close>

section \<open>Object stores and services\<close>

record blob_conn_cfg =
  bc_bucket :: "string option"
  bc_region :: "string option"
  bc_endpoint :: "string option"
  bc_prefix :: "string option"
  bc_local_path :: "string option"

record 'st blob_conn =
  blob_store :: 'st
  blob_prefix :: string

text \<open>\<open>local dir\<close> opens a directory, \<open>s3 bucket region endpoint\<close> an S3 bucket.\<close>

definition build_blob ::
  "(string \<Rightarrow> 'st res) \<Rightarrow> (string \<Rightarrow> string option \<Rightarrow> string option \<Rightarrow> 'st res) \<Rightarrow> blob_conn_cfg
   \<Rightarrow> 'st blob_conn res" where
  "build_blob local s3 cfg =
     (let prefix = unwrap_or [] (bc_prefix cfg)
      in case bc_local_path cfg of
           Some dir \<Rightarrow> and_then (local dir) (\<lambda>st. Inr \<lparr> blob_store = st, blob_prefix = prefix \<rparr>)
         | None \<Rightarrow>
             and_then (ok_or ''s3 connection needs `bucket` or `local_path`'' (bc_bucket cfg)) (\<lambda>bucket.
             and_then (s3 bucket (bc_region cfg) (bc_endpoint cfg)) (\<lambda>st.
               Inr \<lparr> blob_store = st, blob_prefix = prefix \<rparr>)))"

text \<open>Open every connection; the first failure stops the construction.\<close>

definition build_services ::
  "(string \<Rightarrow> u32 \<Rightarrow> 'pool res) \<Rightarrow> (blob_conn_cfg \<Rightarrow> 'st blob_conn res)
   \<Rightarrow> (string \<times> string \<times> u32) list \<Rightarrow> (string \<times> blob_conn_cfg) list
   \<Rightarrow> ((string \<times> 'pool) list \<times> (string \<times> 'st blob_conn) list) res" where
  "build_services connect blob pg_conns blob_conns =
     and_then (map_res (\<lambda>(name, dsn, max1).
                  case connect dsn max1 of
                    Inl e \<Rightarrow> Inl (''connect postgres `'' @ name @ ''`: '' @ e) | Inr p \<Rightarrow> Inr (name, p)) pg_conns)
       (\<lambda>sql.
     and_then (map_res (\<lambda>(name, cfg).
                  case blob cfg of
                    Inl e \<Rightarrow> Inl (''open object store `'' @ name @ ''`: '' @ e) | Inr b \<Rightarrow> Inr (name, b)) blob_conns)
       (\<lambda>bs. Inr (sql, bs)))"

section \<open>Nodes, limits and stores\<close>

record 'bytes node_ctx =
  n_module_name :: string
  n_pipeline_name :: string
  n_config_json :: 'bytes
  n_http_allow :: "string list"
  n_granted_conns :: "string list"

record runtime_config =
  rc_cache_dir :: string
  rc_wasm_mem_bytes :: nat
  rc_epoch_deadline_secs :: u64
  rc_instances_per_stage :: nat

definition MAX_INSTANCES :: nat where "MAX_INSTANCES = 8"
definition MAX_MEMORIES :: nat where "MAX_MEMORIES = 4"
definition MAX_TABLES :: nat where "MAX_TABLES = 8"
definition MAX_TABLE_ELEMENTS :: nat where "MAX_TABLE_ELEMENTS = 2 ^ 20"

record limits =
  lim_memory_size :: nat
  lim_memories :: nat
  lim_instances :: nat
  lim_tables :: nat
  lim_table_elements :: nat

definition store_limits :: "nat \<Rightarrow> limits" where
  "store_limits mem_bytes =
     \<lparr> lim_memory_size = mem_bytes, lim_memories = MAX_MEMORIES, lim_instances = MAX_INSTANCES,
       lim_tables = MAX_TABLES, lim_table_elements = MAX_TABLE_ELEMENTS \<rparr>"

record 'bytes init_ctx =
  ic_module_name :: string
  ic_config :: 'bytes
  ic_pipeline_name :: string

definition init_ctx_of :: "'bytes node_ctx \<Rightarrow> 'bytes init_ctx" where
  "init_ctx_of node =
     \<lparr> ic_module_name = n_module_name node, ic_config = n_config_json node,
       ic_pipeline_name = n_pipeline_name node \<rparr>"

text \<open>\<open>Path::join\<close>: an absolute path replaces the base, and a separator is added where needed.\<close>

definition path_join :: "string \<Rightarrow> string \<Rightarrow> string" where
  "path_join base p =
     (if strip_prefix ''/'' p \<noteq> None \<or> base = [] then p
      else if last base = CHR ''/'' then base @ p else base @ ''/'' @ p)"

definition default_cache_dir :: "string option \<Rightarrow> string option \<Rightarrow> string" where
  "default_cache_dir xdg home =
     path_join
       (case xdg of
          Some d \<Rightarrow> d
        | None \<Rightarrow> (case home of Some h \<Rightarrow> path_join h ''.cache'' | None \<Rightarrow> ''.cache''))
       ''hyperpipe''"

definition runtime_config_default :: "string option \<Rightarrow> string option \<Rightarrow> runtime_config" where
  "runtime_config_default xdg home =
     \<lparr> rc_cache_dir = default_cache_dir xdg home, rc_wasm_mem_bytes = 256 * 2 ^ 20,
       rc_epoch_deadline_secs = 5, rc_instances_per_stage = 2 \<rparr>"

text \<open>The capabilities of a fresh store come from the node, and only from it.\<close>

definition new_store :: "string list \<Rightarrow> (string \<times> string) list \<Rightarrow> 'bytes node_ctx \<Rightarrow> host_state" where
  "new_store sql blob node =
     \<lparr> h_module = n_module_name node, h_http_allow = n_http_allow node,
       h_granted = n_granted_conns node, h_sql = sql, h_blob = blob \<rparr>"

section \<open>The component cache\<close>

record file_meta =
  fm_is_dir :: bool
  fm_is_file :: bool
  fm_uid :: u32
  fm_mode :: u32

definition private_to_this_user :: "u32 \<Rightarrow> file_meta \<Rightarrow> bool" where
  "private_to_this_user me md = (fm_uid md = me \<and> and (fm_mode md) 18 = 0)"

text \<open>
  \<open>dir\<close> is the metadata of the directory if it exists; \<open>create\<close> what it is after creating it
  with mode 0700, if that succeeds.
\<close>

definition prepare_cache_dir :: "u32 \<Rightarrow> file_meta option \<Rightarrow> file_meta option \<Rightarrow> bool" where
  "prepare_cache_dir me dir create =
     (case (case dir of Some md \<Rightarrow> Some md | None \<Rightarrow> create) of
        None \<Rightarrow> False
      | Some md \<Rightarrow> fm_is_dir md \<and> private_to_this_user me md)"

definition cache_entry_trusted :: "u32 \<Rightarrow> file_meta option \<Rightarrow> bool" where
  "cache_entry_trusted me md =
     (case md of None \<Rightarrow> False | Some md \<Rightarrow> fm_is_file md \<and> private_to_this_user me md)"

text \<open>The files of the cache directory by key, with their metadata and content.\<close>

type_synonym 'art cache = "string \<Rightarrow> (file_meta \<times> 'art) option"

definition own_entry :: "u32 \<Rightarrow> file_meta" where
  "own_entry me = \<lparr> fm_is_dir = False, fm_is_file = True, fm_uid = me, fm_mode = 384 \<rparr>"

definition write_cache_entry :: "u32 \<Rightarrow> bool \<Rightarrow> string \<Rightarrow> 'art \<Rightarrow> 'art cache \<Rightarrow> 'art cache" where
  "write_cache_entry me io_ok key art cache =
     (if io_ok then cache(key \<mapsto> (own_entry me, art)) else cache)"

record ('bytes, 'art, 'comp) engine =
  en_sha :: "'bytes \<Rightarrow> string"
  en_precompile :: "'bytes \<Rightarrow> 'art res"
  en_deserialize :: "'art \<Rightarrow> 'comp res"

definition compile :: "('bytes, 'art, 'comp) engine \<Rightarrow> u32 \<Rightarrow> bool \<Rightarrow> bool \<Rightarrow> 'bytes \<Rightarrow> 'art cache
    \<Rightarrow> 'comp res \<times> 'art cache" where
  "compile en me cache_usable io_ok wasm cache =
     (let key = en_sha en wasm;
          recompile =
            (case en_precompile en wasm of
               Inl e \<Rightarrow> (Inl (''precompile component: '' @ e), cache)
             | Inr art \<Rightarrow>
                 (en_deserialize en art,
                  if cache_usable then write_cache_entry me io_ok key art cache else cache))
      in case cache key of
           Some (md, art) \<Rightarrow>
             if cache_usable \<and> cache_entry_trusted me (Some md) then
               (case en_deserialize en art of Inr c \<Rightarrow> (Inr c, cache) | Inl e \<Rightarrow> recompile)
             else recompile
         | None \<Rightarrow> recompile)"

section \<open>Pools of instances\<close>

text \<open>\<open>Vec::pop\<close> and \<open>push\<close> work at the end of the list.\<close>

definition checkout :: "('w \<Rightarrow> 'i res \<times> 'w) \<Rightarrow> 'i list \<Rightarrow> 'w \<Rightarrow> 'i res \<times> 'i list \<times> 'w" where
  "checkout instantiate pool w =
     (if pool \<noteq> [] then (Inr (last pool), butlast pool, w)
      else (case instantiate w of (r, w') \<Rightarrow> (r, pool, w')))"

fun load_pool :: "('w \<Rightarrow> 'i res \<times> 'w) \<Rightarrow> nat \<Rightarrow> 'i list \<Rightarrow> 'w \<Rightarrow> 'i list res \<times> 'w" where
  "load_pool instantiate 0 pool w = (Inr pool, w)"
| "load_pool instantiate (Suc n) pool w =
     (case instantiate w of
        (Inl e, w') \<Rightarrow> (Inl e, w')
      | (Inr i, w') \<Rightarrow> load_pool instantiate n (pool @ [i]) w')"

definition load_module :: "('bytes, 'art, 'comp) engine \<Rightarrow> u32 \<Rightarrow> bool \<Rightarrow> bool \<Rightarrow> 'bytes \<Rightarrow> 'art cache
    \<Rightarrow> ('comp \<Rightarrow> 'w \<Rightarrow> 'i res \<times> 'w) \<Rightarrow> nat \<Rightarrow> 'w \<Rightarrow> ('comp \<times> 'i list) res \<times> 'art cache \<times> 'w" where
  "load_module en me cache_usable io_ok wasm cache instantiate n w =
     (case compile en me cache_usable io_ok wasm cache of
        (Inl e, cache') \<Rightarrow> (Inl e, cache', w)
      | (Inr c, cache') \<Rightarrow>
          (case load_pool (instantiate c) (max n 1) [] w of
             (Inl e, w') \<Rightarrow> (Inl e, cache', w')
           | (Inr pool, w') \<Rightarrow> (Inr (c, pool), cache', w')))"

text \<open>The epoch deadline turns a call that would not return into a trap.\<close>

fun under_deadline :: "'a call \<Rightarrow> 'a call" where
  "under_deadline Spins = Trapped ''epoch deadline''"
| "under_deadline r = r"

definition from_wire :: "('bytes \<Rightarrow> string + json) \<Rightarrow> 'bytes wire \<Rightarrow> batch res" where
  "from_wire from_slice b =
     (case decode from_slice (w_encoding b) (w_data b) of
        Inl e \<Rightarrow> Inl (codec_error_text e) | Inr x \<Rightarrow> Inr x)"

definition decode_outputs :: "('bytes \<Rightarrow> string + json) \<Rightarrow> 'bytes wire list \<Rightarrow> batch list res" where
  "decode_outputs from_slice wires =
     map_res (\<lambda>b. case from_wire from_slice b of Inl e \<Rightarrow> Inl (''decode output: '' @ e) | Inr x \<Rightarrow> Inr x) wires"

definition host_process ::
  "('i \<Rightarrow> 'bytes wire \<Rightarrow> 'w \<Rightarrow> 'bytes wire list res call \<times> 'i \<times> 'w) \<Rightarrow> ('w \<Rightarrow> 'i res \<times> 'w)
   \<Rightarrow> ('bytes \<Rightarrow> string + json) \<Rightarrow> (json \<Rightarrow> 'bytes) \<Rightarrow> 'i list \<Rightarrow> batch \<Rightarrow> 'w
   \<Rightarrow> batch list res \<times> 'i list \<times> 'w" where
  "host_process call_process instantiate from_slice to_vec pool b w =
     (case checkout instantiate pool w of
        (Inl e, pool1, w1) \<Rightarrow> (Inl e, pool1, w1)
      | (Inr i, pool1, w1) \<Rightarrow>
          (case call_process i (to_wire to_vec b) w1 of
             (r, i', w2) \<Rightarrow>
               (case under_deadline r of
                  Returned (Inr wires) \<Rightarrow> (decode_outputs from_slice wires, pool1 @ [i'], w2)
                | Returned (Inl msg) \<Rightarrow> (Inl (''module process error: '' @ msg), pool1 @ [i'], w2)
                | Trapped m \<Rightarrow> (Inl (''call process: '' @ m), pool1, w2)
                | Spins \<Rightarrow> (Inl [], pool1, w2))))"

definition host_write ::
  "('i \<Rightarrow> 'bytes wire \<Rightarrow> 'w \<Rightarrow> unit res call \<times> 'i \<times> 'w) \<Rightarrow> ('w \<Rightarrow> 'i res \<times> 'w)
   \<Rightarrow> (json \<Rightarrow> 'bytes) \<Rightarrow> 'i list \<Rightarrow> batch \<Rightarrow> 'w \<Rightarrow> unit res \<times> 'i list \<times> 'w" where
  "host_write call_write instantiate to_vec pool b w =
     (case checkout instantiate pool w of
        (Inl e, pool1, w1) \<Rightarrow> (Inl e, pool1, w1)
      | (Inr i, pool1, w1) \<Rightarrow>
          (case call_write i (to_wire to_vec b) w1 of
             (r, i', w2) \<Rightarrow>
               (case under_deadline r of
                  Returned (Inr _) \<Rightarrow> (Inr (), pool1 @ [i'], w2)
                | Returned (Inl msg) \<Rightarrow> (Inl (''module write error: '' @ msg), pool1 @ [i'], w2)
                | Trapped m \<Rightarrow> (Inl (''call write: '' @ m), pool1, w2)
                | Spins \<Rightarrow> (Inl [], pool1, w2))))"

text \<open>Flush every instance that is in the pool, stopping at the first failure.\<close>

fun host_flush ::
  "('i \<Rightarrow> 'w \<Rightarrow> unit res call \<times> 'i \<times> 'w) \<Rightarrow> 'i list \<Rightarrow> 'w \<Rightarrow> unit res \<times> 'i list \<times> 'w" where
  "host_flush call_flush [] w = (Inr (), [], w)"
| "host_flush call_flush (i # pool) w =
     (case call_flush i w of
        (r, i', w1) \<Rightarrow>
          (case under_deadline r of
             Returned (Inr _) \<Rightarrow>
               (case host_flush call_flush pool w1 of (r2, pool', w2) \<Rightarrow> (r2, i' # pool', w2))
           | Returned (Inl msg) \<Rightarrow> (Inl (''module flush error: '' @ msg), i' # pool, w1)
           | Trapped m \<Rightarrow> (Inl (''call flush: '' @ m), i' # pool, w1)
           | Spins \<Rightarrow> (Inl [], i' # pool, w1)))"

section \<open>The contract of a pool\<close>

text \<open>
  A sink module behind the component boundary: what a call does to what is delivered and what
  the instance holds.  A pool of such instances is again a sink, with the same contract.
\<close>

locale pooled_sink =
  fixes call_write :: "'i \<Rightarrow> 'bytes wire \<Rightarrow> 'w \<Rightarrow> unit res call \<times> 'i \<times> 'w"
    and call_flush :: "'i \<Rightarrow> 'w \<Rightarrow> unit res call \<times> 'i \<times> 'w"
    and instantiate :: "'w \<Rightarrow> 'i res \<times> 'w"
    and to_vec :: "json \<Rightarrow> 'bytes"
    and delivered :: "'w \<Rightarrow> json multiset"
    and held :: "'i \<Rightarrow> json multiset"
    and inst_inv :: "'i \<Rightarrow> bool"
  assumes call_write_keeps:
      "inst_inv i \<Longrightarrow> \<not> is_control b \<Longrightarrow> call_write i (to_wire to_vec b) w = (Returned (Inr ()), i', w') \<Longrightarrow>
         delivered w' + held i' = delivered w + held i + mset (b_records b)"
    and call_flush_keeps:
      "inst_inv i \<Longrightarrow> call_flush i w = (Returned (Inr ()), i', w') \<Longrightarrow>
         held i' = {#} \<and> delivered w' = delivered w + held i"
    and call_write_inv: "inst_inv i \<Longrightarrow> call_write i wr w = (r, i', w') \<Longrightarrow> inst_inv i'"
    and call_flush_inv: "inst_inv i \<Longrightarrow> call_flush i w = (r, i', w') \<Longrightarrow> inst_inv i'"
    and fresh: "instantiate w = (Inr i, w') \<Longrightarrow> inst_inv i \<and> held i = {#} \<and> delivered w' = delivered w"
begin

definition pool_held :: "'i list \<Rightarrow> json multiset" where
  "pool_held pool = sum_list (map held pool)"

definition pool_inv :: "'i list \<Rightarrow> bool" where
  "pool_inv pool = list_all inst_inv pool"

lemma pool_held_simps [simp]: "pool_held [] = {#}" "pool_held (i # p) = held i + pool_held p"
  "pool_held (p @ q) = pool_held p + pool_held q"
  by (simp_all add: pool_held_def)

lemma checkout_ok:
  assumes "pool_inv pool" "checkout instantiate pool w = (Inr i, pool1, w1)"
  shows "inst_inv i" "pool_inv pool1"
    "delivered w1 + pool_held pool1 + held i = delivered w + pool_held pool"
proof -
  have "inst_inv i \<and> pool_inv pool1 \<and> delivered w1 + pool_held pool1 + held i = delivered w + pool_held pool"
  proof (cases "pool = []")
    case True
    then show ?thesis using assms fresh [of w i w1]
      by (auto simp: checkout_def pool_inv_def split: prod.splits)
  next
    case False
    have "list_all inst_inv (butlast pool @ [last pool])"
      using assms(1) False unfolding pool_inv_def by simp
    moreover have "pool_held (butlast pool @ [last pool]) = pool_held pool"
      using False by (simp del: pool_held_simps)
    ultimately have "pool_held pool = pool_held (butlast pool) + held (last pool)"
      "pool_inv (butlast pool) \<and> inst_inv (last pool)"
      by (simp_all add: pool_inv_def)
    then show ?thesis using False assms(2) by (auto simp: checkout_def add.assoc)
  qed
  then show "inst_inv i" "pool_inv pool1"
    "delivered w1 + pool_held pool1 + held i = delivered w + pool_held pool" by simp_all
qed

lemma host_write_ok:
  assumes "pool_inv pool" "host_write call_write instantiate to_vec pool b w = (r, pool', w')"
  shows "pool_inv pool'"
    "r = Inr () \<Longrightarrow> \<not> is_control b \<Longrightarrow>
       delivered w' + pool_held pool' = delivered w + pool_held pool + mset (b_records b)"
proof -
  obtain c pool1 w1 where c: "checkout instantiate pool w = (c, pool1, w1)"
    by (cases "checkout instantiate pool w") auto
  have "pool_inv pool' \<and> (r = Inr () \<longrightarrow> \<not> is_control b \<longrightarrow>
       delivered w' + pool_held pool' = delivered w + pool_held pool + mset (b_records b))"
  proof (cases c)
    case (Inl e)
    then have "pool' = pool1" "r = Inl e" "pool1 = pool"
      using assms(2) c by (auto simp: host_write_def checkout_def split: prod.splits if_splits)
    then show ?thesis using assms(1) by simp
  next
    case (Inr i)
    have i: "inst_inv i" "pool_inv pool1"
      "delivered w1 + pool_held pool1 + held i = delivered w + pool_held pool"
      using checkout_ok [OF assms(1) c [unfolded Inr]] by simp_all
    obtain q i' w2 where q: "call_write i (to_wire to_vec b) w1 = (q, i', w2)"
      by (cases "call_write i (to_wire to_vec b) w1") auto
    have inv: "inst_inv i'" using call_write_inv [OF i(1) q] .
    show ?thesis
    proof (cases "q = Returned (Inr ())")
      case True
      then have p: "pool' = pool1 @ [i']" "w' = w2" using assms(2) c Inr q by (auto simp: host_write_def)
      have "delivered w' + pool_held pool' = delivered w + pool_held pool + mset (b_records b)"
        if "\<not> is_control b"
      proof -
        have "delivered w2 + held i' = delivered w1 + held i + mset (b_records b)"
          using call_write_keeps [OF i(1) that] q True by simp
        then have "delivered w' + pool_held pool' = pool_held pool1 + (delivered w1 + held i + mset (b_records b))"
          by (simp add: p ac_simps)
        also have "\<dots> = (delivered w1 + pool_held pool1 + held i) + mset (b_records b)"
          by (simp add: ac_simps)
        finally show ?thesis using i(3) by simp
      qed
      then show ?thesis using p inv i(2) by (simp add: pool_inv_def)
    next
      case False
      then have "r \<noteq> Inr ()" "pool' = pool1 \<or> pool' = pool1 @ [i']"
        using assms(2) c Inr q
        by (cases q; auto simp: host_write_def split: sum.splits)+
      then show ?thesis using inv i(2) by (auto simp: pool_inv_def)
    qed
  qed
  then show "pool_inv pool'" "r = Inr () \<Longrightarrow> \<not> is_control b \<Longrightarrow>
       delivered w' + pool_held pool' = delivered w + pool_held pool + mset (b_records b)" by simp_all
qed

lemma host_flush_ok:
  "pool_inv pool \<Longrightarrow> host_flush call_flush pool w = (r, pool', w') \<Longrightarrow>
   pool_inv pool' \<and> (r = Inr () \<longrightarrow> pool_held pool' = {#} \<and> delivered w' = delivered w + pool_held pool)"
proof (induction pool arbitrary: w r pool' w')
  case (Cons i pool)
  have i: "inst_inv i" "pool_inv pool" using Cons.prems(1) by (simp_all add: pool_inv_def)
  obtain q i' w1 where q: "call_flush i w = (q, i', w1)" by (cases "call_flush i w") auto
  have inv: "inst_inv i'" using call_flush_inv [OF i(1) q] .
  show ?case
  proof (cases "q = Returned (Inr ())")
    case True
    obtain r2 pool2 w2 where f: "host_flush call_flush pool w1 = (r2, pool2, w2)"
      by (cases "host_flush call_flush pool w1") auto
    have "held i' = {#} \<and> delivered w1 = delivered w + held i"
      using call_flush_keeps [OF i(1)] q True by simp
    then show ?thesis using Cons.IH [OF i(2) f] Cons.prems(2) q True f inv
      by (auto simp: pool_inv_def add.assoc)
  next
    case False
    then have "r \<noteq> Inr ()" "pool' = i' # pool"
      using Cons.prems(2) q by (cases q; auto split: sum.splits)+
    then show ?thesis using inv i(2) by (simp add: pool_inv_def)
  qed
qed (auto simp: pool_inv_def)

end

text \<open>One contract gives the other: the pool's operations are a sink in their own right.\<close>

sublocale pooled_sink \<subseteq> pool: buffered_sink "host_write call_write instantiate to_vec" "host_flush call_flush"
  delivered pool_held pool_inv
  by unfold_locales (use host_write_ok host_flush_ok in blast)+

end
