(* ===== verification/Pipeline.thy ===== *)
theory Pipeline
  imports Checkpoint Config WasmHost Source
begin

text \<open>
  The DAG runtime: \<open>crates/cli/src/pipeline.rs\<close>.  First the startup (module resolution,
  capabilities of each node, connections, resume cursor), then the wiring (consumers of a
  node, sinks below a source, fan-out) and the tasks that move batches along: source,
  processor and sink tasks, the checkpoint tick and the status line.  The file system, the
  module loader and the calls into modules are parameters; a task that panicked is a value.
\<close>

section \<open>Module resolution\<close>

text \<open>\<open>with_context\<close>: the chain of messages, outermost first.\<close>

definition with_context :: "string \<Rightarrow> 'a res \<Rightarrow> 'a res" where
  "with_context msg r = (case r of Inl e \<Rightarrow> Inl (msg @ '': '' @ e) | Inr x \<Rightarrow> Inr x)"

lemma with_context_Inr [simp]: "with_context msg r = Inr x \<longleftrightarrow> r = Inr x"
  by (cases r) (simp_all add: with_context_def)

definition builtin_wasm_file :: "string \<Rightarrow> string option" where
  "builtin_wasm_file name =
     map_of [(''evm-abi-decoder'', ''evm_abi_decoder.wasm''), (''filter'', ''filter.wasm''),
             (''stdout'', ''stdout_sink.wasm''), (''blackhole'', ''blackhole_sink.wasm''),
             (''postgres'', ''postgres_sink.wasm''), (''webhook'', ''webhook_sink.wasm''),
             (''s3'', ''s3_sink.wasm'')] name"

definition module_dir :: "string option \<Rightarrow> string" where
  "module_dir env = unwrap_or ''modules/target/wasm32-wasip2/debug'' env"

definition cli_cache_dir :: "string option \<Rightarrow> string" where
  "cli_cache_dir home =
     (case home of Some h \<Rightarrow> path_join h ''.cache/hyperpipe'' | None \<Rightarrow> ''.cache/hyperpipe'')"

definition resolve_module ::
  "(string \<Rightarrow> 'bytes res) \<Rightarrow> module_ref \<Rightarrow> string \<Rightarrow> string \<Rightarrow> 'bytes res" where
  "resolve_module read m base_dir dir =
     (case m of
        Builtin s \<Rightarrow>
          and_then (ok_or (''bad builtin ref `'' @ s @ ''`'') (builtin_parts m)) (\<lambda>(name, _).
          and_then (ok_or (''unknown builtin module `'' @ name @ ''`'') (builtin_wasm_file name)) (\<lambda>file.
            with_context (''read builtin `'' @ name @ ''`'') (read (path_join dir file))))
      | File f \<Rightarrow> with_context (''read module file '' @ path_join base_dir f) (read (path_join base_dir f)))"

text \<open>\<open>entry.insert\<close> on an object; anything else stays as it is.\<close>

fun set_field :: "string \<Rightarrow> json \<Rightarrow> json \<Rightarrow> json" where
  "set_field k v (JObj m) = JObj (btm_insert k v m)"
| "set_field k v other = other"

definition substitute_abi ::
  "(string \<Rightarrow> string res) \<Rightarrow> (string \<Rightarrow> json res) \<Rightarrow> string \<Rightarrow> json \<Rightarrow> json res" where
  "substitute_abi read_text parse base_dir entry =
     (case jget_str ''file'' entry of
        None \<Rightarrow> Inr entry
      | Some file \<Rightarrow>
          and_then (with_context (''read abi file '' @ path_join base_dir file)
                      (read_text (path_join base_dir file))) (\<lambda>text.
          and_then (with_context (''parse abi '' @ file) (parse text)) (\<lambda>abi.
            Inr (set_field ''abi'' abi entry))))"

definition is_decoder :: "module_ref \<Rightarrow> bool" where
  "is_decoder m = (case builtin_parts m of Some (n, _) \<Rightarrow> n = ''evm-abi-decoder'' | None \<Rightarrow> False)"

definition preprocess_config ::
  "(string \<Rightarrow> string res) \<Rightarrow> (string \<Rightarrow> json res) \<Rightarrow> (json \<Rightarrow> 'bytes) \<Rightarrow> module_ref \<Rightarrow> json \<Rightarrow> string
   \<Rightarrow> 'bytes res" where
  "preprocess_config read_text parse to_vec m config base_dir =
     (if \<not> is_decoder m then Inr (to_vec config)
      else (case jget_array ''abis'' config of
              None \<Rightarrow> Inr (to_vec config)
            | Some entries \<Rightarrow>
                and_then (map_res (substitute_abi read_text parse base_dir) entries) (\<lambda>es.
                  Inr (to_vec (set_field ''abis'' (JArr es) config)))))"

section \<open>Startup\<close>

text \<open>What the start reads: modules, texts, and the two text layers.\<close>

record 'bytes files =
  f_module :: "string \<Rightarrow> 'bytes res"
  f_text :: "string \<Rightarrow> string res"
  f_parse :: "string \<Rightarrow> json res"
  f_to_vec :: "json \<Rightarrow> 'bytes"

definition pg_conns :: "config \<Rightarrow> (string \<times> string \<times> u32) list" where
  "pg_conns c =
     concat (map (\<lambda>(name, conn).
       case (conn_type conn, conn_dsn conn) of
         (Postgres, Some dsn) \<Rightarrow> [(name, dsn, conn_pool_max conn)] | _ \<Rightarrow> []) (cfg_connections c))"

definition blob_cfg_of :: "connection \<Rightarrow> blob_conn_cfg" where
  "blob_cfg_of conn =
     \<lparr> bc_bucket = conn_bucket conn, bc_region = conn_region conn, bc_endpoint = conn_endpoint conn,
       bc_prefix = conn_prefix conn, bc_local_path = conn_local_path conn \<rparr>"

definition blob_conns :: "config \<Rightarrow> (string \<times> blob_conn_cfg) list" where
  "blob_conns c =
     concat (map (\<lambda>(name, conn). if conn_type conn = S3 then [(name, blob_cfg_of conn)] else [])
       (cfg_connections c))"

definition runtime_config_of :: "string option \<Rightarrow> config \<Rightarrow> runtime_config" where
  "runtime_config_of home c =
     (let p = profile (rt_resource_size (cfg_runtime c))
      in \<lparr> rc_cache_dir = cli_cache_dir home, rc_wasm_mem_bytes = wasm_mem_bytes p,
           rc_epoch_deadline_secs = epoch_deadline_secs p,
           rc_instances_per_stage = instances_per_stage p \<rparr>)"

text \<open>A processor gets no connection, a sink exactly the ones the configuration lists for it.\<close>

definition processor_node ::
  "'bytes files \<Rightarrow> string \<Rightarrow> string \<Rightarrow> config \<Rightarrow> processor_cfg \<Rightarrow> ('bytes \<times> 'bytes node_ctx) res" where
  "processor_node fs base_dir dir c p =
     and_then (with_context (''resolve module for processor `'' @ proc_name p @ ''`'')
                 (resolve_module (f_module fs) (proc_module p) base_dir dir)) (\<lambda>wasm.
     and_then (preprocess_config (f_text fs) (f_parse fs) (f_to_vec fs) (proc_module p) (proc_config p) base_dir)
       (\<lambda>config_json.
       Inr (wasm, \<lparr> n_module_name = proc_name p, n_pipeline_name = cfg_name c,
                    n_config_json = config_json, n_http_allow = perm_http (proc_permissions p),
                    n_granted_conns = [] \<rparr>)))"

definition sink_node ::
  "'bytes files \<Rightarrow> string \<Rightarrow> string \<Rightarrow> config \<Rightarrow> sink_cfg \<Rightarrow> ('bytes \<times> 'bytes node_ctx) res" where
  "sink_node fs base_dir dir c s =
     and_then (with_context (''resolve module for sink `'' @ sink_name s @ ''`'')
                 (resolve_module (f_module fs) (sink_module s) base_dir dir)) (\<lambda>wasm.
       Inr (wasm, \<lparr> n_module_name = sink_name s, n_pipeline_name = cfg_name c,
                    n_config_json = f_to_vec fs (sink_config s),
                    n_http_allow = perm_http (sink_permissions s),
                    n_granted_conns = sink_connections s \<rparr>))"

text \<open>A sink is a module handle, or the built-in tap of \<open>--debug-stdout\<close>.\<close>

datatype 'h sink_impl = WasmImpl 'h | StdoutTap

definition load_processors ::
  "'bytes files \<Rightarrow> ('bytes \<Rightarrow> 'bytes node_ctx \<Rightarrow> 'h res) \<Rightarrow> string \<Rightarrow> string \<Rightarrow> config \<Rightarrow> (string \<times> 'h) list res" where
  "load_processors fs load base_dir dir c =
     map_res (\<lambda>p.
       and_then (processor_node fs base_dir dir c p) (\<lambda>(wasm, node).
       and_then (with_context (''load processor `'' @ proc_name p @ ''`'') (load wasm node)) (\<lambda>h.
         Inr (proc_name p, h)))) (cfg_processors c)"

definition load_sinks ::
  "'bytes files \<Rightarrow> ('bytes \<Rightarrow> 'bytes node_ctx \<Rightarrow> 'h res) \<Rightarrow> bool \<Rightarrow> string \<Rightarrow> string \<Rightarrow> config
   \<Rightarrow> (string \<times> 'h sink_impl) list res" where
  "load_sinks fs load debug_stdout base_dir dir c =
     map_res (\<lambda>s.
       if debug_stdout then Inr (sink_name s, StdoutTap)
       else
         and_then (sink_node fs base_dir dir c s) (\<lambda>(wasm, node).
         and_then (with_context (''load sink `'' @ sink_name s @ ''`'') (load wasm node)) (\<lambda>h.
           Inr (sink_name s, WasmImpl h)))) (cfg_sinks c)"

section \<open>Wiring\<close>

definition build_consumer_map :: "config \<Rightarrow> graph" where
  "build_consumer_map c =
     fold (\<lambda>(name, inputs) m. fold (\<lambda>inp m. push_edge (inp, name) m) inputs m) (consumer_list c) []"

text \<open>One search: the nodes seen, the queue, and the sinks in the order they were found.\<close>

record bfs =
  bfs_seen :: "string list"
  bfs_queue :: "string list"
  bfs_sinks :: "string list"

definition bfs_visit :: "string list \<Rightarrow> string \<Rightarrow> bfs \<Rightarrow> bfs" where
  "bfs_visit sinks c st =
     (if c \<in> set (bfs_seen st) then st
      else \<lparr> bfs_seen = bfs_seen st @ [c], bfs_queue = bfs_queue st @ [c],
             bfs_sinks = (if c \<in> set sinks then bfs_sinks st @ [c] else bfs_sinks st) \<rparr>)"

definition bfs_pop :: "graph \<Rightarrow> string list \<Rightarrow> bfs \<Rightarrow> bfs" where
  "bfs_pop g sinks st =
     (case bfs_queue st of
        [] \<Rightarrow> st
      | n # q \<Rightarrow> fold (bfs_visit sinks) (succs g n) (st \<lparr> bfs_queue := q \<rparr>))"

text \<open>Every node that is pushed was not seen before, which bounds the loop.\<close>

definition bfs_todo :: "graph \<Rightarrow> bfs \<Rightarrow> nat" where
  "bfs_todo g st = 2 * card (set (concat (map snd g)) - set (bfs_seen st)) + length (bfs_queue st)"

lemma bfs_visit_todo: "c \<in> set (concat (map snd g)) \<Longrightarrow> bfs_todo g (bfs_visit sinks c st) \<le> bfs_todo g st"
proof -
  assume c: "c \<in> set (concat (map snd g))"
  let ?U = "set (concat (map snd g))" and ?s = "set (bfs_seen st)"
  have "card (?U - insert c ?s) < card (?U - ?s)" if "c \<notin> ?s"
    using c that by (intro psubset_card_mono) auto
  then show ?thesis by (auto simp: bfs_todo_def bfs_visit_def)
qed

lemma succs_targets: "set (succs g n) \<subseteq> set (concat (map snd g))"
  by (cases "map_of g n") (force simp: succs_def unwrap_or_def dest: map_of_SomeD)+

lemma bfs_visits_todo:
  "set cs \<subseteq> set (concat (map snd g)) \<Longrightarrow> bfs_todo g (fold (bfs_visit sinks) cs st) \<le> bfs_todo g st"
proof (induction cs arbitrary: st)
  case (Cons c cs)
  then have "bfs_todo g (fold (bfs_visit sinks) cs (bfs_visit sinks c st)) \<le> bfs_todo g (bfs_visit sinks c st)"
    by simp
  also have "\<dots> \<le> bfs_todo g st" using Cons.prems by (intro bfs_visit_todo) simp
  finally show ?case by simp
qed simp

lemma bfs_pop_todo: "bfs_queue st = n # q \<Longrightarrow> bfs_todo g (bfs_pop g sinks st) < bfs_todo g st"
proof -
  assume q: "bfs_queue st = n # q"
  have "bfs_todo g (bfs_pop g sinks st) \<le> bfs_todo g (st \<lparr> bfs_queue := q \<rparr>)"
    using bfs_visits_todo [OF succs_targets, of g sinks n "st \<lparr> bfs_queue := q \<rparr>"] q
    by (simp add: bfs_pop_def)
  also have "\<dots> < bfs_todo g st" using q by (simp add: bfs_todo_def)
  finally show ?thesis .
qed

function bfs_loop :: "graph \<Rightarrow> string list \<Rightarrow> bfs \<Rightarrow> bfs" where
  "bfs_loop g sinks st = (if bfs_queue st = [] then st else bfs_loop g sinks (bfs_pop g sinks st))"
  by pat_completeness auto
termination
  by (relation "measure (\<lambda>(g, sinks, st). bfs_todo g st)")
    (auto simp: neq_Nil_conv bfs_pop_todo)

declare bfs_loop.simps [simp del]

definition sinks_below :: "config \<Rightarrow> string \<Rightarrow> string list" where
  "sinks_below c src =
     bfs_sinks (bfs_loop (build_consumer_map c) (map sink_name (cfg_sinks c))
       \<lparr> bfs_seen = [], bfs_queue = [src], bfs_sinks = [] \<rparr>)"

definition reachable_sinks_per_source :: "config \<Rightarrow> (string \<times> string list) list" where
  "reachable_sinks_per_source c = map (\<lambda>s. (src_name s, sinks_below c (src_name s))) (cfg_sources c)"

text \<open>Resume at the lowest cursor of the sinks below, never below the configured start.\<close>

definition start_cursor :: "'b ckpt \<Rightarrow> (string \<times> string list) list \<Rightarrow> hs_source \<Rightarrow> u64" where
  "start_cursor st reachable s =
     (case ckpt_restore (s_name s) (unwrap_or [] (map_of reachable (s_name s))) st of
        Some v \<Rightarrow> max v (default_start s)
      | None \<Rightarrow> default_start s)"

section \<open>Tasks\<close>

text \<open>What awaiting a spawned task gives.\<close>

datatype 'a spawned = Joined 'a | Panicked string

text \<open>The input channel of every consumer; a producer holds the names it still sends to.\<close>

type_synonym net = "string \<Rightarrow> channel"

fun fan_out_loop :: "string list \<Rightarrow> batch \<Rightarrow> net \<Rightarrow> string list \<times> net" where
  "fan_out_loop [] b net = ([], net)"
| "fan_out_loop (c # live) b net =
     (case send b (net c) of
        None \<Rightarrow> fan_out_loop live b net
      | Some ch \<Rightarrow>
          (case fan_out_loop live b (net(c := ch)) of (live', net') \<Rightarrow> (c # live', net')))"

definition fan_out :: "string list \<Rightarrow> batch \<Rightarrow> net \<Rightarrow> bool \<times> string list \<times> net" where
  "fan_out live b net = (case fan_out_loop live b net of (live', net') \<Rightarrow> (live' \<noteq> [], live', net'))"

text \<open>Send a list of batches, stopping once nobody listens.\<close>

fun fan_out_all :: "string list \<Rightarrow> batch list \<Rightarrow> net \<Rightarrow> bool \<times> string list \<times> net" where
  "fan_out_all live [] net = (True, live, net)"
| "fan_out_all live (b # bs) net =
     (case fan_out live b net of
        (False, live', net') \<Rightarrow> (False, live', net')
      | (True, live', net') \<Rightarrow> fan_out_all live' bs net')"

record source_stat =
  st_records :: u64
  st_batches :: u64

text \<open>The last component says that the stop flag was set.\<close>

fun source_task :: "string list \<Rightarrow> batch list \<Rightarrow> net \<Rightarrow> source_stat \<Rightarrow> net \<times> source_stat \<times> bool" where
  "source_task live [] net stat = (net, stat, False)"
| "source_task live (b # bs) net stat =
     (let stat' = \<lparr> st_records = st_records stat + of_nat (batch_len b), st_batches = st_batches stat + 1 \<rparr>
      in case fan_out live b net of
           (False, live', net') \<Rightarrow> (net', stat', True)
         | (True, live', net') \<Rightarrow> source_task live' bs net' stat')"

text \<open>A processor that drops every record still sends an empty batch on.\<close>

definition propagate :: "batch \<Rightarrow> batch list \<Rightarrow> batch list" where
  "propagate input produced =
     (if produced = [] \<and> \<not> is_control input then [derive input (b_kind input) []] else produced)"

fun processor_task ::
  "(batch \<Rightarrow> 'w \<Rightarrow> batch list res spawned \<times> 'w) \<Rightarrow> string list \<Rightarrow> batch list \<Rightarrow> net \<Rightarrow> 'w \<Rightarrow> net \<times> 'w" where
  "processor_task process live [] net w = (net, w)"
| "processor_task process live (b # bs) net w =
     (case process b w of
        (Joined (Inr produced), w') \<Rightarrow>
          (case fan_out_all live (propagate b produced) net of
             (False, live', net') \<Rightarrow> (net', w')
           | (True, live', net') \<Rightarrow> processor_task process live' bs net' w')
      | (_, w') \<Rightarrow> processor_task process live bs net w')"

definition SINK_MAX_ATTEMPTS :: nat where
  "SINK_MAX_ATTEMPTS = 3"

definition rewind_target :: "batch \<Rightarrow> u64 option" where
  "rewind_target b =
     (case as_control b of Some (Rollback _ after) \<Rightarrow> Some (sat_add after 1) | _ \<Rightarrow> None)"

function write_loop :: "('w \<Rightarrow> unit res spawned \<times> 'w) \<Rightarrow> nat \<Rightarrow> 'w \<Rightarrow> bool \<times> 'w" where
  "write_loop write attempt w =
     (case write w of
        (Joined (Inr _), w') \<Rightarrow> (True, w')
      | (Joined (Inl e), w') \<Rightarrow>
          if SINK_MAX_ATTEMPTS \<le> attempt + 1 then (False, w') else write_loop write (attempt + 1) w'
      | (Panicked e, w') \<Rightarrow> (False, w'))"
  by pat_completeness auto
termination by (relation "measure (\<lambda>(write, attempt, w). SINK_MAX_ATTEMPTS - attempt)") auto

declare write_loop.simps [simp del]

text \<open>
  One batch of the sink task: write with retries, then rewind for a rollback and acknowledge
  for anything else.  The answer says whether the branch goes on.
\<close>

definition sink_step ::
  "(batch \<Rightarrow> 'w \<Rightarrow> unit res spawned \<times> 'w) \<Rightarrow> ('w \<Rightarrow> bool) \<Rightarrow> string \<Rightarrow> batch \<Rightarrow> 'b ckpt \<Rightarrow> 'w \<Rightarrow> bool \<times> 'b ckpt \<times> 'w" where
  "sink_step write rewind_ok name b st w =
     (case write_loop (write b) 0 w of
        (False, w') \<Rightarrow> (False, st, w')
      | (True, w') \<Rightarrow>
          (case rewind_target b of
             Some to \<Rightarrow>
               (case ckpt_rewind (rewind_ok w') (b_source b) name to st of (ok, st') \<Rightarrow> (ok, st', w'))
           | None \<Rightarrow> (True, ckpt_ack (b_source b) name (ack_block b) st, w')))"

fun sink_task ::
  "(batch \<Rightarrow> 'w \<Rightarrow> unit res spawned \<times> 'w) \<Rightarrow> ('w \<Rightarrow> bool) \<Rightarrow> string \<Rightarrow> batch list \<Rightarrow> 'b ckpt \<Rightarrow> 'w \<Rightarrow> 'b ckpt \<times> 'w" where
  "sink_task write rewind_ok name [] st w = (st, w)"
| "sink_task write rewind_ok name (b # bs) st w =
     (case sink_step write rewind_ok name b st w of
        (False, st', w') \<Rightarrow> (st', w')
      | (True, st', w') \<Rightarrow> sink_task write rewind_ok name bs st' w')"

text \<open>\<open>SinkImpl::write\<close> and \<open>SinkImpl::flush\<close>; the tap ignores print errors.\<close>

definition impl_write ::
  "('h \<Rightarrow> batch \<Rightarrow> 'w \<Rightarrow> unit res \<times> 'w) \<Rightarrow> (json \<Rightarrow> 'w \<Rightarrow> 'w) \<Rightarrow> 'h sink_impl \<Rightarrow> batch \<Rightarrow> 'w \<Rightarrow> unit res \<times> 'w" where
  "impl_write write print sink b w =
     (case sink of
        WasmImpl h \<Rightarrow> write h b w
      | StdoutTap \<Rightarrow> (Inr (), if is_control b then w else fold print (b_records b) w))"

definition impl_flush :: "('h \<Rightarrow> 'w \<Rightarrow> unit res \<times> 'w) \<Rightarrow> 'h sink_impl \<Rightarrow> 'w \<Rightarrow> unit res \<times> 'w" where
  "impl_flush flush sink w = (case sink of WasmImpl h \<Rightarrow> flush h w | StdoutTap \<Rightarrow> (Inr (), w))"

section \<open>The checkpoint tick\<close>

text \<open>\<open>unwrap_or(Ok(()))\<close>: a flush that panicked counts as done.\<close>

fun flush_ok :: "unit res spawned \<Rightarrow> bool" where
  "flush_ok (Joined (Inr _)) = True"
| "flush_ok (Joined (Inl _)) = False"
| "flush_ok (Panicked _) = True"

fun flush_sinks :: "('s \<Rightarrow> 'w \<Rightarrow> unit res spawned \<times> 'w) \<Rightarrow> 's list \<Rightarrow> 'w \<Rightarrow> bool \<times> 'w" where
  "flush_sinks flush [] w = (True, w)"
| "flush_sinks flush (s # sinks) w =
     (case flush s w of (r, w') \<Rightarrow> if flush_ok r then flush_sinks flush sinks w' else (False, w'))"

definition checkpoint_once ::
  "('s \<Rightarrow> 'w \<Rightarrow> unit res spawned \<times> 'w) \<Rightarrow> bool \<Rightarrow> 's list \<Rightarrow> 'b ckpt \<Rightarrow> 'w \<Rightarrow> 'b ckpt \<times> 'w" where
  "checkpoint_once flush txn_ok sinks st w =
     (let snap = ckpt_snapshot st
      in case flush_sinks flush sinks w of
           (False, w') \<Rightarrow> (st, w')
         | (True, w') \<Rightarrow> (snd (persist_snapshot txn_ok snap st), w'))"

section \<open>The status line\<close>

type_synonym status_row = "string \<times> u64 \<times> u64 \<times> u64"  \<comment> \<open>source, records, records per second, batches\<close>

definition status_row_of :: "(string \<rightharpoonup> u64) \<Rightarrow> string \<times> source_stat \<Rightarrow> status_row" where
  "status_row_of last1 row =
     (case row of (name, stat) \<Rightarrow>
        (name, st_records stat, (st_records stat - unwrap_or 0 (last1 name)) div 5, st_batches stat))"

definition status_tick :: "(string \<rightharpoonup> u64) \<Rightarrow> (string \<times> source_stat) list \<Rightarrow> status_row list \<times> (string \<rightharpoonup> u64)" where
  "status_tick last1 per_source =
     (map (status_row_of last1) per_source,
      fold (\<lambda>(name, stat) m. m(name \<mapsto> st_records stat)) per_source last1)"

end
