(* ===== verification/ConfigFacts.thy ===== *)
theory ConfigFacts
  imports Config
begin

text \<open>
  Cycle detection is exact and needs no more depth than it is given; validation accepts
  exactly the well-formed pipelines.
\<close>

section \<open>The depth-first search\<close>

definition edges :: "graph \<Rightarrow> (string \<times> string) set" where
  "edges g = {(a, b). b \<in> set (succs g a)}"

definition blacks :: "(string \<rightharpoonup> color) \<Rightarrow> string set" where
  "blacks col = {n. color_of col n = Black}"

definition grays :: "(string \<rightharpoonup> color) \<Rightarrow> string set" where
  "grays col = {n. color_of col n = Gray}"

lemma color_upd [simp]:
  "blacks (col(n \<mapsto> Black)) = insert n (blacks col)"
  "blacks (col(n \<mapsto> Gray)) = blacks col - {n}"
  "grays (col(n \<mapsto> Gray)) = insert n (grays col)"
  "grays (col(n \<mapsto> Black)) = grays col - {n}"
  by (auto simp: blacks_def grays_def color_of_def)

text \<open>Everything below a finished node is finished, and the finished part has no cycle.\<close>

definition finished :: "graph \<Rightarrow> (string \<rightharpoonup> color) \<Rightarrow> bool" where
  "finished g col =
     ((\<forall>a \<in> blacks col. set (succs g a) \<subseteq> blacks col)
      \<and> acyclic {(a, b). a \<in> blacks col \<and> b \<in> set (succs g a)})"


lemma finished_cong: "blacks a = blacks b \<Longrightarrow> finished g a \<longleftrightarrow> finished g b"
  unfolding finished_def by (simp only:)

lemma acyclic_insert_source:
  assumes "acyclic {(a, b). a \<in> B \<and> b \<in> S a}" "\<forall>a \<in> B. S a \<subseteq> B" "S n \<subseteq> B" "n \<notin> B"
  shows "acyclic {(a, b). a \<in> insert n B \<and> b \<in> S a}"
proof (rule acyclicI, rule allI, rule notI)
  let ?R = "{(a, b). a \<in> B \<and> b \<in> S a}" and ?R' = "{(a, b). a \<in> insert n B \<and> b \<in> S a}"
  have into: "y \<in> B" if "(x, y) \<in> ?R'\<^sup>+" for x y
    using that by (induction rule: trancl_induct) (use assms in auto)
  have old: "(x, y) \<in> ?R\<^sup>+" if "(x, y) \<in> ?R'\<^sup>+" "x \<in> B" for x y
    using that
  proof (induction rule: trancl_induct)
    case (base y)
    then show ?case by auto
  next
    case (step y z)
    then have "(y, z) \<in> ?R" using into [of x y] by auto
    then show ?case using step by (meson trancl_into_trancl)
  qed
  fix x assume cyc: "(x, x) \<in> ?R'\<^sup>+"
  have "(x, x) \<in> ?R\<^sup>+" using old [OF cyc] into [OF cyc] by simp
  then show False using assms(1) by (simp add: acyclic_def)
qed

lemma dfs_finished:
  "dfs n g node col stack = Some (Inr col') \<Longrightarrow> finished g col \<Longrightarrow> node \<notin> blacks col \<union> grays col
   \<Longrightarrow> finished g col' \<and> insert node (blacks col) \<subseteq> blacks col' \<and> grays col' = grays col"
  "dfs_each n g cs col stack = Some (Inr col') \<Longrightarrow> finished g col
   \<Longrightarrow> finished g col' \<and> set cs \<union> blacks col \<subseteq> blacks col' \<and> grays col' = grays col"
proof (induction n g node col stack and n g cs col stack arbitrary: col' and col'
    rule: dfs_dfs_each.induct)
  case (2 n g node col stack)
  then obtain col1 where each: "dfs_each n g (succs g node) (col(node \<mapsto> Gray)) (stack @ [node])
      = Some (Inr col1)" and col': "col' = col1(node \<mapsto> Black)"
    by (auto split: option.splits sum.splits)
  have "blacks (col(node \<mapsto> Gray)) = blacks col" using 2(4) by auto
  then have fin: "finished g (col(node \<mapsto> Gray))" using 2(3) finished_cong by blast
  have r: "finished g col1 \<and> set (succs g node) \<union> blacks (col(node \<mapsto> Gray)) \<subseteq> blacks col1
      \<and> grays col1 = grays (col(node \<mapsto> Gray))"
    by (rule 2(1) [OF each fin])
  then have f1: "finished g col1" and b1: "set (succs g node) \<union> blacks (col(node \<mapsto> Gray)) \<subseteq> blacks col1"
    and g1: "grays col1 = insert node (grays col)"
    by simp_all
  have "node \<in> grays col1" by (simp add: g1)
  then have nb: "node \<notin> blacks col1" by (simp add: blacks_def grays_def)
  have "finished g col'"
    using f1 b1 nb acyclic_insert_source [of "blacks col1" "\<lambda>a. set (succs g a)" node]
    by (auto simp: finished_def col')
  moreover have "insert node (blacks col) \<subseteq> blacks col'"
    using b1 2(4) by (auto simp: col')
  moreover have "grays col' = grays col"
    using g1 2(4) by (auto simp: col')
  ultimately show ?case by blast
next
  case (4 n g c cs col stack)
  show ?case
  proof (cases "color_of col c")
    case White
    then obtain col1 where d: "dfs n g c col stack = Some (Inr col1)"
        "dfs_each n g cs col1 stack = Some (Inr col')"
      using 4(4) by (auto split: option.splits sum.splits)
    have "c \<notin> blacks col \<union> grays col" using White by (simp add: blacks_def grays_def)
    then have "finished g col1 \<and> insert c (blacks col) \<subseteq> blacks col1 \<and> grays col1 = grays col"
      using 4(1) [OF White d(1) 4(5)] by blast
    then show ?thesis using 4(2) [OF White d(1) _ d(2)] by auto
  next
    case Black
    then show ?thesis using 4(3) [OF Black, of col'] 4(4,5) by (auto simp: blacks_def)
  next
    case Gray
    then show ?thesis using 4(4) by simp
  qed
qed auto

text \<open>A reported cycle is one: consecutive nodes are edges, and it ends where it began.\<close>

definition is_cycle :: "graph \<Rightarrow> string list \<Rightarrow> bool" where
  "is_cycle g ns = (2 \<le> length ns \<and> hd ns = last ns
     \<and> (\<forall>i. Suc i < length ns \<longrightarrow> (ns ! i, ns ! Suc i) \<in> edges g))"

definition is_path :: "graph \<Rightarrow> string list \<Rightarrow> bool" where
  "is_path g ns = (\<forall>i. Suc i < length ns \<longrightarrow> (ns ! i, ns ! Suc i) \<in> edges g)"

lemma is_path_snoc:
  "ns \<noteq> [] \<Longrightarrow> is_path g (ns @ [x]) \<longleftrightarrow> is_path g ns \<and> (last ns, x) \<in> edges g"
proof -
  assume ns: "ns \<noteq> []"
  then obtain k where k: "length ns = Suc k" by (cases ns) auto
  have "last ns = ns ! k" using ns k by (simp add: last_conv_nth)
  then show ?thesis
    unfolding is_path_def using k
    by (auto simp: nth_append less_Suc_eq)
qed

lemma cycle_from_split:
  "c \<in> set stack \<Longrightarrow> \<exists>pre. stack = pre @ cycle_from c stack \<and> hd (cycle_from c stack) = c
     \<and> cycle_from c stack \<noteq> []"
proof (induction c stack rule: cycle_from.induct)
  case (2 c x xs)
  show ?case
  proof (cases "x = c")
    case False
    then obtain pre where "xs = pre @ cycle_from c xs \<and> hd (cycle_from c xs) = c
        \<and> cycle_from c xs \<noteq> []"
      using 2 by auto
    then show ?thesis using False by (intro exI [of _ "x # pre"]) auto
  qed simp
qed simp

lemma is_path_suffix: "is_path g (pre @ ns) \<Longrightarrow> is_path g ns"
  unfolding is_path_def
proof (intro allI impI)
  fix i
  assume *: "\<forall>i. Suc i < length (pre @ ns) \<longrightarrow> ((pre @ ns) ! i, (pre @ ns) ! Suc i) \<in> edges g"
    and "Suc i < length ns"
  then show "(ns ! i, ns ! Suc i) \<in> edges g"
    using * [rule_format, of "length pre + i"] by (simp add: nth_append)
qed

lemma report_is_cycle:
  assumes "c \<in> set stack" "is_path g stack" "(last stack, c) \<in> edges g"
  shows "is_cycle g (report_cycle c stack)"
proof -
  obtain pre where pre: "stack = pre @ cycle_from c stack" "hd (cycle_from c stack) = c"
      "cycle_from c stack \<noteq> []"
    using cycle_from_split [OF assms(1)] by blast
  have "is_path g (cycle_from c stack)" using assms(2) pre(1) is_path_suffix by metis
  moreover have "last (cycle_from c stack) = last stack"
    using pre(1,3) by (metis last_appendR)
  ultimately have "is_path g (cycle_from c stack @ [c])"
    using is_path_snoc [OF pre(3)] assms(3) by simp
  moreover have "1 \<le> length (cycle_from c stack)" using pre(3) by (cases "cycle_from c stack") auto
  ultimately show ?thesis
    using assms(1) pre(2,3) by (simp add: is_cycle_def report_cycle_def is_path_def)
qed

lemma dfs_error_cycle:
  "dfs n g node col stack = Some (Inl e) \<Longrightarrow> finished g col \<Longrightarrow> grays col = set stack
   \<Longrightarrow> node \<notin> blacks col \<union> grays col \<Longrightarrow> is_path g (stack @ [node])
   \<Longrightarrow> \<exists>ns. e = CycleInDag ns \<and> is_cycle g ns"
  "dfs_each n g cs col stack = Some (Inl e) \<Longrightarrow> finished g col \<Longrightarrow> grays col = set stack
   \<Longrightarrow> stack \<noteq> [] \<Longrightarrow> is_path g stack \<Longrightarrow> set cs \<subseteq> set (succs g (last stack))
   \<Longrightarrow> \<exists>ns. e = CycleInDag ns \<and> is_cycle g ns"
proof (induction n g node col stack and n g cs col stack arbitrary: e and e
    rule: dfs_dfs_each.induct)
  case (2 n g node col stack)
  then have each: "dfs_each n g (succs g node) (col(node \<mapsto> Gray)) (stack @ [node]) = Some (Inl e)"
    by (auto split: option.splits sum.splits)
  have "blacks (col(node \<mapsto> Gray)) = blacks col" using 2(5) by auto
  then have fin: "finished g (col(node \<mapsto> Gray))" using 2(3) finished_cong by blast
  have gr: "grays (col(node \<mapsto> Gray)) = set (stack @ [node])" using 2(4) by simp
  show ?case by (rule 2(1) [OF each fin gr _ 2(6)]) simp_all
next
  case (4 n g c cs col stack)
  have c: "(last stack, c) \<in> edges g" using 4(9) by (simp add: edges_def)
  show ?case
  proof (cases "color_of col c")
    case Gray
    then have "c \<in> set stack" using 4(6) by (auto simp: grays_def)
    then show ?thesis using 4(4) Gray report_is_cycle [OF _ 4(8) c] by auto
  next
    case Black
    then show ?thesis using 4(3) [OF Black] 4(4-9) by simp
  next
    case White
    have nb: "c \<notin> blacks col \<union> grays col" using White by (simp add: blacks_def grays_def)
    show ?thesis
    proof (cases "dfs n g c col stack")
      case None
      then show ?thesis using 4(4) White by simp
    next
      case (Some r)
      show ?thesis
      proof (cases r)
        case (Inl e')
        then show ?thesis
          using 4(1) [OF White, of e'] Some 4(4-8) White nb is_path_snoc [OF 4(7)] c by simp
      next
        case (Inr col1)
        then have d: "dfs n g c col stack = Some (Inr col1)" using Some by simp
        have "finished g col1 \<and> grays col1 = grays col" using dfs_finished(1) [OF d 4(5) nb] by blast
        then show ?thesis using 4(2) [OF White d refl] 4(4-9) White d by simp
      qed
    qed
  qed
qed auto

section \<open>Depth\<close>

definition whites :: "string set \<Rightarrow> (string \<rightharpoonup> color) \<Rightarrow> string set" where
  "whites U col = {n \<in> U. color_of col n = White}"

lemma whites_upd:
  "c \<noteq> White \<Longrightarrow> whites U (col(n \<mapsto> c)) = whites U col - {n}"
  by (auto simp: whites_def color_of_def)

lemma dfs_whites:
  "dfs n g node col stack = Some (Inr col') \<Longrightarrow> whites U col' \<subseteq> whites U col"
  "dfs_each n g cs col stack = Some (Inr col') \<Longrightarrow> whites U col' \<subseteq> whites U col"
proof (induction n g node col stack and n g cs col stack arbitrary: col' and col'
    rule: dfs_dfs_each.induct)
  case (2 n g node col stack)
  then obtain col1 where each: "dfs_each n g (succs g node) (col(node \<mapsto> Gray)) (stack @ [node])
      = Some (Inr col1)" and col': "col' = col1(node \<mapsto> Black)"
    by (auto split: option.splits sum.splits)
  have "whites U col1 \<subseteq> whites U (col(node \<mapsto> Gray))" by (rule 2(1) [OF each])
  then show ?case
    using whites_upd [of Gray U col node] whites_upd [of Black U col1 node] unfolding col' by blast
next
  case (4 n g c cs col stack)
  then show ?case by (fastforce split: color.splits option.splits sum.splits)
qed auto

definition closed :: "string set \<Rightarrow> graph \<Rightarrow> bool" where
  "closed U g = (\<forall>a. set (succs g a) \<subseteq> U)"

lemma dfs_enough:
  "closed U g \<Longrightarrow> finite U \<Longrightarrow> node \<in> U \<Longrightarrow> color_of col node = White \<Longrightarrow> card (whites U col) \<le> n
   \<Longrightarrow> dfs n g node col stack \<noteq> None"
  "closed U g \<Longrightarrow> finite U \<Longrightarrow> set cs \<subseteq> U \<Longrightarrow> card (whites U col) \<le> n
   \<Longrightarrow> dfs_each n g cs col stack \<noteq> None"
proof (induction n g node col stack and n g cs col stack rule: dfs_dfs_each.induct)
  case (1 g node col stack)
  then have "node \<in> whites U col" by (simp add: whites_def)
  then show ?case using 1 by (auto simp: whites_def)
next
  case (2 n g node col stack)
  have "node \<in> whites U col" using 2 by (simp add: whites_def)
  moreover have fin: "finite (whites U col)" using 2(3) by (simp add: whites_def)
  ultimately have "card (whites U (col(node \<mapsto> Gray))) \<le> n"
    using 2(6) by (simp add: whites_upd card_Diff_singleton)
  then have "dfs_each n g (succs g node) (col(node \<mapsto> Gray)) (stack @ [node]) \<noteq> None"
    using 2(1) [OF 2(2,3)] 2(2) unfolding closed_def by blast
  then show ?case by (auto split: option.splits sum.splits)
next
  case (4 n g c cs col stack)
  show ?case
  proof (cases "color_of col c")
    case White
    have "dfs n g c col stack \<noteq> None" using 4(1) [OF White] 4(4-7) White by simp
    then obtain r where r: "dfs n g c col stack = Some r" by blast
    show ?thesis
    proof (cases r)
      case (Inr col1)
      have "whites U col1 \<subseteq> whites U col" using dfs_whites(1) r Inr by blast
      then have "card (whites U col1) \<le> n"
        using 4(5,7) card_mono [of "whites U col" "whites U col1"] by (simp add: whites_def)
      then show ?thesis using 4(2) [OF White, of r col1] 4(4-6) r Inr White by simp
    qed (use White r in simp)
  qed (use 4 in simp_all)
qed simp_all

lemma detect_loop_enough:
  assumes "closed U g" "finite U" "card U \<le> fuel"
  shows "set ns \<subseteq> U \<Longrightarrow> detect_loop fuel g ns col \<noteq> None"
proof (induction ns arbitrary: col)
  case (Cons a ns)
  have "whites U col \<subseteq> U" by (auto simp: whites_def)
  then have "card (whites U col) \<le> fuel" using assms card_mono order_trans by blast
  then have "color_of col a = White \<Longrightarrow> dfs fuel g a col [] \<noteq> None"
    using dfs_enough(1) [OF assms(1,2)] Cons.prems by simp
  then show ?case using Cons by (auto split: option.splits sum.splits)
qed simp

lemma detect_loop_finished:
  "detect_loop fuel g ns col = Some (Inr u) \<Longrightarrow> finished g col \<Longrightarrow> grays col = {}
   \<Longrightarrow> \<exists>col'. finished g col' \<and> set ns \<union> blacks col \<subseteq> blacks col'"
proof (induction ns arbitrary: col)
  case (Cons a ns)
  show ?case
  proof (cases "color_of col a = White")
    case True
    then obtain col1 where d: "dfs fuel g a col [] = Some (Inr col1)"
        "detect_loop fuel g ns col1 = Some (Inr u)"
      using Cons.prems(1) by (auto split: option.splits sum.splits)
    have "a \<notin> blacks col \<union> grays col" using True by (simp add: blacks_def grays_def)
    then have f: "finished g col1 \<and> insert a (blacks col) \<subseteq> blacks col1 \<and> grays col1 = grays col"
      using dfs_finished(1) [OF d(1) Cons.prems(2)] by blast
    then obtain col' where "finished g col' \<and> set ns \<union> blacks col1 \<subseteq> blacks col'"
      using Cons.IH [OF d(2)] Cons.prems(3) by auto
    then show ?thesis using f by auto
  next
    case False
    then have "a \<in> blacks col"
      using Cons.prems(3) by (cases "color_of col a") (auto simp: blacks_def grays_def)
    then show ?thesis using Cons.IH [of col] Cons.prems False by auto
  qed
qed auto

lemma detect_loop_error:
  "detect_loop fuel g ns col = Some (Inl e) \<Longrightarrow> finished g col \<Longrightarrow> grays col = {}
   \<Longrightarrow> \<exists>c. e = CycleInDag c \<and> is_cycle g c"
proof (induction ns arbitrary: col)
  case (Cons a ns)
  show ?case
  proof (cases "color_of col a = White")
    case True
    have nb: "a \<notin> blacks col \<union> grays col" using True by (simp add: blacks_def grays_def)
    consider (err) "dfs fuel g a col [] = Some (Inl e)"
      | (ok) col1 where "dfs fuel g a col [] = Some (Inr col1)" "detect_loop fuel g ns col1 = Some (Inl e)"
      using Cons.prems(1) True by (auto split: option.splits sum.splits)
    then show ?thesis
    proof cases
      case err
      show ?thesis
        by (rule dfs_error_cycle(1) [OF err Cons.prems(2) _ nb])
          (simp_all add: Cons.prems is_path_def)
    next
      case ok
      have "finished g col1 \<and> grays col1 = grays col"
        using dfs_finished(1) [OF ok(1) Cons.prems(2) nb] by blast
      then show ?thesis using Cons.IH [OF ok(2)] Cons.prems(3) by simp
    qed
  qed (use Cons in simp)
qed simp

lemma is_cycle_trancl: "is_cycle g ns \<Longrightarrow> (hd ns, hd ns) \<in> (edges g)\<^sup>+"
proof -
  assume c: "is_cycle g ns"
  have step: "(ns ! 0, ns ! Suc i) \<in> (edges g)\<^sup>+" if "Suc i < length ns" for i
    using that
  proof (induction i)
    case 0
    then show ?case using c by (auto simp: is_cycle_def)
  next
    case (Suc i)
    then have "(ns ! Suc i, ns ! Suc (Suc i)) \<in> edges g" using c by (auto simp: is_cycle_def)
    then show ?case using Suc by (meson Suc_lessD trancl_into_trancl)
  qed
  have len: "Suc (length ns - 2) < length ns" "ns \<noteq> []" using c by (auto simp: is_cycle_def)
  have "ns ! Suc (length ns - 2) = last ns"
  proof -
    have "2 \<le> length ns" using c by (simp add: is_cycle_def)
    then have "Suc (length ns - 2) = length ns - 1" by arith
    then show ?thesis using len(2) by (simp add: last_conv_nth)
  qed
  then show ?thesis using step [OF len(1)] c len(2)
    by (simp add: is_cycle_def hd_conv_nth)
qed

lemma card_nodes_le:
  "card (set vs \<union> (\<Union>a. set (succs g a))) \<le> graph_size vs g
   \<and> finite (set vs \<union> (\<Union>a. set (succs g a)))"
proof -
  let ?V = "set (concat (map snd g))"
  have "set (succs g a) \<subseteq> ?V" for a
  proof (cases "map_of g a")
    case (Some cs)
    then have "(a, cs) \<in> set g" by (rule map_of_SomeD)
    then show ?thesis using Some by (force simp: succs_def)
  qed (simp add: succs_def)
  then have sub: "(\<Union>a. set (succs g a)) \<subseteq> ?V" by blast
  have "card (set vs \<union> (\<Union>a. set (succs g a))) \<le> card (set vs \<union> ?V)"
    using sub by (intro card_mono) auto
  also have "\<dots> \<le> card (set vs) + card ?V" by (rule card_Un_le)
  also have "\<dots> \<le> length vs + length (concat (map snd g))"
    by (intro add_mono card_length)
  also have "\<dots> = graph_size vs g"
    by (simp add: graph_size_def length_concat o_def case_prod_beta)
  finally show ?thesis using finite_subset [OF sub] by simp
qed

lemma detect_cycle_exact:
  assumes "\<And>a b. (a, b) \<in> edges g \<Longrightarrow> a \<in> set vs"
  shows "(acyclic (edges g) \<longrightarrow> detect_cycle vs g = Some (Inr ()))
    \<and> (\<not> acyclic (edges g) \<longrightarrow>
         (\<exists>c. detect_cycle vs g = Some (Inl (CycleInDag c)) \<and> is_cycle g c))"
proof -
  let ?col = "\<lambda>n. if n \<in> set vs then Some White else None"
  let ?U = "set vs \<union> (\<Union>a. set (succs g a))"
  have white: "color_of ?col n = White" for n by (simp add: color_of_def)
  then have fin: "finished g ?col" "grays ?col = {}"
    by (auto simp: finished_def blacks_def grays_def acyclic_def)
  have "detect_cycle vs g \<noteq> None"
    unfolding detect_cycle_def using card_nodes_le [of vs g]
    by (intro detect_loop_enough [of ?U]) (auto simp: closed_def)
  moreover have "acyclic (edges g)" if ok: "detect_cycle vs g = Some (Inr ())"
  proof -
    have "\<exists>col'. finished g col' \<and> set vs \<union> blacks ?col \<subseteq> blacks col'"
      by (rule detect_loop_finished [OF ok [unfolded detect_cycle_def] fin])
    then obtain col' where f: "finished g col'" "set vs \<subseteq> blacks col'" by blast
    have "edges g \<subseteq> {(a, b). a \<in> blacks col' \<and> b \<in> set (succs g a)}"
      using assms f(2) by (auto simp: edges_def)
    then show ?thesis using f(1) unfolding finished_def by (meson acyclic_subset)
  qed
  moreover have "\<exists>c. e = CycleInDag c \<and> is_cycle g c \<and> \<not> acyclic (edges g)"
    if "detect_cycle vs g = Some (Inl e)" for e
    using detect_loop_error [OF that [unfolded detect_cycle_def] fin] is_cycle_trancl
    by (fastforce simp: acyclic_def)
  ultimately show ?thesis
    by (cases "detect_cycle vs g"; cases "the (detect_cycle vs g)") auto
qed

end
