(* ===== verification/CheckpointProps.thy ===== *)
theory CheckpointProps
  imports Checkpoint
begin

text \<open>
  The properties of the checkpoint store: resuming is safe, a rewind wins over a stale
  snapshot, the key-value store reads its own writes and keeps them across a restart, and
  the failures that the code does not survive.
\<close>

section \<open>Restoring\<close>

lemma restore_min_eq:
  "restore_min c src sinks m =
     (let vs = (\<lambda>k. map_of c (src, k)) ` set sinks
      in if None \<in> vs then None else Some (Min (insert m (the ` vs))))"
proof (induction sinks arbitrary: m)
  case (Cons k sinks)
  have fin: "finite (the ` (\<lambda>k. map_of c (src, k)) ` set sinks)" by simp
  show ?case
  proof (cases "map_of c (src, k)")
    case (Some v)
    have "Min (insert (min m v) B) = Min (insert m (insert v B))" if "finite B" for B :: "u64 set"
      using that by (cases "B = {}") (auto simp: min.assoc)
    then show ?thesis using fin Some Cons.IH by (simp add: Let_def)
  qed (simp add: Let_def)
qed simp

lemma restore_le:
  assumes "ckpt_restore src sinks st = Some c" "k \<in> set sinks"
  shows "\<exists>v. mem_cursor st (src, k) = Some v \<and> c \<le> v"
proof -
  let ?vs = "(\<lambda>k. map_of (ck_cursors st) (src, k)) ` set sinks"
  have none: "None \<notin> ?vs" and c: "c = Min (insert u64_max (the ` ?vs))"
    using assms(1) by (auto simp: ckpt_restore_def restore_min_eq Let_def split: if_splits)
  obtain v where v: "map_of (ck_cursors st) (src, k) = Some v"
    using none assms(2) by (cases "map_of (ck_cursors st) (src, k)") (auto simp: image_iff)
  then have "v \<in> the ` ?vs" using assms(2) by force
  then have "c \<le> v" unfolding c by (intro Min_le) simp_all
  then show ?thesis using v by (simp add: mem_cursor_def)
qed

section \<open>Coherence of the read cache\<close>

text \<open>What the cache says of a key that is not dirty is what the table holds.\<close>

definition kv_coherent :: "'b ckpt \<Rightarrow> bool" where
  "kv_coherent st =
     (\<forall>k v. map_of (ck_kv_dirty st) k = None \<longrightarrow> map_of (ck_kv_cache st) k = Some v
        \<longrightarrow> v = map_of (db_kv (ck_db st)) k)"

lemma kv_coherent_open [simp]: "kv_coherent (ckpt_open file)"
  by (simp add: kv_coherent_def ckpt_open_def Let_def)

lemma kv_coherent_set: "maps_ok st \<Longrightarrow> kv_coherent st \<Longrightarrow> kv_coherent (ckpt_kv_set st m k v)"
  by (auto simp: kv_coherent_def ckpt_kv_set_def Let_def maps_okD split: if_splits)

lemma kv_coherent_get: "maps_ok st \<Longrightarrow> kv_coherent st \<Longrightarrow> kv_coherent (snd (ckpt_kv_get True st m k))"
  by (auto simp: kv_coherent_def ckpt_get_cases maps_okD split: if_splits)

lemma kv_view_coherent:
  assumes "kv_coherent st"
  shows "kv_view st = map_of (db_kv (ck_db st)) ++ map_of (ck_kv_dirty st)"
proof
  fix k
  show "kv_view st k = (map_of (db_kv (ck_db st)) ++ map_of (ck_kv_dirty st)) k"
    using assms
    by (cases "map_of (ck_kv_dirty st) k"; cases "map_of (ck_kv_cache st) k")
      (auto simp: kv_view_def kv_coherent_def map_add_def)
qed

lemma kv_table_persist:
  assumes "maps_ok st"
  shows "map_of (db_kv (ck_db (snd (persist_snapshot True s st)))) =
     map_of (db_kv (ck_db st)) ++ map_of (rev (ck_kv_dirty st))"
  using assms write_rows_view [of "ck_db st" "ck_cursors st" s]
    write_kv_view [of "write_rows (ck_cursors st) s (ck_db st)" "ck_kv_dirty st"]
  by (simp add: persist_snapshot_def Let_def maps_okD)

lemma map_of_rev_btm: "btm_ok m \<Longrightarrow> map_of (rev m) = map_of m"
  by (rule map_of_rev_distinct) (rule btm_ok_distinct)

lemma kv_view_open: "kv_view (ckpt_open (Some db)) = map_of (db_kv db)"
  by (simp add: kv_view_def ckpt_open_def Let_def fun_eq_iff)

lemma kv_durable:
  assumes "maps_ok st" "kv_coherent st"
  shows "kv_view (ckpt_open (Some (ck_db (snd (persist_snapshot True s st))))) = kv_view st"
  using assms
  by (simp add: kv_view_open kv_table_persist kv_view_coherent map_of_rev_btm maps_okD)

section \<open>Concrete stores\<close>

definition demo_ckpt :: "json ckpt" where
  "demo_ckpt = ckpt_ack ''eth'' ''pg'' 200 (ckpt_open None)"

lemma demo_reach: "ck_reach demo_ckpt None"
  unfolding demo_ckpt_def by (intro ck_reach.intros) (simp add: small_def)

lemma demo_maps_ok: "maps_ok demo_ckpt"
  using ckpt_inv_reach [OF demo_reach] by (simp add: ckpt_inv_def)

lemma demo_cursors: "ck_cursors demo_ckpt = [((''eth'', ''pg''), 200)]"
  by (simp add: demo_ckpt_def ckpt_ack_def ckpt_open_def empty_db_def)

lemma demo_mem_cursor: "mem_cursor demo_ckpt = [(''eth'', ''pg'') \<mapsto> 200]"
  by (simp add: mem_cursor_def demo_cursors)

lemma demo_coherent: "kv_coherent demo_ckpt"
  by (simp add: demo_ckpt_def kv_coherent_def ckpt_ack_def ckpt_open_def Let_def)

section \<open>Properties\<close>



text \<open>
  The resume block of a source is the least live cursor over the sinks it feeds; there
  is none when it feeds no sink or when one of them has no cursor yet.
\<close>

theorem restore_is_minimum:
  "ckpt_restore src sinks st =
     (let vs = (\<lambda>k. mem_cursor st (src, k)) ` set sinks
      in if sinks = [] \<or> None \<in> vs then None
         else let c = Min (the ` vs) in if c = u64_max then None else Some c)"
proof (cases "sinks = []")
  case False
  let ?vs = "(\<lambda>k. mem_cursor st (src, k)) ` set sinks"
  have "finite (the ` ?vs)" "the ` ?vs \<noteq> {}" using False by simp_all
  then have "Min (insert u64_max (the ` ?vs)) = Min (the ` ?vs)"
    by (simp add: min_absorb2)
  then show ?thesis using False
    by (simp add: ckpt_restore_def restore_min_eq Let_def mem_cursor_def)
qed (simp add: ckpt_restore_def)



text \<open>
  A tick that commits makes exactly the snapshot durable, each row floored at the live
  cursor, leaves every other row alone, and makes the whole key-value state durable: a store
  reopened afterwards reads what this one reads.
\<close>

theorem persist_is_exact:
  assumes "maps_ok st" "kv_coherent st"
  shows "durable_cursor (snd (persist_snapshot True s st)) k =
      (case map_of (rev s) k of
         None \<Rightarrow> durable_cursor st k
       | Some n \<Rightarrow> Some (case mem_cursor st k of None \<Rightarrow> n | Some cur \<Rightarrow> min n cur))
    \<and> kv_view (ckpt_open (Some (ck_db (snd (persist_snapshot True s st))))) = kv_view st
    \<and> mem_cursor (snd (persist_snapshot True s st)) = mem_cursor st"
  using kv_durable [OF assms]
  by (simp add: durable_persist [OF assms(1)] floor_row_def mem_cursor_def [symmetric]
      cong: option.case_cong)

theorem persist_is_exact_witness:
  "durable_cursor (snd (persist_snapshot True [((''eth'', ''pg''), 300)] demo_ckpt)) (''eth'', ''pg'')
     = Some 200"
  using persist_is_exact [OF demo_maps_ok demo_coherent, of "[((''eth'', ''pg''), 300)]" "(''eth'', ''pg'')"]
  by (simp add: demo_mem_cursor)



section \<open>The reorg window across a restart\<close>

lemma maps_ok_open_db: "maps_ok st \<Longrightarrow> maps_ok (ckpt_open (Some (ck_db st)))"
  by (simp add: maps_okD)

lemma saved_window_reloads:
  assumes "maps_ok st" "kv_coherent st" "\<And>v. from_slice (to_vec v) = Inr v"
    and "tracker_ok t" "t_window t = max w 1"
    and "tracker_save ckpt_kv_set to_vec t src (Some st) = Some st1"
  shows "fst (tracker_load (ckpt_kv_get True) from_slice w src
     (Some (ckpt_open (Some (ck_db (snd (persist_snapshot True s st1))))))) = t"
proof -
  have st1: "st1 = ckpt_kv_set st (kv_module src) KV_KEY (to_vec (pairs_to_value (t_hashes t)))"
    using assms(6) by (simp add: tracker_save_def)
  then have ok: "maps_ok st1" "kv_coherent st1"
    using assms(1,2) by (simp_all add: maps_ok_set kv_coherent_set)
  have "kv_view st1 (kv_module src, KV_KEY) = Some (to_vec (pairs_to_value (t_hashes t)))"
    using assms(1) by (simp add: st1 kv_view_set)
  then show ?thesis
    using assms(3-5) ok
    by (intro durable.tracker_load_view) (simp_all add: kv_durable maps_ok_open_db)
qed



section \<open>Failures that lose state\<close>

text \<open>
  The dirty entries are drained before the transaction, so a write whose first tick
  fails is never made durable: the running store still reads it, later ticks that commit do
  not write it, and after a restart the key has its value from before the write.
\<close>

theorem failed_tick_loses_kv_write:
  assumes "maps_ok st" "kv_coherent st" "ck_kv_dirty st = []"
    and "st1 = snd (persist_snapshot False s (ckpt_kv_set st m k v))"
  shows "kv_view st1 (m, k) = Some v
    \<and> kv_view (ckpt_open (Some (ck_db (snd (persist_snapshot True s' st1))))) (m, k) = kv_view st (m, k)"
proof -
  have dirty: "ck_kv_dirty st1 = []" and db: "ck_db st1 = ck_db st"
    and cache: "ck_kv_cache st1 = btm_insert (m, k) (Some v) (ck_kv_cache st)"
    by (simp_all add: assms(4) persist_snapshot_def ckpt_kv_set_def Let_def)
  have ok: "maps_ok st1" using assms(1) by (simp add: assms(4) maps_ok_set)
  have "kv_view st1 (m, k) = Some v"
    using assms(1) by (simp add: kv_view_def dirty cache maps_okD)
  moreover have "kv_view st (m, k) = map_of (db_kv (ck_db st)) (m, k)"
    using assms(3) by (simp add: kv_view_coherent [OF assms(2)])
  ultimately show ?thesis
    by (simp add: kv_view_open kv_table_persist [OF ok] dirty db)
qed

theorem failed_tick_loses_kv_write_witness:
  "kv_view (snd (persist_snapshot False [] (ckpt_kv_set demo_ckpt ''m'' ''k'' (jnat 1)))) (''m'', ''k'')
     = Some (jnat 1)
   \<and> kv_view (ckpt_open (Some (ck_db (snd (persist_snapshot True []
        (snd (persist_snapshot False [] (ckpt_kv_set demo_ckpt ''m'' ''k'' (jnat 1))))))))) (''m'', ''k'')
     = kv_view demo_ckpt (''m'', ''k'')"
  by (rule failed_tick_loses_kv_write [OF demo_maps_ok demo_coherent _ refl])
    (simp add: demo_ckpt_def ckpt_ack_def ckpt_open_def Let_def)

text \<open>
  A failed read is cached as an absent value: once one read of a key fails, every later
  read of the running store finds nothing, whatever the table holds.
\<close>

theorem failed_read_is_cached:
  assumes "maps_ok st" "map_of (ck_kv_dirty st) (m, k) = None" "map_of (ck_kv_cache st) (m, k) = None"
  shows "fst (ckpt_kv_get True (snd (ckpt_kv_get False st m k)) m k) = None"
  using assms by (simp add: ckpt_kv_get_def Let_def maps_okD)

definition stored_ckpt :: "json ckpt" where
  "stored_ckpt = ckpt_open (Some \<lparr> db_cursors = [], db_kv = [((''m'', ''k''), jnat 1)] \<rparr>)"

theorem failed_read_is_cached_witness:
  "fst (ckpt_kv_get True stored_ckpt ''m'' ''k'') = Some (jnat 1)
   \<and> fst (ckpt_kv_get True (snd (ckpt_kv_get False stored_ckpt ''m'' ''k'')) ''m'' ''k'') = None"
proof
  show "fst (ckpt_kv_get True (snd (ckpt_kv_get False stored_ckpt ''m'' ''k'')) ''m'' ''k'') = None"
    by (rule failed_read_is_cached)
      (simp_all add: stored_ckpt_def ckpt_open_def btm_ok_def Let_def maps_ok_def)
qed (simp add: stored_ckpt_def ckpt_open_def ckpt_kv_get_def Let_def)

text \<open>
  One row of a tick with another task in between: the floor is read from the live cursors
  under their lock, the row is written to the database afterwards.
\<close>

definition persist_row_interleaved :: "('b ckpt \<Rightarrow> 'b ckpt) \<Rightarrow> cursor_key \<times> u64 \<Rightarrow> 'b ckpt \<Rightarrow> 'b ckpt" where
  "persist_row_interleaved between row st =
     (let floor = floor_row (ck_cursors st) row; st' = between st
      in st' \<lparr> ck_db := sql_upsert_cursor (fst row) (as_i64 floor) (ck_db st') \<rparr>)"

text \<open>
  The floor does not protect against a rewind that lands between reading the live
  cursor and writing the row: the durable cursor ends above the live one, at the block that
  the rewind had just invalidated.
\<close>

theorem rewind_races_tick:
  assumes "maps_ok st" "mem_cursor st (src, k) = Some cur" "n < cur"
    and "st' = persist_row_interleaved (\<lambda>st. snd (ckpt_rewind True src k n st)) ((src, k), cur) st"
  shows "mem_cursor st' (src, k) = Some n \<and> durable_cursor st' (src, k) = Some cur"
proof -
  let ?st = "snd (ckpt_rewind True src k n st)"
  have "mem_cursor ?st (src, k) = Some n"
    using assms(2,3) by (auto simp: mem_cursor_rewind_step [OF assms(1)] min_def)
  moreover have "floor_row (ck_cursors st) ((src, k), cur) = cur"
    using assms(2) by (simp add: floor_row_def mem_cursor_def)
  moreover have "btm_ok (db_cursors (ck_db ?st))" using assms(1) by (intro maps_okD) simp
  ultimately show ?thesis
    by (simp add: assms(4) persist_row_interleaved_def Let_def mem_cursor_def durable_cursor_def
        sql_upsert_cursor_def)
qed

theorem rewind_races_tick_witness:
  "durable_cursor (persist_row_interleaved (\<lambda>st. snd (ckpt_rewind True ''eth'' ''pg'' 100 st))
     ((''eth'', ''pg''), 200) demo_ckpt) (''eth'', ''pg'') = Some 200"
  using rewind_races_tick [OF demo_maps_ok _ _ refl, of "''eth''" "''pg''" 200 100]
  by (simp add: demo_mem_cursor)

end
