(* ===== verification/PipelineProps.thy ===== *)
theory PipelineProps
  imports Pipeline ConfigFacts CheckpointProps
begin

text \<open>
  Properties of the DAG runtime: which sinks a source waits for, what every branch receives,
  when a sink's cursor moves and what a checkpoint makes durable.
\<close>

section \<open>The sinks below a source\<close>

text \<open>The edges of the DAG, as the configuration spells them.\<close>

definition feeds :: "config \<Rightarrow> (string \<times> string) set" where
  "feeds c = {(a, b). \<exists>inputs. (b, inputs) \<in> set (consumer_list c) \<and> a \<in> set inputs}"

lemma succs_push_edge: "btm_ok g \<Longrightarrow> succs (push_edge (a, b) g) n = succs g n @ (if n = a then [b] else [])"
  by (simp add: push_edge_def succs_def unwrap_or_def)

lemma push_edge_ok: "btm_ok g \<Longrightarrow> btm_ok (push_edge e g)"
  by (simp add: push_edge_def)

lemma push_inputs:
  "btm_ok g \<Longrightarrow> btm_ok (fold (\<lambda>inp m. push_edge (inp, b) m) inputs g)
     \<and> set (succs (fold (\<lambda>inp m. push_edge (inp, b) m) inputs g) n) = set (succs g n) \<union> (if n \<in> set inputs then {b} else {})"
proof (induction inputs arbitrary: g)
  case (Cons a inputs)
  then show ?case using Cons.IH [of "push_edge (a, b) g"] by (auto simp: push_edge_ok succs_push_edge)
qed simp

lemma consumer_map_edges: "edges (build_consumer_map c) = feeds c"
proof -
  have "btm_ok g \<Longrightarrow>
      set (succs (fold (\<lambda>(name, inputs) m. fold (\<lambda>inp m. push_edge (inp, name) m) inputs m) cl g) n)
        = set (succs g n) \<union> {b. \<exists>inputs. (b, inputs) \<in> set cl \<and> n \<in> set inputs}" for cl g n
  proof (induction cl arbitrary: g)
    case (Cons e cl)
    obtain b inputs where e: "e = (b, inputs)" by (cases e)
    show ?case
      using Cons.IH [OF push_inputs [OF Cons.prems, of b inputs, THEN conjunct1]] push_inputs [OF Cons.prems, of b inputs n]
      by (auto simp: e)
  qed simp
  from this [of "[]"] show ?thesis by (simp add: edges_def feeds_def build_consumer_map_def btm_ok_def succs_def unwrap_or_def)
qed

lemma bfs_visit_old: "c \<in> set (bfs_seen st) \<Longrightarrow> bfs_visit sinks c st = st"
  by (simp add: bfs_visit_def)

lemma bfs_visit_new:
  assumes "c \<notin> set (bfs_seen st)"
  shows "bfs_seen (bfs_visit sinks c st) = bfs_seen st @ [c]"
    "bfs_queue (bfs_visit sinks c st) = bfs_queue st @ [c]"
    "bfs_sinks (bfs_visit sinks c st) = bfs_sinks st @ filter (\<lambda>c. c \<in> set sinks) [c]"
  using assms by (simp_all add: bfs_visit_def)

lemma bfs_visits:
  "\<exists>new. bfs_seen (fold (bfs_visit sinks) cs st) = bfs_seen st @ new
     \<and> bfs_queue (fold (bfs_visit sinks) cs st) = bfs_queue st @ new
     \<and> bfs_sinks (fold (bfs_visit sinks) cs st) = bfs_sinks st @ filter (\<lambda>c. c \<in> set sinks) new
     \<and> set new = set cs - set (bfs_seen st) \<and> distinct new"
proof (induction cs arbitrary: st)
  case (Cons c cs)
  show ?case
  proof (cases "c \<in> set (bfs_seen st)")
    case True
    then have "set (c # cs) - set (bfs_seen st) = set cs - set (bfs_seen st)" by auto
    then show ?thesis using Cons.IH [of st] True by (simp add: bfs_visit_old)
  next
    case False
    obtain new where new:
      "bfs_seen (fold (bfs_visit sinks) cs (bfs_visit sinks c st)) = (bfs_seen st @ [c]) @ new"
      "bfs_queue (fold (bfs_visit sinks) cs (bfs_visit sinks c st)) = (bfs_queue st @ [c]) @ new"
      "bfs_sinks (fold (bfs_visit sinks) cs (bfs_visit sinks c st)) =
         (bfs_sinks st @ filter (\<lambda>c. c \<in> set sinks) [c]) @ filter (\<lambda>c. c \<in> set sinks) new"
      "set new = set cs - set (bfs_seen st @ [c])" "distinct new"
      using Cons.IH [of "bfs_visit sinks c st"] unfolding bfs_visit_new [OF False] by blast
    have "set (c # new) = set (c # cs) - set (bfs_seen st)" "distinct (c # new)" using new(4,5) False by auto
    then show ?thesis using new(1-3) by (intro exI [of _ "c # new"]) simp
  qed
qed simp

definition bfs_inv :: "graph \<Rightarrow> string list \<Rightarrow> string \<Rightarrow> bfs \<Rightarrow> bool" where
  "bfs_inv g sinks src st =
     (distinct (bfs_seen st) \<and> bfs_sinks st = filter (\<lambda>c. c \<in> set sinks) (bfs_seen st)
      \<and> set (bfs_queue st) \<subseteq> insert src (set (bfs_seen st))
      \<and> set (bfs_seen st) \<subseteq> (edges g)\<^sup>+ `` {src}
      \<and> (\<forall>n \<in> insert src (set (bfs_seen st)) - set (bfs_queue st). set (succs g n) \<subseteq> set (bfs_seen st)))"

lemma bfs_inv_pop:
  assumes "bfs_inv g sinks src st" "bfs_queue st = n # q"
  shows "bfs_inv g sinks src (bfs_pop g sinks st)"
proof -
  obtain new where new: "bfs_seen (bfs_pop g sinks st) = bfs_seen st @ new" "bfs_queue (bfs_pop g sinks st) = q @ new"
    "bfs_sinks (bfs_pop g sinks st) = bfs_sinks st @ filter (\<lambda>c. c \<in> set sinks) new"
    "set new = set (succs g n) - set (bfs_seen st)" "distinct new"
    using bfs_visits [of sinks "succs g n" "st \<lparr> bfs_queue := q \<rparr>"] assms(2) by (auto simp: bfs_pop_def)
  have "n = src \<or> (src, n) \<in> (edges g)\<^sup>+" using assms by (auto simp: bfs_inv_def)
  then have "set (succs g n) \<subseteq> (edges g)\<^sup>+ `` {src}" by (auto simp: edges_def intro: trancl_into_trancl)
  then show ?thesis using assms new by (auto simp: bfs_inv_def)
qed

lemma bfs_loop_inv:
  "bfs_inv g sinks src st \<Longrightarrow> bfs_inv g sinks src (bfs_loop g sinks st) \<and> bfs_queue (bfs_loop g sinks st) = []"
proof (induction g sinks st rule: bfs_loop.induct)
  case (1 g sinks st)
  show ?case
  proof (cases "bfs_queue st")
    case (Cons n q)
    then show ?thesis using 1 bfs_inv_pop by (simp add: bfs_loop.simps [of g sinks st])
  qed (use 1 in \<open>simp add: bfs_loop.simps [of g sinks st]\<close>)
qed

lemma bfs_final:
  assumes "bfs_inv g sinks src st" "bfs_queue st = []"
  shows "set (bfs_seen st) = (edges g)\<^sup>+ `` {src}"
proof
  show "set (bfs_seen st) \<subseteq> (edges g)\<^sup>+ `` {src}" using assms(1) by (simp add: bfs_inv_def)
  have "n \<in> set (bfs_seen st)" if "(src, n) \<in> (edges g)\<^sup>+" for n
    using that by induction (use assms in \<open>auto simp: bfs_inv_def edges_def\<close>)
  then show "(edges g)\<^sup>+ `` {src} \<subseteq> set (bfs_seen st)" by blast
qed

lemma sinks_below_set:
  "set (sinks_below c src) = {s \<in> sink_name ` set (cfg_sinks c). (src, s) \<in> (feeds c)\<^sup>+}"
  "distinct (sinks_below c src)"
proof -
  let ?g = "build_consumer_map c" and ?sinks = "map sink_name (cfg_sinks c)"
  let ?st0 = "\<lparr> bfs_seen = [], bfs_queue = [src], bfs_sinks = [] \<rparr>"
  have "bfs_inv ?g ?sinks src ?st0" by (simp add: bfs_inv_def)
  then have inv: "bfs_inv ?g ?sinks src (bfs_loop ?g ?sinks ?st0)" "bfs_queue (bfs_loop ?g ?sinks ?st0) = []"
    using bfs_loop_inv by blast+
  then have "sinks_below c src = filter (\<lambda>c. c \<in> set ?sinks) (bfs_seen (bfs_loop ?g ?sinks ?st0))"
    "distinct (bfs_seen (bfs_loop ?g ?sinks ?st0))"
    by (simp_all add: sinks_below_def bfs_inv_def)
  then show "set (sinks_below c src) = {s \<in> sink_name ` set (cfg_sinks c). (src, s) \<in> (feeds c)\<^sup>+}"
    "distinct (sinks_below c src)"
    using bfs_final [OF inv] by (auto simp: consumer_map_edges)
qed

text \<open>
  C13: the sinks a source's resume cursor waits for are exactly the configured sinks that the
  source reaches through the DAG, each one once.
\<close>

theorem sinks_below_exact:
  "set (sinks_below c src) = {s \<in> sink_name ` set (cfg_sinks c). (src, s) \<in> (feeds c)\<^sup>+}
   \<and> distinct (sinks_below c src)"
  using sinks_below_set by blast

lemma start_cursor_bound:
  assumes "k \<in> set (cfg_sinks c)" "(s_name s, sink_name k) \<in> (feeds c)\<^sup>+"
    and "s_name s \<in> src_name ` set (cfg_sources c)"
  shows "(case mem_cursor st (s_name s, sink_name k) of
            None \<Rightarrow> start_cursor st (reachable_sinks_per_source c) s = default_start s
          | Some v \<Rightarrow> start_cursor st (reachable_sinks_per_source c) s \<le> max v (default_start s))"
proof -
  let ?r = "reachable_sinks_per_source c"
  have m: "map_of ?r (s_name s) = Some (sinks_below c (s_name s))"
  proof -
    have "map_of (map (\<lambda>s. (src_name s, sinks_below c (src_name s))) ss) n =
        (if n \<in> src_name ` set ss then Some (sinks_below c n) else None)" for ss :: "source_cfg list" and n
      by (induction ss) auto
    then show ?thesis using assms(3) by (simp add: reachable_sinks_per_source_def)
  qed
  have k: "sink_name k \<in> set (sinks_below c (s_name s))"
    using sinks_below_set [of c "s_name s"] assms(1,2) by blast
  show ?thesis
  proof (cases "ckpt_restore (s_name s) (sinks_below c (s_name s)) st")
    case None
    then show ?thesis by (simp add: start_cursor_def m unwrap_or_def split: option.split)
  next
    case (Some v)
    then obtain w where "mem_cursor st (s_name s, sink_name k) = Some w" "v \<le> w"
      using restore_le [OF Some k] by blast
    then show ?thesis using max.mono [OF _ order_refl] Some by (simp add: start_cursor_def m unwrap_or_def)
  qed
qed

text \<open>
  C11: a restart skips nothing that a sink below still needs: the resume block of a source is at
  most the cursor of every sink it reaches (or the configured start), and the configured
  start itself as soon as one of them has no cursor yet.
\<close>

theorem start_never_skips:
  assumes "k \<in> set (cfg_sinks c)" "(s_name s, sink_name k) \<in> (feeds c)\<^sup>+"
    and "s_name s \<in> src_name ` set (cfg_sources c)"
  shows "(case mem_cursor st (s_name s, sink_name k) of
            None \<Rightarrow> start_cursor st (reachable_sinks_per_source c) s = default_start s
          | Some v \<Rightarrow> start_cursor st (reachable_sinks_per_source c) s \<le> max v (default_start s))"
  using assms by (rule start_cursor_bound)

definition demo_src :: hs_source where
  "demo_src =
     \<lparr> s_name = ''eth'', s_chain_id = 1,
       s_client = client_new ''http://h/'' None \<lparr> q_logs = [], q_field_selection = field_selection_default \<rparr> True,
       s_mode = Live, s_from_block = 5, s_to_block = None, s_confirmations = 10, s_reorg_enabled = True,
       s_reorg_window = 64, s_max_records = 1000 \<rparr>"

text \<open>One source, one processor and one sink in a row.\<close>

definition demo_dag :: config where
  "demo_dag =
     \<lparr> cfg_name = ''demo'', cfg_version = 1, cfg_runtime = runtime_default,
       cfg_sources = [\<lparr> src_name = ''eth'', src_type = ''hypersync'', src_chain = None, src_chain_id = Some 1,
         src_url = Some ''http://h/'', src_mode = Live, src_from_block = Some 5, src_to_block = None, src_confirmations = 10,
         src_reorg = reorg_default, src_batch = batch_cfg_default,
         src_query = \<lparr> q_logs = [], q_field_selection = field_selection_default \<rparr>, src_resolved = None \<rparr>],
       cfg_processors = [\<lparr> proc_name = ''keep'', proc_module = Builtin ''builtin/filter@1'', proc_inputs = [''eth''],
         proc_permissions = permissions_default, proc_config = JNull \<rparr>],
       cfg_sinks = [\<lparr> sink_name = ''lake'', sink_module = Builtin ''builtin/s3@1'', sink_inputs = [''keep''],
         sink_connections = [], sink_permissions = permissions_default, sink_config = JNull \<rparr>],
       cfg_connections = [] \<rparr>"

lemma demo_dag_feeds: "feeds demo_dag = {(''eth'', ''keep''), (''keep'', ''lake'')}"
  by (auto simp: feeds_def demo_dag_def consumer_list_def)

theorem start_never_skips_witness:
  "start_cursor (ckpt_ack ''eth'' ''lake'' 7 (ckpt_open None) :: unit ckpt) (reachable_sinks_per_source demo_dag) demo_src \<le> 7"
proof -
  let ?st = "ckpt_ack ''eth'' ''lake'' 7 (ckpt_open None) :: unit ckpt"
  have c: "mem_cursor ?st (''eth'', ''lake'') = Some 7"
    by (simp add: mem_cursor_def ckpt_open_def empty_db_def ckpt_ack_def btm_of_list_def unwrap_or_def Let_def
        word_le_nat_alt word_less_nat_alt max_def)
  have "(s_name demo_src, sink_name (hd (cfg_sinks demo_dag))) \<in> (feeds demo_dag)\<^sup>+"
    unfolding demo_dag_feeds by (rule trancl_into_trancl [of _ "''keep''"]) (auto simp: demo_src_def demo_dag_def)
  from start_never_skips [OF _ this, of ?st] show ?thesis
    by (simp add: c demo_src_def demo_dag_def default_start_def max_def)
qed

section \<open>What a branch receives\<close>

abbreviation open_in :: "net \<Rightarrow> string \<Rightarrow> bool" where
  "open_in net k \<equiv> ch_closes (net k) = None"

definition receives :: "net \<Rightarrow> string \<Rightarrow> batch list \<Rightarrow> net \<Rightarrow> bool" where
  "receives net k bs net' = (net' k = (net k) \<lparr> ch_sent := ch_sent (net k) @ bs \<rparr>)"

lemma receives_none [simp]: "receives net k [] net"
  by (simp add: receives_def)

lemma receives_trans: "receives n1 k as n2 \<Longrightarrow> receives n2 k bs n3 \<Longrightarrow> receives n1 k (as @ bs) n3"
  by (simp add: receives_def)

lemma receives_open: "receives net k bs net' \<Longrightarrow> open_in net' k = open_in net k"
  by (simp add: receives_def)

lemma send_other: "send b (net c) = Some ch \<Longrightarrow> k \<noteq> c \<Longrightarrow> (net(c := ch)) k = net k"
  by simp

lemma fan_out_loop_spec:
  "distinct live \<Longrightarrow> fan_out_loop live b net = (live', net') \<Longrightarrow>
   distinct live' \<and> set live' \<subseteq> set live \<and> (\<forall>k. k \<notin> set live \<longrightarrow> net' k = net k)
   \<and> (\<forall>k \<in> set live. open_in net k \<longrightarrow> k \<in> set live' \<and> receives net k [b] net')"
proof (induction live arbitrary: net live' net')
  case (Cons c live)
  have d: "distinct live" "c \<notin> set live" using Cons.prems(1) by simp_all
  show ?case
  proof (cases "send b (net c)")
    case None
    then have "fan_out_loop live b net = (live', net')" using Cons.prems(2) by simp
    moreover have "\<not> open_in net c" using None by (cases "ch_closes (net c)") (simp_all add: send_def)
    ultimately show ?thesis using Cons.IH [of net live' net'] Cons.prems(1) by auto
  next
    case (Some ch)
    obtain l where l: "fan_out_loop live b (net(c := ch)) = (l, net')" "live' = c # l"
      using Cons.prems(2) Some by (auto split: prod.splits)
    have ch: "ch = (net c) \<lparr> ch_sent := ch_sent (net c) @ [b] \<rparr>"
      using Some by (auto simp: send_def split: if_splits)
    have ih: "distinct l \<and> set l \<subseteq> set live \<and> (\<forall>k. k \<notin> set live \<longrightarrow> net' k = (net(c := ch)) k)
        \<and> (\<forall>k \<in> set live. open_in (net(c := ch)) k \<longrightarrow> k \<in> set l \<and> receives (net(c := ch)) k [b] net')"
      by (rule Cons.IH [OF d(1) l(1)])
    have "receives net c [b] net'" using ih Cons.prems(1) ch by (simp add: receives_def)
    moreover have "k \<in> set l \<and> receives net k [b] net'" if "k \<in> set live" "open_in net k" for k
    proof -
      have "k \<noteq> c" using that(1) d(2) by blast
      then show ?thesis using ih that by (simp add: receives_def)
    qed
    ultimately show ?thesis using ih l(2) Cons.prems(1) by auto
  qed
qed simp

lemma fan_out_spec:
  assumes "distinct live" "fan_out live b net = (go, live', net')"
  shows "go = (live' \<noteq> []) \<and> distinct live' \<and> set live' \<subseteq> set live \<and> (\<forall>k. k \<notin> set live \<longrightarrow> net' k = net k)
   \<and> (\<forall>k \<in> set live. open_in net k \<longrightarrow> k \<in> set live' \<and> receives net k [b] net')"
  using fan_out_loop_spec [OF assms(1), of b net] assms(2)
  by (auto simp: fan_out_def split: prod.splits)

lemma fan_out_all_spec:
  "distinct live \<Longrightarrow> k \<in> set live \<Longrightarrow> open_in net k \<Longrightarrow> fan_out_all live bs net = (go, live', net') \<Longrightarrow>
   go \<and> distinct live' \<and> k \<in> set live' \<and> receives net k bs net' \<and> (\<forall>j. j \<notin> set live \<longrightarrow> net' j = net j)
   \<and> set live' \<subseteq> set live"
proof (induction bs arbitrary: live net)
  case (Cons b bs)
  obtain g l n where f: "fan_out live b net = (g, l, n)" by (cases "fan_out live b net") auto
  have s: "g" "distinct l" "k \<in> set l" "receives net k [b] n" "set l \<subseteq> set live" "\<forall>j. j \<notin> set live \<longrightarrow> n j = net j"
    using fan_out_spec [OF Cons.prems(1) f] Cons.prems(2,3) by auto
  have o: "open_in n k" using receives_open [OF s(4)] Cons.prems(3) by simp
  have r: "fan_out_all l bs n = (go, live', net')" using Cons.prems(4) f s(1) by simp
  from Cons.IH [OF s(2,3) o r] have i: "go" "distinct live'" "k \<in> set live'" "receives n k bs net'" "\<forall>j. j \<notin> set l \<longrightarrow> net' j = n j"
    "set live' \<subseteq> set l" by blast+
  have "receives net k (b # bs) net'" using receives_trans [OF s(4) i(4)] by simp
  moreover have "\<forall>j. j \<notin> set live \<longrightarrow> net' j = net j" using i(5) s(5,6) by (metis subsetD)
  ultimately show ?case using i s(5) by blast
qed auto

text \<open>What a stage sends on for its inputs: the outputs of every call that succeeded.\<close>

fun stage_outputs :: "(batch \<Rightarrow> 'w \<Rightarrow> batch list res spawned \<times> 'w) \<Rightarrow> batch list \<Rightarrow> 'w \<Rightarrow> batch list" where
  "stage_outputs process [] w = []"
| "stage_outputs process (b # bs) w =
     (case process b w of
        (Joined (Inr produced), w') \<Rightarrow> propagate b produced @ stage_outputs process bs w'
      | (_, w') \<Rightarrow> stage_outputs process bs w')"

text \<open>
  C14: a branch that keeps listening receives all outputs of the processor before it, in order,
  whatever happens to its sibling branches: a branch that stops takes nothing away from the
  others, and nothing is sent to anybody else.
\<close>

theorem processor_feeds_branch:
  assumes "distinct live" "k \<in> set live" "open_in net k"
    and "processor_task process live bs net w = (net', w')"
  shows "ch_sent (net' k) = ch_sent (net k) @ stage_outputs process bs w
     \<and> (\<forall>j. j \<notin> set live \<longrightarrow> net' j = net j)"
proof -
  have "distinct live \<Longrightarrow> k \<in> set live \<Longrightarrow> open_in net k \<Longrightarrow> processor_task process live bs net w = (net', w') \<Longrightarrow>
    receives net k (stage_outputs process bs w) net' \<and> (\<forall>j. j \<notin> set live \<longrightarrow> net' j = net j)" for live net w
  proof (induction bs arbitrary: live net w)
    case (Cons b bs)
    obtain r w1 where p: "process b w = (r, w1)" by (cases "process b w")
    show ?case
    proof (cases "\<exists>produced. r = Joined (Inr produced)")
      case True
      then obtain produced where r: "r = Joined (Inr produced)" by blast
      obtain g l n where f: "fan_out_all live (propagate b produced) net = (g, l, n)"
        by (cases "fan_out_all live (propagate b produced) net") auto
      have s: "g" "distinct l" "k \<in> set l" "receives net k (propagate b produced) n"
        "\<forall>j. j \<notin> set live \<longrightarrow> n j = net j" "set l \<subseteq> set live"
        using fan_out_all_spec [OF Cons.prems(1-3) f] by simp_all
      have t: "processor_task process l bs n w1 = (net', w')" using Cons.prems(4) p r f s(1) by simp
      have o: "open_in n k" using receives_open [OF s(4)] Cons.prems(3) by simp
      from Cons.IH [OF s(2,3) o t] have i: "receives n k (stage_outputs process bs w1) net'" "\<forall>j. j \<notin> set l \<longrightarrow> net' j = n j" by blast+
      have "stage_outputs process (b # bs) w = propagate b produced @ stage_outputs process bs w1"
        using p r by simp
      then have "receives net k (stage_outputs process (b # bs) w) net'" using receives_trans [OF s(4) i(1)] by simp
      moreover have "\<forall>j. j \<notin> set live \<longrightarrow> net' j = net j" using i(2) s(5,6) by (metis subsetD)
      ultimately show ?thesis by blast
    next
      case False
      then have t: "processor_task process live bs net w1 = (net', w')"
        and e: "stage_outputs process (b # bs) w = stage_outputs process bs w1"
        using Cons.prems(4) p by (cases r; auto split: sum.splits)+
      from Cons.IH [OF Cons.prems(1-3) t] show ?thesis unfolding e .
    qed
  qed simp
  from this [OF assms] show ?thesis by (simp add: receives_def)
qed

definition idle_batch :: batch where
  "idle_batch = batch_new ''eth'' 1 (BlockRange 0 10) 0 Log []"

definition demo_net :: net where
  "demo_net k = \<lparr> ch_sent = [], ch_closes = (if k = ''dead'' then Some 0 else None) \<rparr>"

theorem processor_feeds_branch_witness:
  "ch_sent (fst (processor_task (\<lambda>b w. (Joined (Inr [b]), w)) [''dead'', ''pg''] [idle_batch, idle_batch] demo_net ()) ''pg'')
     = [idle_batch, idle_batch]"
  using processor_feeds_branch [where live = "[''dead'', ''pg'']" and k = "''pg''" and net = demo_net
      and process = "\<lambda>b w. (Joined (Inr [b]), w)" and bs = "[idle_batch, idle_batch]" and w = "()", OF _ _ _ prod.collapse [symmetric]]
  by (simp add: demo_net_def propagate_def)

end
