(* ===== verification/S3Sink.thy ===== *)
theory S3Sink
  imports Sdk
begin

text \<open>
  The S3 sink: \<open>modules/s3-sink/src/buffer.rs\<close> and \<open>lib.rs\<close>.  Records are buffered per chain
  and leave as objects.  The host import \<open>blob-put\<close>, the Parquet writer and the text of a JSON
  value are parameters; \<open>usize\<close> is 32 bits wide on the target.
\<close>

section \<open>Configuration\<close>

datatype s3_format = Parquet | Ndjson

fun ext :: "s3_format \<Rightarrow> string" where
  "ext Parquet = ''parquet''"
| "ext Ndjson = ''ndjson''"

record s3_config =
  s3_connection :: string
  s3_fmt :: s3_format
  s3_flush_rows :: nat

definition as_usize :: "u64 \<Rightarrow> nat" where
  "as_usize n = unat n mod 2 ^ 32"

definition s3_format_of :: "string option \<Rightarrow> s3_format res" where
  "s3_format_of s =
     (case s of
        None \<Rightarrow> Inr Parquet
      | Some f \<Rightarrow>
          if f = ''ndjson'' then Inr Ndjson else if f = ''parquet'' then Inr Parquet
          else Inl (''s3: unknown format `'' @ f @ ''`''))"

definition s3_from_json :: "json \<Rightarrow> s3_config res" where
  "s3_from_json config =
     and_then (ok_or ''s3: config.connection required'' (jget_str ''connection'' config)) (\<lambda>conn.
     and_then (s3_format_of (jget_str ''format'' config)) (\<lambda>f.
       Inr \<lparr> s3_connection = conn, s3_fmt = f,
             s3_flush_rows = as_usize (max (unwrap_or 100000 (jget_u64 ''flush_rows'' config)) 1) \<rparr>))"

section \<open>One chain's buffer\<close>

record buffer =
  bf_records :: "json list"
  bf_chain_id :: u64
  bf_first_block :: u64
  bf_last_block :: u64
  bf_seen :: bool

definition buffer_empty :: buffer where
  "buffer_empty = \<lparr> bf_records = [], bf_chain_id = 0, bf_first_block = 0, bf_last_block = 0, bf_seen = False \<rparr>"

definition buffer_push :: "u64 \<Rightarrow> u64 \<Rightarrow> u64 \<Rightarrow> json list \<Rightarrow> buffer \<Rightarrow> buffer" where
  "buffer_push chain lo hi records b =
     (if records = [] then b
      else b \<lparr> bf_chain_id := chain,
               bf_first_block := (if bf_seen b then bf_first_block b else lo),
               bf_seen := True,
               bf_last_block := max (bf_last_block b) hi,
               bf_records := bf_records b @ records \<rparr>)"

definition object_key :: "s3_format \<Rightarrow> buffer \<Rightarrow> string" where
  "object_key f b =
     show_u64 (bf_chain_id b) @ ''/'' @ show_u64 (bf_first_block b) @ ''-'' @ show_u64 (bf_last_block b)
       @ ''-'' @ show_nat (length (bf_records b)) @ ''.'' @ ext f"

type_synonym 'b encoder = "s3_format \<Rightarrow> json list \<Rightarrow> 'b res"

definition buffer_take ::
  "'b encoder \<Rightarrow> s3_format \<Rightarrow> buffer \<Rightarrow> (string \<times> 'b) option res \<times> buffer" where
  "buffer_take enc f b =
     (if bf_records b = [] then (Inr None, b)
      else case enc f (bf_records b) of
             Inl e \<Rightarrow> (Inl e, b)
           | Inr bytes \<Rightarrow>
               (Inr (Some (object_key f b, bytes)),
                b \<lparr> bf_records := [], bf_seen := False, bf_last_block := 0 \<rparr>))"

definition record_block_number :: "json \<Rightarrow> u64 option" where
  "record_block_number r = Option.bind (jget ''block_number'' r) flexible_u64"

definition kept_after :: "u64 \<Rightarrow> json \<Rightarrow> bool" where
  "kept_after after r = (case record_block_number r of None \<Rightarrow> True | Some b \<Rightarrow> b \<le> after)"

definition buffer_rollback :: "u64 \<Rightarrow> buffer \<Rightarrow> buffer" where
  "buffer_rollback after b =
     (let kept = filter (kept_after after) (bf_records b)
      in if kept = [] then b \<lparr> bf_records := [], bf_seen := False, bf_first_block := 0, bf_last_block := 0 \<rparr>
         else b \<lparr> bf_records := kept, bf_last_block := min (bf_last_block b) after \<rparr>)"

section \<open>All chains\<close>

type_synonym chain_buffers = "(u64, buffer) btm"

definition chains_push :: "u64 \<Rightarrow> u64 \<Rightarrow> u64 \<Rightarrow> json list \<Rightarrow> chain_buffers \<Rightarrow> chain_buffers" where
  "chains_push chain lo hi records bs =
     btm_insert chain (buffer_push chain lo hi records (unwrap_or buffer_empty (map_of bs chain))) bs"

text \<open>
  The common loop of \<open>take_ready\<close> and \<open>take_all\<close>: an encoding error stops it, and what was
  taken before is dropped.
\<close>

fun take_where :: "'b encoder \<Rightarrow> s3_format \<Rightarrow> (buffer \<Rightarrow> bool) \<Rightarrow> chain_buffers
    \<Rightarrow> (string \<times> 'b) list res \<times> chain_buffers" where
  "take_where enc f due [] = (Inr [], [])"
| "take_where enc f due ((c, b) # bs) =
     (if \<not> due b then
        (case take_where enc f due bs of (r, bs') \<Rightarrow> (r, (c, b) # bs'))
      else
        (case buffer_take enc f b of
           (Inl e, b') \<Rightarrow> (Inl e, (c, b') # bs)
         | (Inr taken, b') \<Rightarrow>
             (case take_where enc f due bs of
                (Inl e, bs') \<Rightarrow> (Inl e, (c, b') # bs')
              | (Inr objs, bs') \<Rightarrow>
                  (Inr ((case taken of None \<Rightarrow> [] | Some x \<Rightarrow> [x]) @ objs), (c, b') # bs'))))"

definition take_ready :: "'b encoder \<Rightarrow> s3_format \<Rightarrow> nat \<Rightarrow> chain_buffers
    \<Rightarrow> (string \<times> 'b) list res \<times> chain_buffers" where
  "take_ready enc f flush_rows bs = take_where enc f (\<lambda>b. flush_rows \<le> length (bf_records b)) bs"

definition take_all :: "'b encoder \<Rightarrow> s3_format \<Rightarrow> chain_buffers
    \<Rightarrow> (string \<times> 'b) list res \<times> chain_buffers" where
  "take_all enc f bs = take_where enc f (\<lambda>b. True) bs"

definition chains_rollback :: "u64 \<Rightarrow> u64 \<Rightarrow> chain_buffers \<Rightarrow> chain_buffers" where
  "chains_rollback chain after bs =
     (case map_of bs chain of None \<Rightarrow> bs | Some b \<Rightarrow> btm_insert chain (buffer_rollback after b) bs)"

section \<open>Encoding\<close>

definition to_ndjson :: "(json \<Rightarrow> string) \<Rightarrow> json list \<Rightarrow> string" where
  "to_ndjson to_vec records = concat (map (\<lambda>r. to_vec r @ [CHR 0x0A]) records)"

definition bts_extend :: "string list \<Rightarrow> string list \<Rightarrow> string list" where
  "bts_extend ks cols = map fst (fold (\<lambda>k m. btm_insert k () m) ks (map (\<lambda>k. (k, ())) cols))"

definition column_order :: "json list \<Rightarrow> string list" where
  "column_order records =
     fold (\<lambda>r cols. case as_object r of None \<Rightarrow> cols | Some m \<Rightarrow> bts_extend (map fst m) cols) records []"

text \<open>\<open>to_text\<close> is \<open>Value::to_string\<close> of a nested value.\<close>

definition cell_to_string :: "(json \<Rightarrow> string) \<Rightarrow> json option \<Rightarrow> string option" where
  "cell_to_string to_text v =
     (case v of
        None \<Rightarrow> None
      | Some JNull \<Rightarrow> None
      | Some (JStr s) \<Rightarrow> Some s
      | Some (JBool b) \<Rightarrow> Some (if b then ''true'' else ''false'')
      | Some (JNum n) \<Rightarrow> Some (show_number n)
      | Some other \<Rightarrow> Some (to_text other))"

text \<open>The table that is handed to the Parquet writer: the columns and, per column, its cells.\<close>

type_synonym 'b parquet_writer = "string list \<Rightarrow> string option list list \<Rightarrow> 'b res"

definition to_parquet :: "(json \<Rightarrow> string) \<Rightarrow> 'b parquet_writer \<Rightarrow> json list \<Rightarrow> 'b res" where
  "to_parquet to_text write records =
     (let cols = column_order records
      in if cols = [] then Inl ''s3: cannot infer schema from empty records''
         else write cols (map (\<lambda>c. map (\<lambda>r. cell_to_string to_text (jget c r)) records) cols))"

definition s3_encode :: "(json \<Rightarrow> string) \<Rightarrow> (string \<Rightarrow> 'b) \<Rightarrow> 'b parquet_writer \<Rightarrow> 'b encoder" where
  "s3_encode to_text raw write f records =
     (case f of
        Ndjson \<Rightarrow> Inr (raw (to_ndjson to_text records))
      | Parquet \<Rightarrow> to_parquet to_text write records)"

section \<open>The sink\<close>

record s3_sink =
  s3_cfg :: s3_config
  s3_buffers :: chain_buffers

type_synonym ('b, 'w) blob_import = "string \<Rightarrow> string \<Rightarrow> 'b \<Rightarrow> 'w \<Rightarrow> unit res \<times> 'w"

definition s3_init :: "json \<Rightarrow> s3_sink res" where
  "s3_init config = and_then (s3_from_json config) (\<lambda>c. Inr \<lparr> s3_cfg = c, s3_buffers = [] \<rparr>)"

fun put_all :: "('b, 'w) blob_import \<Rightarrow> string \<Rightarrow> (string \<times> 'b) list \<Rightarrow> 'w \<Rightarrow> unit res \<times> 'w" where
  "put_all put conn [] w = (Inr (), w)"
| "put_all put conn ((key, bytes) # objs) w =
     (case put conn key bytes w of
        (Inl e, w') \<Rightarrow> (Inl e, w')
      | (Inr _, w') \<Rightarrow> put_all put conn objs w')"

definition s3_put :: "('b, 'w) blob_import \<Rightarrow> (string \<times> 'b) list res \<times> chain_buffers \<Rightarrow> s3_sink \<Rightarrow> 'w
    \<Rightarrow> unit res \<times> s3_sink \<times> 'w" where
  "s3_put put taken p w =
     (case taken of
        (Inl e, bs) \<Rightarrow> (Inl e, p \<lparr> s3_buffers := bs \<rparr>, w)
      | (Inr objs, bs) \<Rightarrow>
          (case put_all put (s3_connection (s3_cfg p)) objs w of
             (r, w') \<Rightarrow> (r, p \<lparr> s3_buffers := bs \<rparr>, w')))"

definition s3_write :: "'b encoder \<Rightarrow> ('b, 'w) blob_import \<Rightarrow> s3_sink \<Rightarrow> batch \<Rightarrow> 'w
    \<Rightarrow> unit res \<times> s3_sink \<times> 'w" where
  "s3_write enc put p b w =
     (let bs = chains_push (b_chain_id b) (range_from (b_block_range b)) (range_to (b_block_range b))
                 (b_records b) (s3_buffers p)
      in s3_put put (take_ready enc (s3_fmt (s3_cfg p)) (s3_flush_rows (s3_cfg p)) bs) p w)"

definition s3_flush :: "'b encoder \<Rightarrow> ('b, 'w) blob_import \<Rightarrow> s3_sink \<Rightarrow> 'w
    \<Rightarrow> unit res \<times> s3_sink \<times> 'w" where
  "s3_flush enc put p w = s3_put put (take_all enc (s3_fmt (s3_cfg p)) (s3_buffers p)) p w"

definition s3_on_control :: "s3_sink \<Rightarrow> control_record \<Rightarrow> 'w \<Rightarrow> unit res \<times> s3_sink \<times> 'w" where
  "s3_on_control p ctrl w =
     (case ctrl of
        Rollback chain after \<Rightarrow>
          (Inr (), p \<lparr> s3_buffers := chains_rollback chain after (s3_buffers p) \<rparr>, w)
      | Eof _ _ \<Rightarrow> (Inr (), p, w))"

end
