(* ===== verification/S3Props.thy ===== *)
theory S3Props
  imports S3Sink Source
begin

text \<open>
  Properties of the S3 sink: the Parquet table keeps every field, accepted records leave
  exactly once (the sink contract, interpreted on the sink's own operations), one object
  holds one chain, and the two ways records are lost.
\<close>

section \<open>The Parquet table\<close>

lemma set_bts_extend: "set (bts_extend ks cols) = set ks \<union> set cols"
proof -
  have "fst ` set (fold (\<lambda>k m. btm_insert k () m) ks m) = set ks \<union> fst ` set m" for m
    by (induction ks arbitrary: m) auto
  then show ?thesis by (auto simp: bts_extend_def image_image)
qed

lemma sorted_bts_extend: "sorted_wrt (<) cols \<Longrightarrow> sorted_wrt (<) (bts_extend ks cols)"
proof -
  assume s: "sorted_wrt (<) cols"
  have "btm_ok m \<Longrightarrow> btm_ok (fold (\<lambda>k m. btm_insert k () m) ks m)" for m :: "(string, unit) btm"
    by (induction ks arbitrary: m) auto
  moreover have "btm_ok (map (\<lambda>k. (k, ())) cols)" using s by (simp add: btm_ok_def comp_def)
  ultimately show ?thesis unfolding bts_extend_def btm_ok_def by blast
qed

definition record_keys :: "json \<Rightarrow> string set" where
  "record_keys r = (case as_object r of None \<Rightarrow> {} | Some m \<Rightarrow> fst ` set m)"

lemma column_order_fold:
  assumes "sorted_wrt (<) cols"
  defines "f \<equiv> \<lambda>r cols. case as_object r of None \<Rightarrow> cols | Some m \<Rightarrow> bts_extend (map fst m) cols"
  shows "sorted_wrt (<) (fold f records cols)
     \<and> set (fold f records cols) = set cols \<union> (\<Union>r \<in> set records. record_keys r)"
  using assms(1)
proof (induction records arbitrary: cols)
  case (Cons r records)
  have "sorted_wrt (<) (f r cols)" "set (f r cols) = set cols \<union> record_keys r"
    using Cons.prems
    by (auto simp: f_def record_keys_def set_bts_extend sorted_bts_extend split: option.split)
  then show ?case using Cons.IH [of "f r cols"] by auto
qed simp

lemma column_order_ok:
  "sorted_wrt (<) (column_order records)"
  "set (column_order records) = (\<Union>r \<in> set records. record_keys r)"
  using column_order_fold [of "[]" records] by (simp_all add: column_order_def)

section \<open>Conservation\<close>

definition buffered :: "chain_buffers \<Rightarrow> json multiset" where
  "buffered bs = mset (concat (map (\<lambda>(c, b). bf_records b) bs))"

definition objects :: "(string \<times> json list) list \<Rightarrow> json multiset" where
  "objects objs = mset (concat (map snd objs))"

lemma buffered_simps [simp]: "buffered [] = {#}" "buffered ((c, b) # bs) = mset (bf_records b) + buffered bs"
  by (simp_all add: buffered_def)

lemma objects_simps [simp]: "objects [] = {#}" "objects ((k, rs) # objs) = mset rs + objects objs"
  "objects (a @ b) = objects a + objects b"
  by (simp_all add: objects_def)

lemma push_records: "mset (bf_records (buffer_push chain lo hi records b)) = mset (bf_records b) + mset records"
  by (simp add: buffer_push_def)

lemma buffered_insert:
  "btm_ok bs \<Longrightarrow> mset (bf_records b) = mset (bf_records (unwrap_or buffer_empty (map_of bs chain))) + R
   \<Longrightarrow> buffered (btm_insert chain b bs) = buffered bs + R"
proof (induction bs)
  case (Cons x bs)
  obtain c d where x: "x = (c, d)" by (cases x)
  show ?case
  proof (cases "chain < c")
    case True
    then have "map_of (x # bs) chain = None"
      using Cons.prems by (intro map_of_btm_None) (auto simp: x btm_ok_Cons)
    then show ?thesis using True Cons.prems by (simp add: x buffer_empty_def)
  next
    case False
    have "btm_ok bs" using Cons.prems by (simp add: x btm_ok_Cons)
    then show ?thesis using Cons.IH Cons.prems False by (auto simp: x)
  qed
qed (simp add: buffer_empty_def)

lemma chains_push_ok:
  "btm_ok bs \<Longrightarrow> btm_ok (chains_push chain lo hi records bs)"
  "btm_ok bs \<Longrightarrow> buffered (chains_push chain lo hi records bs) = buffered bs + mset records"
  by (simp_all add: chains_push_def buffered_insert push_records)

text \<open>An encoder that keeps the records, and refuses what it cannot encode.\<close>

definition keep_records :: "(s3_format \<Rightarrow> json list \<Rightarrow> bool) \<Rightarrow> json list encoder" where
  "keep_records encodable f records = (if encodable f records then Inr records else Inl ''encode'')"

lemma keys_take_where: "map fst (snd (take_where enc f due bs)) = map fst bs"
  by (induction enc f due bs rule: take_where.induct) (auto split: prod.splits sum.splits)

lemma take_where_ok: "btm_ok bs \<Longrightarrow> take_where enc f due bs = (r, bs') \<Longrightarrow> btm_ok bs'"
  using keys_take_where [of enc f due bs] by (simp add: btm_ok_def)

lemma take_records:
  "buffer_take (keep_records ok) f b = (Inr obj1, b') \<Longrightarrow>
     mset (bf_records b') + objects (case obj1 of None \<Rightarrow> [] | Some x \<Rightarrow> [x]) = mset (bf_records b)
     \<and> bf_records b' = []"
  by (auto simp: buffer_take_def keep_records_def split: if_splits)

lemma take_where_conserves:
  "take_where (keep_records ok) f due bs = (Inr objs, bs')
   \<Longrightarrow> buffered bs' + objects objs = buffered bs"
proof (induction bs arbitrary: objs bs')
  case (Cons x bs)
  obtain c b where x: "x = (c, b)" by (cases x)
  show ?case
  proof (cases "due b")
    case False
    then show ?thesis using Cons by (auto simp: x split: prod.splits)
  next
    case True
    then obtain obj1 b' objs1 bs1 where t: "buffer_take (keep_records ok) f b = (Inr obj1, b')"
      "take_where (keep_records ok) f due bs = (Inr objs1, bs1)"
      "objs = (case obj1 of None \<Rightarrow> [] | Some x \<Rightarrow> [x]) @ objs1" "bs' = (c, b') # bs1"
      using Cons.prems by (auto simp: x split: prod.splits sum.splits)
    have "buffered bs1 + objects objs1 = buffered bs" using Cons.IH [OF t(2)] .
    moreover have "mset (bf_records b') + objects (case obj1 of None \<Rightarrow> [] | Some x \<Rightarrow> [x]) = mset (bf_records b)"
      using take_records [OF t(1)] by blast
    ultimately show ?thesis by (simp add: x t(3,4) ac_simps flip: union_assoc)
  qed
qed simp

lemma take_all_empties:
  "take_where (keep_records ok) f (\<lambda>b. True) bs = (Inr objs, bs') \<Longrightarrow> buffered bs' = {#}"
proof (induction bs arbitrary: objs bs')
  case (Cons x bs)
  obtain c b where x: "x = (c, b)" by (cases x)
  then obtain obj1 b' objs1 bs1 where t: "buffer_take (keep_records ok) f b = (Inr obj1, b')"
      "take_where (keep_records ok) f (\<lambda>b. True) bs = (Inr objs1, bs1)" "bs' = (c, b') # bs1"
    using Cons.prems by (auto simp: x split: prod.splits sum.splits)
  then show ?case using take_records [OF t(1)] Cons.IH [OF t(2)] by simp
qed simp

text \<open>A store that records the objects put into it; \<open>up n\<close> says whether the n-th put succeeds.\<close>

record recorder =
  rc_log :: "(string \<times> json list) list"
  rc_tries :: nat

definition recording_put :: "(nat \<Rightarrow> bool) \<Rightarrow> (json list, recorder) blob_import" where
  "recording_put up conn key rs w =
     (let w' = w \<lparr> rc_tries := rc_tries w + 1 \<rparr>
      in if up (rc_tries w) then (Inr (), w' \<lparr> rc_log := rc_log w @ [(key, rs)] \<rparr>)
         else (Inl ''put failed'', w'))"

definition recorded :: "recorder \<Rightarrow> json multiset" where
  "recorded w = objects (rc_log w)"

lemma put_all_records:
  "put_all (recording_put up) conn objs w = (Inr (), w') \<Longrightarrow> recorded w' = recorded w + objects objs"
proof (induction objs arbitrary: w)
  case (Cons x objs)
  obtain key rs where x: "x = (key, rs)" by (cases x)
  obtain r w1 where p: "recording_put up conn key rs w = (r, w1)" by (cases "recording_put up conn key rs w")
  then have "r = Inr ()" "put_all (recording_put up) conn objs w1 = (Inr (), w')"
    using Cons.prems by (cases r; simp add: x)+
  moreover from this(1) p have "rc_log w1 = rc_log w @ [(key, rs)]"
    by (auto simp: recording_put_def Let_def split: if_splits)
  ultimately show ?case using Cons.IH by (simp add: recorded_def x add.assoc)
qed simp

definition s3_pending :: "s3_sink \<Rightarrow> json multiset" where
  "s3_pending p = buffered (s3_buffers p)"

definition s3_inv :: "s3_sink \<Rightarrow> bool" where
  "s3_inv p = btm_ok (s3_buffers p)"

lemma s3_put_conserves:
  assumes "take_where (keep_records ok) f due bs = taken" "s3_put (recording_put up) taken p w = (Inr (), p', w')"
  shows "recorded w' + s3_pending p' = recorded w + buffered bs \<and> take_where (keep_records ok) f due bs =
     (fst taken, s3_buffers p') \<and> (\<exists>objs. fst taken = Inr objs)"
proof -
  obtain objs bs' where t: "taken = (Inr objs, bs')" "p' = p \<lparr> s3_buffers := bs' \<rparr>"
    "put_all (recording_put up) (s3_connection (s3_cfg p)) objs w = (Inr (), w')"
    using assms(2) by (auto simp: s3_put_def split: sum.splits prod.splits)
  have "buffered bs' + objects objs = buffered bs"
    using take_where_conserves assms(1) t(1) by blast
  then show ?thesis using put_all_records [OF t(3)] assms(1) t by (simp add: s3_pending_def ac_simps)
qed

lemma s3_put_inv:
  "take_where enc f due bs = taken \<Longrightarrow> btm_ok bs \<Longrightarrow> s3_put put taken p w = (r, p', w') \<Longrightarrow> s3_inv p'"
  by (cases taken) (auto simp: s3_put_def s3_inv_def dest: take_where_ok split: sum.splits prod.splits)

interpretation s3: buffered_sink "s3_write (keep_records ok) (recording_put up)"
  "s3_flush (keep_records ok) (recording_put up)" recorded s3_pending s3_inv for ok up
proof (unfold_locales, goal_cases)
  case (1 p b w p' w')
  then show ?case
    using s3_put_conserves [OF refl] chains_push_ok
    by (fastforce simp: s3_write_def Let_def take_ready_def s3_inv_def s3_pending_def add.assoc)
next
  case (2 p w p' w')
  then show ?case
    using s3_put_conserves [OF refl, where ok = ok and f = "s3_fmt (s3_cfg p)" and due = "\<lambda>b. True"
        and bs = "s3_buffers p" and up = up and p = p and w = w and p' = p' and w' = w']
      take_all_empties [of ok "s3_fmt (s3_cfg p)" "s3_buffers p"]
    by (auto simp: s3_flush_def take_all_def s3_pending_def)
next
  case (3 p b w r p' w')
  then show ?case
    unfolding s3_write_def Let_def take_ready_def
    by (intro s3_put_inv [OF refl]) (auto simp: s3_inv_def chains_push_ok)
next
  case (4 p w r p' w')
  then show ?case
    unfolding s3_flush_def take_all_def by (intro s3_put_inv [OF refl]) (auto simp: s3_inv_def)
qed

section \<open>Properties\<close>

text \<open>
  A Parquet object keeps every field of every record: the columns are the sorted union of the
  records' keys, and each field of the i-th record stands in the i-th cell of its column.
\<close>

theorem parquet_keeps_every_field:
  assumes "r \<in> set records" "jget k r = Some v"
  shows "\<exists>cols cells. to_parquet to_text (\<lambda>cols cells. Inr (cols, cells)) records = Inr (cols, cells)
     \<and> sorted_wrt (<) cols
     \<and> (\<forall>i < length records. \<forall>key x. jget key (records ! i) = Some x \<longrightarrow>
          (\<exists>j < length cols. cols ! j = key \<and> j < length cells \<and> i < length (cells ! j)
             \<and> cells ! j ! i = cell_to_string to_text (Some x)))"
proof -
  let ?cols = "column_order records"
  let ?cells = "map (\<lambda>c. map (\<lambda>r. cell_to_string to_text (jget c r)) records) ?cols"
  have key: "key \<in> set ?cols" if "jget key r = Some x" "r \<in> set records" for key r x
  proof -
    have "key \<in> record_keys r" using that(1)
      by (cases r) (auto simp: record_keys_def dest!: map_of_SomeD intro: rev_image_eqI)
    then show ?thesis using that(2) column_order_ok(2) by blast
  qed
  have "?cols \<noteq> []" using key [OF assms(2,1)] by auto
  then have "to_parquet to_text (\<lambda>cols cells. Inr (cols, cells)) records = Inr (?cols, ?cells)"
    by (simp add: to_parquet_def Let_def)
  moreover have "\<exists>j < length ?cols. ?cols ! j = key \<and> j < length ?cells \<and> i < length (?cells ! j)
      \<and> ?cells ! j ! i = cell_to_string to_text (Some x)"
    if i: "i < length records" "jget key (records ! i) = Some x" for i key x
  proof -
    have "key \<in> set ?cols" using key [OF i(2)] i(1) by simp
    then obtain j where "j < length ?cols" "?cols ! j = key" by (auto simp: in_set_conv_nth)
    then show ?thesis using i by (intro exI [of _ j]) simp
  qed
  ultimately show ?thesis using column_order_ok(1) [of records] by blast
qed

theorem parquet_keeps_every_field_witness:
  "\<exists>cols cells. to_parquet (\<lambda>v. []) (\<lambda>cols cells. Inr (cols, cells))
        [JObj [(''a'', JStr ''x'')], JObj [(''b'', JNull)]] = (Inr (cols, cells) :: (string list \<times> string option list list) res)
     \<and> ''a'' \<in> set cols"
proof -
  let ?rs = "[JObj [(''a'', JStr ''x'')], JObj [(''b'', JNull)]]"
  have "\<exists>cols cells. to_parquet (\<lambda>v. []) (\<lambda>cols cells. Inr (cols, cells)) ?rs = Inr (cols, cells)
     \<and> (\<forall>i < length ?rs. \<forall>key x. jget key (?rs ! i) = Some x \<longrightarrow> key \<in> set cols)"
    using parquet_keeps_every_field [of "JObj [(''a'', JStr ''x'')]" ?rs "''a''" "JStr ''x''" "\<lambda>v. []"]
    by (auto simp: in_set_conv_nth) blast
  then obtain cols cells where c: "to_parquet (\<lambda>v. []) (\<lambda>cols cells. Inr (cols, cells)) ?rs = Inr (cols, cells)"
    "\<forall>i < length ?rs. \<forall>key x. jget key (?rs ! i) = Some x \<longrightarrow> key \<in> set cols" by blast
  have "''a'' \<in> set cols" using c(2) [rule_format, of 0 "''a''"] by simp
  then show ?thesis using c(1) by blast
qed

text \<open>
  Conservation: after any sequence of accepted writes and a successful flush, every record of
  the written batches is in exactly one object that the store accepted, none twice, and the
  buffers are empty, whatever the formats, the chains and the flush threshold.
\<close>

theorem s3_loses_nothing:
  assumes "s3_init config = Inr p" "\<forall>b \<in> set bs. \<not> is_control b"
    and "write_all (s3_write (keep_records encodable) (recording_put up)) p bs w = (Inr (), p', w')"
    and "s3_flush (keep_records encodable) (recording_put up) p' w' = (Inr (), p'', w'')"
  shows "s3_pending p'' = {#} \<and> recorded w'' = recorded w + mset (concat (map b_records bs))"
proof -
  have "s3_inv p" "s3_pending p = {#}" using assms(1) by (auto simp: s3_init_def s3_inv_def s3_pending_def)
  then show ?thesis using s3.flushed_all [OF _ assms(2-4)] by simp
qed

definition demo_s3_config :: json where
  "demo_s3_config = JObj [(''connection'', JStr ''lake''), (''flush_rows'', jnat 2), (''format'', JStr ''ndjson'')]"

definition demo_s3 :: s3_sink where
  "demo_s3 = \<lparr> s3_cfg = \<lparr> s3_connection = ''lake'', s3_fmt = Ndjson, s3_flush_rows = 2 \<rparr>, s3_buffers = [] \<rparr>"

lemma demo_s3_init: "s3_init demo_s3_config = Inr demo_s3"
  by (simp add: s3_init_def s3_from_json_def demo_s3_config_def demo_s3_def jget_str_def jget_u64_def
      s3_format_of_def as_usize_def max_def word_le_nat_alt)

definition demo_batch :: batch where
  "demo_batch = batch_new ''eth'' 1 (BlockRange 5 9) 0 Log [JNull]"

theorem s3_loses_nothing_witness:
  "\<exists>p'' w''. s3_pending p'' = {#} \<and> recorded w'' = mset (concat (map b_records [demo_batch]))"
proof -
  define put where "put = recording_put (\<lambda>n. True)"
  define w0 where "w0 = \<lparr> rc_log = [], rc_tries = 0 \<rparr>"
  obtain p' w' where a: "write_all (s3_write (keep_records (\<lambda>f rs. True)) put) demo_s3 [demo_batch] w0 = (Inr (), p', w')"
    by (simp add: s3_write_def demo_batch_def demo_s3_def chains_push_def buffer_push_def buffer_empty_def
        take_ready_def s3_put_def)
  have "\<exists>p'' w''. s3_flush (keep_records (\<lambda>f rs. True)) put p' w' = (Inr (), p'', w'')"
    using a by (auto simp: s3_write_def demo_batch_def demo_s3_def chains_push_def buffer_push_def
        buffer_empty_def take_ready_def s3_put_def s3_flush_def take_all_def buffer_take_def
        keep_records_def put_def recording_put_def Let_def)
  then obtain p'' w'' where b: "s3_flush (keep_records (\<lambda>f rs. True)) put p' w' = (Inr (), p'', w'')" by blast
  show ?thesis
    using s3_loses_nothing [OF demo_s3_init _ a [unfolded put_def] b [unfolded put_def]]
    by (auto simp: w0_def recorded_def demo_batch_def is_control_def)
qed

section \<open>Two ways to lose records\<close>

text \<open>A store that keeps the last object put under a key, as an object store does.\<close>

definition store_put :: "(json list, string \<Rightarrow> json list option) blob_import" where
  "store_put conn key rs w = (Inr (), w(key \<mapsto> rs))"

abbreviation encode_all :: "json list encoder" where
  "encode_all \<equiv> keep_records (\<lambda>f rs. True)"

definition chunk_key :: "s3_format \<Rightarrow> u64 \<Rightarrow> u64 \<Rightarrow> u64 \<Rightarrow> nat \<Rightarrow> string" where
  "chunk_key f chain lo hi n =
     show_u64 chain @ ''/'' @ show_u64 lo @ ''-'' @ show_u64 hi @ ''-'' @ show_nat n @ ''.'' @ ext f"

text \<open>A batch that is at least as long as the threshold leaves at once, under the key of its range.\<close>

lemma write_flushes:
  assumes "s3_buffers p = [] \<or> s3_buffers p = [(chain, old)] \<and> bf_records old = [] \<and> \<not> bf_seen old \<and> bf_last_block old = 0"
    and "b_chain_id b = chain" "b_block_range b = BlockRange lo hi" "b_records b \<noteq> []"
    and "s3_flush_rows (s3_cfg p) \<le> length (b_records b)"
  shows "\<exists>old'. s3_write encode_all store_put p b w =
      (Inr (), p \<lparr> s3_buffers := [(chain, old')] \<rparr>,
       w(chunk_key (s3_fmt (s3_cfg p)) chain lo hi (length (b_records b)) \<mapsto> b_records b))
    \<and> bf_records old' = [] \<and> \<not> bf_seen old' \<and> bf_last_block old' = 0"
  using assms
  by (auto simp: s3_write_def chains_push_def buffer_push_def buffer_empty_def take_ready_def
      buffer_take_def keep_records_def s3_put_def store_put_def object_key_def chunk_key_def Let_def)

lemma two_chunks:
  assumes "0 < n" "length xs = 2 * n"
  shows "chunks n xs = [take n xs, drop n xs]"
proof -
  have "xs \<noteq> []" "drop n xs \<noteq> []" using assms by auto
  then show ?thesis
    using assms by (simp add: chunks.simps [of n xs] chunks.simps [of n "drop n xs"] chunks.simps [of n "[]"])
qed

lemma two_batches:
  assumes "0 < s_max_records s" "length records = 2 * s_max_records s"
  shows "\<exists>b1 b2. emit_batches s cursor next1 records = [b1, b2]
    \<and> b_records b1 = take (s_max_records s) records \<and> b_records b2 = drop (s_max_records s) records
    \<and> b_chain_id b1 = s_chain_id s \<and> b_chain_id b2 = s_chain_id s
    \<and> b_block_range b1 = BlockRange cursor next1 \<and> b_block_range b2 = BlockRange cursor next1"
  using two_chunks [OF assms]
  by (simp add: emit_batches_def chunk_batch_def Let_def batch_new_def)

text \<open>
  C37: chunks of one range overwrite each other.  The object key holds the range and the number of
  rows but not the chunk, so when a range is emitted as two full chunks and each reaches the
  flush threshold, both become the same key and the store ends with the second half only,
  every write having succeeded.
\<close>

theorem chunks_overwrite_each_other:
  assumes "0 < s_max_records s" "length records = 2 * s_max_records s"
    and "s3_init config = Inr p" "s3_flush_rows (s3_cfg p) \<le> s_max_records s"
  shows "\<exists>p'. write_all (s3_write encode_all store_put) p (emit_batches s cursor next1 records) (\<lambda>_. None)
    = (Inr (), p', [chunk_key (s3_fmt (s3_cfg p)) (s_chain_id s) cursor next1 (s_max_records s)
         \<mapsto> drop (s_max_records s) records])"
proof -
  let ?n = "s_max_records s"
  let ?k = "chunk_key (s3_fmt (s3_cfg p)) (s_chain_id s) cursor next1 ?n"
  have p: "s3_buffers p = []" using assms(3) by (auto simp: s3_init_def)
  obtain b1 b2 where b: "emit_batches s cursor next1 records = [b1, b2]"
    "b_records b1 = take ?n records" "b_records b2 = drop ?n records"
    "b_chain_id b1 = s_chain_id s" "b_chain_id b2 = s_chain_id s"
    "b_block_range b1 = BlockRange cursor next1" "b_block_range b2 = BlockRange cursor next1"
    using two_batches [OF assms(1,2)] by blast
  have l: "length (b_records b1) = ?n" "length (b_records b2) = ?n" "b_records b1 \<noteq> []" "b_records b2 \<noteq> []"
    using assms(1,2) b(2,3) by auto
  obtain o1 where o1: "s3_write encode_all store_put p b1 (\<lambda>_. None) =
      (Inr (), p \<lparr> s3_buffers := [(s_chain_id s, o1)] \<rparr>, [?k \<mapsto> b_records b1])"
    "bf_records o1 = []" "\<not> bf_seen o1" "bf_last_block o1 = 0"
    using write_flushes [OF disjI1 [OF p] b(4,6) l(3)] assms(4) l(1) by auto
  let ?p1 = "p \<lparr> s3_buffers := [(s_chain_id s, o1)] \<rparr>"
  have "\<exists>o2. s3_write encode_all store_put ?p1 b2 [?k \<mapsto> b_records b1] =
      (Inr (), ?p1 \<lparr> s3_buffers := [(s_chain_id s, o2)] \<rparr>, [?k \<mapsto> b_records b1, ?k \<mapsto> b_records b2])"
    using write_flushes [of ?p1 "s_chain_id s" o1 b2 cursor next1 "[?k \<mapsto> b_records b1]"]
      o1(2-4) b(5,7) l(2,4) assms(4) by auto
  then show ?thesis using o1(1) b(1,3) by auto
qed

definition demo_chunked :: hs_source where
  "demo_chunked = \<lparr> s_name = ''eth'', s_chain_id = 1,
     s_client = client_new ''u'' None \<lparr> q_logs = [], q_field_selection = field_selection_default \<rparr> False,
     s_mode = Backfill, s_from_block = 0, s_to_block = None, s_confirmations = 0,
     s_reorg_enabled = False, s_reorg_window = 1, s_max_records = 2 \<rparr>"

theorem chunks_overwrite_each_other_witness:
  "\<exists>p'. write_all (s3_write encode_all store_put) demo_s3
      (emit_batches demo_chunked 5 9 [JNull, JNull, JBool True, JBool False]) (\<lambda>_. None)
    = (Inr (), p', [chunk_key Ndjson 1 5 9 2 \<mapsto> [JBool True, JBool False]])"
  using chunks_overwrite_each_other [of demo_chunked "[JNull, JNull, JBool True, JBool False]"
      demo_s3_config demo_s3 5 9, OF _ _ demo_s3_init]
  by (simp add: demo_chunked_def demo_s3_def)

text \<open>
  A failed put loses what was taken for it: the buffers are emptied before the upload, so
  after the error the records are neither held nor stored, and the next flush (the next
  checkpoint tick) succeeds with nothing to do.
\<close>

lemma failed_put_loses_rows:
  assumes "s3_pending p \<noteq> {#}" "\<not> up (rc_tries w)"
  shows "\<exists>e p' w'. s3_flush encode_all (recording_put up) p w = (Inl e, p', w')
     \<and> recorded w' = recorded w \<and> s3_pending p' = {#}
     \<and> s3_flush encode_all (recording_put up) p' w' = (Inr (), p', w')"
proof -
  let ?f = "s3_fmt (s3_cfg p)"
  have total: "\<exists>objs bs'. take_where encode_all ?f (\<lambda>b. True) bs = (Inr objs, bs')" for bs
    by (induction bs) (auto simp: buffer_take_def keep_records_def split: prod.splits)
  obtain objs bs' where t: "take_where encode_all ?f (\<lambda>b. True) (s3_buffers p) = (Inr objs, bs')"
    using total by blast
  have e: "buffered bs' = {#}" using take_all_empties [OF t] .
  then have "objects objs = s3_pending p" using take_where_conserves [OF t] by (simp add: s3_pending_def)
  then obtain key rs rest where objs: "objs = (key, rs) # rest"
    using assms(1) by (cases objs) auto
  have idle: "take_where encode_all f (\<lambda>b. True) bs = (Inr [], bs)" if "buffered bs = {#}" for f bs
    using that by (induction bs) (auto simp: buffer_take_def)
  let ?p = "p \<lparr> s3_buffers := bs' \<rparr>"
  let ?w = "w \<lparr> rc_tries := rc_tries w + 1 \<rparr>"
  have "s3_flush encode_all (recording_put up) p w = (Inl ''put failed'', ?p, ?w)"
    using assms(2) by (simp add: s3_flush_def take_all_def t s3_put_def objs recording_put_def Let_def)
  moreover have "s3_flush encode_all (recording_put up) ?p ?w = (Inr (), ?p, ?w)"
    by (simp add: s3_flush_def take_all_def idle [OF e] s3_put_def)
  ultimately show ?thesis using e by (auto simp: recorded_def s3_pending_def)
qed

end
