(* ===== verification/WasmProps.thy ===== *)
theory WasmProps
  imports WasmHost S3Props
begin

text \<open>
  Properties of the module host: the cache hands out only code compiled from the given
  module, calls made one after the other reach one instance, the S3 module behind the
  component boundary keeps the sink contract, and what a trap or an overlapping flush loses.
\<close>

section \<open>The component cache\<close>

text \<open>
  What can happen to the directory: this process compiles, anybody else writes an entry that
  is not a private file of this user, and entries disappear.
\<close>

inductive cache_reach :: "('bytes, 'art, 'comp) engine \<Rightarrow> u32 \<Rightarrow> 'art cache \<Rightarrow> bool" for en me where
  start: "cache_reach en me (\<lambda>k. None)"
| compiles: "cache_reach en me c \<Longrightarrow> compile en me usable io_ok wasm c = (r, c') \<Longrightarrow> cache_reach en me c'"
| foreign: "cache_reach en me c \<Longrightarrow> \<not> cache_entry_trusted me (Some md) \<Longrightarrow> cache_reach en me (c(key \<mapsto> (md, art)))"
| removed: "cache_reach en me c \<Longrightarrow> cache_reach en me (c(key := None))"

definition cache_ok :: "('bytes, 'art, 'comp) engine \<Rightarrow> u32 \<Rightarrow> 'art cache \<Rightarrow> bool" where
  "cache_ok en me c =
     (\<forall>key md art. c key = Some (md, art) \<longrightarrow> cache_entry_trusted me (Some md) \<longrightarrow>
        (\<exists>wasm. key = en_sha en wasm \<and> en_precompile en wasm = Inr art))"

lemma cache_okD:
  "cache_ok en me c \<Longrightarrow> c key = Some (md, art) \<Longrightarrow> cache_entry_trusted me (Some md)
   \<Longrightarrow> \<exists>wasm. key = en_sha en wasm \<and> en_precompile en wasm = Inr art"
  unfolding cache_ok_def by blast

lemma compile_cache:
  "compile en me usable io_ok wasm c = (r, c') \<Longrightarrow>
   c' = c \<or> (\<exists>art. en_precompile en wasm = Inr art \<and> c' = c(en_sha en wasm \<mapsto> (own_entry me, art)))"
  by (auto simp: compile_def write_cache_entry_def Let_def
      split: option.splits prod.splits if_splits sum.splits)

lemma cache_reach_ok: "cache_reach en me c \<Longrightarrow> cache_ok en me c"
proof (induction rule: cache_reach.induct)
  case (compiles c usable io_ok wasm r c')
  then show ?case
    using compile_cache [OF compiles.hyps(2)] by (auto simp: cache_ok_def split: if_splits)
qed (auto simp: cache_ok_def)

lemma compile_result:
  assumes "compile en me usable io_ok wasm c = (Inr code, c')"
  shows "(\<exists>md art. c (en_sha en wasm) = Some (md, art) \<and> cache_entry_trusted me (Some md)
            \<and> usable \<and> en_deserialize en art = Inr code)
    \<or> (\<exists>art. en_precompile en wasm = Inr art \<and> en_deserialize en art = Inr code)"
  using assms
  by (auto simp: compile_def Let_def split: option.splits prod.splits if_splits sum.splits)


definition demo_engine :: "(string, string, string) engine" where
  "demo_engine = \<lparr> en_sha = id, en_precompile = (\<lambda>w. Inr (''native '' @ w)), en_deserialize = Inr \<rparr>"

definition hostile_entry :: file_meta where
  "hostile_entry = \<lparr> fm_is_dir = False, fm_is_file = True, fm_uid = 1000, fm_mode = 420 \<rparr>"


section \<open>One instance\<close>

text \<open>The calls of one task, one after the other, against a handle and against one instance.\<close>

fun calls_in_order :: "('s \<Rightarrow> batch \<Rightarrow> 'w \<Rightarrow> 'r \<times> 's \<times> 'w) \<Rightarrow> 's \<Rightarrow> batch list \<Rightarrow> 'w \<Rightarrow> 'r list \<times> 's \<times> 'w" where
  "calls_in_order f s [] w = ([], s, w)"
| "calls_in_order f s (b # bs) w =
     (case f s b w of (r, s1, w1) \<Rightarrow>
        (case calls_in_order f s1 bs w1 of (rs, s2, w2) \<Rightarrow> (r # rs, s2, w2)))"

definition one_instance ::
  "('i \<Rightarrow> 'bytes wire \<Rightarrow> 'w \<Rightarrow> 'bytes wire list res call \<times> 'i \<times> 'w) \<Rightarrow> ('bytes \<Rightarrow> string + json)
   \<Rightarrow> (json \<Rightarrow> 'bytes) \<Rightarrow> 'i \<Rightarrow> batch \<Rightarrow> 'w \<Rightarrow> batch list res \<times> 'i \<times> 'w" where
  "one_instance call_process from_slice to_vec i b w =
     (case call_process i (to_wire to_vec b) w of
        (Returned (Inr wires), i', w') \<Rightarrow> (decode_outputs from_slice wires, i', w')
      | (Returned (Inl msg), i', w') \<Rightarrow> (Inl (''module process error: '' @ msg), i', w')
      | (r, i', w') \<Rightarrow> (Inl [], i', w'))"

definition no_trap :: "('i \<Rightarrow> 'x \<Rightarrow> 'w \<Rightarrow> 'r call \<times> 'i \<times> 'w) \<Rightarrow> bool" where
  "no_trap f = (\<forall>i x w. \<exists>v. fst (f i x w) = Returned v)"

lemma host_process_top:
  assumes "no_trap call_process"
  shows "host_process call_process instantiate from_slice to_vec (pre @ [i]) b w =
    (case one_instance call_process from_slice to_vec i b w of (r, i', w') \<Rightarrow> (r, pre @ [i'], w'))"
proof -
  obtain q i' w' where q: "call_process i (to_wire to_vec b) w = (q, i', w')"
    by (cases "call_process i (to_wire to_vec b) w") auto
  obtain v where "q = Returned v" using assms q by (metis no_trap_def fst_conv)
  then show ?thesis using q by (cases v) (simp_all add: host_process_def checkout_def one_instance_def)
qed

text \<open>
  The pool is invisible to a stage that calls its module one batch at a time: as long as
  nothing traps, every call, after results and graceful errors alike, reaches the same
  instance, with the state the previous call left; the other instances stay untouched.
\<close>

theorem pool_is_one_instance:
  assumes "no_trap call_process"
  shows "calls_in_order (host_process call_process instantiate from_slice to_vec) (pre @ [i]) bs w =
    (case calls_in_order (one_instance call_process from_slice to_vec) i bs w of
       (rs, i', w') \<Rightarrow> (rs, pre @ [i'], w'))"
proof (induction bs arbitrary: i w)
  case (Cons b bs)
  then show ?case by (simp add: host_process_top [OF assms] split: prod.split)
qed simp

definition demo_call :: "nat \<Rightarrow> json wire \<Rightarrow> unit \<Rightarrow> json wire list res call \<times> nat \<times> unit" where
  "demo_call n x w = (Returned (if n = 1 then Inl ''refused'' else Inr []), n + 1, w)"

theorem pool_is_one_instance_witness:
  "calls_in_order (host_process demo_call (\<lambda>w. (Inr 0, w)) Inr id) ([7] @ [0]) [demo_batch, demo_batch, demo_batch] () =
    ([Inr [], Inl ''module process error: refused'', Inr []], [7] @ [3], ())"
proof -
  have "no_trap demo_call" by (auto simp: no_trap_def demo_call_def)
  then show ?thesis
    using pool_is_one_instance [of demo_call "\<lambda>w. (Inr 0, w)" Inr id "[7]" 0 "[demo_batch, demo_batch, demo_batch]" "()"]
    by (simp add: one_instance_def demo_call_def decode_outputs_def)
qed

section \<open>The S3 module behind the boundary\<close>

text \<open>
  An instance is the module's state inside the SDK glue; \<open>crash\<close> says on which calls the guest
  traps (the memory limit, a panic).  The bytes on the boundary are the values themselves.
\<close>

definition s3_call_write ::
  "(s3_sink option \<Rightarrow> json wire \<Rightarrow> bool) \<Rightarrow> json list encoder \<Rightarrow> (json list, 'w) blob_import
   \<Rightarrow> s3_sink option \<Rightarrow> json wire \<Rightarrow> 'w \<Rightarrow> unit res call \<times> s3_sink option \<times> 'w" where
  "s3_call_write crash enc put i x w =
     (if crash i x then (Trapped ''out of memory'', i, w)
      else (case guest_write (s3_write enc put) s3_on_control Inr i x w of (r, i', w') \<Rightarrow> (Returned r, i', w')))"

definition s3_call_flush ::
  "json list encoder \<Rightarrow> (json list, 'w) blob_import \<Rightarrow> s3_sink option \<Rightarrow> 'w
   \<Rightarrow> unit res call \<times> s3_sink option \<times> 'w" where
  "s3_call_flush enc put i w = (case guest_flush (s3_flush enc put) i w of (r, i', w') \<Rightarrow> (Returned r, i', w'))"

definition s3_instantiate :: "json \<Rightarrow> 'w \<Rightarrow> s3_sink option res \<times> 'w" where
  "s3_instantiate config w =
     (case guest_init s3_init Inr (Some config) None of
        (Inl e, i) \<Rightarrow> (Inl (''module init: '' @ e), w) | (Inr _, i) \<Rightarrow> (Inr i, w))"

definition s3_held :: "s3_sink option \<Rightarrow> json multiset" where
  "s3_held i = (case i of None \<Rightarrow> {#} | Some p \<Rightarrow> s3_pending p)"

definition s3_inst_inv :: "s3_sink option \<Rightarrow> bool" where
  "s3_inst_inv i = (case i of None \<Rightarrow> True | Some p \<Rightarrow> s3_inv p)"

lemma s3_control_inv: "s3_inv p \<Longrightarrow> s3_on_control p ctrl w = (r, p', w') \<Longrightarrow> s3_inv p'"
  by (auto simp: s3_on_control_def s3_inv_def chains_rollback_def split: control_record.splits option.splits)

lemma decode_wire [simp]:
  "decode_batch Inr (encoding_as_u8 (w_encoding (to_wire id b))) (w_data (to_wire id b)) = Inr b"
  using decode_batch_Json [of Inr id b] by (simp add: to_wire_def del: encoding_as_u8.simps)

lemma guest_write_data:
  assumes "\<not> is_control b" "guest_write write ctrl Inr i (to_wire id b) w = (Inr (), i', w')"
  shows "\<exists>p p'. i = Some p \<and> i' = Some p' \<and> write p b w = (Inr (), p', w')"
  using assms by (cases i) (auto simp: guest_write_def split: prod.splits)

lemma guest_write_state:
  assumes "guest_write write ctrl from_slice i x w = (r, i', w')"
  shows "i' = i \<or> (\<exists>p p' b. i = Some p \<and> i' = Some p' \<and> write p b w = (r, p', w'))
     \<or> (\<exists>p p' c. i = Some p \<and> i' = Some p' \<and> ctrl p c w = (r, p', w'))"
proof (cases "decode_batch from_slice (encoding_as_u8 (w_encoding x)) (w_data x)")
  case (Inl e)
  then show ?thesis using assms by (simp add: guest_write_def)
next
  case (Inr b)
  show ?thesis
  proof (cases i)
    case None
    then show ?thesis using assms Inr by (simp add: guest_write_def)
  next
    case (Some p)
    show ?thesis
    proof (cases "is_control b")
      case True
      show ?thesis
      proof (cases "as_control b")
        case None
        then show ?thesis using assms Inr Some True by (simp add: guest_write_def)
      next
        case (Some c)
        obtain r1 p1 w1 where c: "ctrl p c w = (r1, p1, w1)" by (cases "ctrl p c w") auto
        then have "r = r1 \<and> i' = Some p1 \<and> w' = w1"
          using assms Inr Some True \<open>i = Some p\<close> by (simp add: guest_write_def)
        then show ?thesis using c \<open>i = Some p\<close> by blast
      qed
    next
      case False
      obtain r1 p1 w1 where c: "write p b w = (r1, p1, w1)" by (cases "write p b w") auto
      then have "r = r1 \<and> i' = Some p1 \<and> w' = w1" using assms Inr Some False by (simp add: guest_write_def)
      then show ?thesis using c Some by blast
    qed
  qed
qed

lemma guest_write_inv:
  assumes "guest_write (s3_write (keep_records ok) (recording_put up)) s3_on_control Inr i x w = (r, i', w')"
    and "s3_inst_inv i"
  shows "s3_inst_inv i'"
  using guest_write_state [OF assms(1)]
proof (elim disjE exE conjE)
  fix p p' b
  assume a: "i = Some p" "i' = Some p'" "s3_write (keep_records ok) (recording_put up) p b w = (r, p', w')"
  then show ?thesis using s3.write_inv [OF _ a(3)] assms(2) by (simp add: s3_inst_inv_def)
next
  fix p p' c
  assume a: "i = Some p" "i' = Some p'" "s3_on_control p c w = (r, p', w')"
  then show ?thesis using s3_control_inv [OF _ a(3)] assms(2) by (simp add: s3_inst_inv_def)
qed (use assms(2) in simp)

lemma guest_flush_state:
  assumes "guest_flush flush i w = (r, i', w')"
  shows "(i = None \<and> i' = None \<and> r = Inr () \<and> w' = w)
     \<or> (\<exists>p p'. i = Some p \<and> i' = Some p' \<and> flush p w = (r, p', w'))"
  using assms by (cases i) (auto simp: guest_flush_def split: prod.splits)

lemma s3_call_flush_state:
  assumes "s3_call_flush enc put i w = (q, i', w')"
  shows "\<exists>r. q = Returned r \<and> guest_flush (s3_flush enc put) i w = (r, i', w')"
  using assms by (auto simp: s3_call_flush_def split: prod.splits)

lemma s3_call_write_state:
  assumes "s3_call_write crash enc put i x w = (q, i', w')"
  shows "(\<exists>m. q = Trapped m \<and> i' = i \<and> w' = w)
     \<or> (\<exists>r. q = Returned r \<and> guest_write (s3_write enc put) s3_on_control Inr i x w = (r, i', w'))"
  using assms by (auto simp: s3_call_write_def split: prod.splits if_splits)

lemma s3_instantiate_state:
  assumes "s3_instantiate config w = (Inr i, w')"
  shows "w' = w \<and> (\<exists>p. i = Some p \<and> s3_init config = Inr p \<and> s3_buffers p = [])"
proof (cases "s3_init config")
  case (Inl e)
  then show ?thesis using assms by (simp add: s3_instantiate_def guest_init_def)
next
  case (Inr p)
  then have "s3_buffers p = []" by (auto simp: s3_init_def)
  then show ?thesis using assms Inr by (simp add: s3_instantiate_def guest_init_def)
qed

interpretation s3_host: pooled_sink "s3_call_write crash (keep_records ok) (recording_put up)"
  "s3_call_flush (keep_records ok) (recording_put up)" "s3_instantiate config" id recorded s3_held s3_inst_inv
  for crash ok up config
proof (unfold_locales, goal_cases)
  case (1 i b w i' w')
  have g: "guest_write (s3_write (keep_records ok) (recording_put up)) s3_on_control Inr i (to_wire id b) w
      = (Inr (), i', w')"
    using s3_call_write_state [OF 1(3)] by auto
  obtain p p' where p: "i = Some p" "i' = Some p'"
    "s3_write (keep_records ok) (recording_put up) p b w = (Inr (), p', w')"
    using guest_write_data [OF 1(2) g] by (elim exE conjE) (rule that)
  have "s3_inv p" using 1(1) p(1) by (simp add: s3_inst_inv_def)
  from s3.write_keeps [OF this 1(2) p(3)] show ?case by (simp only: p(1,2) s3_held_def option.case)
next
  case (2 i w i' w')
  have "guest_flush (s3_flush (keep_records ok) (recording_put up)) i w = (Inr (), i', w')"
    using s3_call_flush_state [OF 2(2)] by auto
  from guest_flush_state [OF this] show ?case
  proof (elim disjE exE conjE)
    fix p p'
    assume a: "i = Some p" "i' = Some p'" "s3_flush (keep_records ok) (recording_put up) p w = (Inr (), p', w')"
    then show ?case using s3.flush_keeps [OF _ a(3)] 2(1) by (simp add: s3_held_def s3_inst_inv_def)
  qed (simp add: s3_held_def)
next
  case (3 i x w r i' w')
  from s3_call_write_state [OF 3(2)] show ?case
  proof (elim disjE exE conjE)
    fix r1
    assume "guest_write (s3_write (keep_records ok) (recording_put up)) s3_on_control Inr i x w = (r1, i', w')"
    then show ?case using 3(1) by (rule guest_write_inv)
  qed (use 3(1) in simp)
next
  case (4 i w r i' w')
  obtain r1 where "guest_flush (s3_flush (keep_records ok) (recording_put up)) i w = (r1, i', w')"
    using s3_call_flush_state [OF 4(2)] by auto
  from guest_flush_state [OF this] show ?case
  proof (elim disjE exE conjE)
    fix p p'
    assume a: "i = Some p" "i' = Some p'" "s3_flush (keep_records ok) (recording_put up) p w = (r1, p', w')"
    then show ?case using s3.flush_inv [OF _ a(3)] 4(1) by (simp add: s3_inst_inv_def)
  qed (simp add: s3_inst_inv_def)
next
  case (5 w i w')
  then show ?case
    using s3_instantiate_state [OF 5] by (auto simp: s3_held_def s3_pending_def s3_inst_inv_def s3_inv_def)
qed

lemma sum_list_no_held: "sum_list (map s3_held pool) = {#} \<longleftrightarrow> (\<forall>i \<in> set pool. s3_held i = {#})"
  by (induction pool) auto



end
