(* ===== verification/SmallSinks.thy ===== *)
theory SmallSinks
  imports Sdk
begin

text \<open>
  The webhook, stdout and blackhole sinks (\<open>modules/webhook-sink/src/body.rs\<close> and \<open>lib.rs\<close>,
  \<open>modules/stdout-sink/src/lib.rs\<close>, \<open>modules/blackhole-sink/src/lib.rs\<close>).  The host import
  \<open>http\<close>, the standard output and the text layer are parameters.
\<close>

section \<open>The webhook sink\<close>

definition ndjson :: "(json \<Rightarrow> string res) \<Rightarrow> json list \<Rightarrow> string res" where
  "ndjson to_vec records =
     and_then (map_res to_vec records) (\<lambda>lines. Inr (concat (map (\<lambda>l. l @ [CHR 0x0A]) lines)))"

definition invalid_url :: string where
  "invalid_url = ''<invalid url>''"

definition ends_authority :: "char \<Rightarrow> bool" where
  "ends_authority c = (c = CHR ''/'' \<or> c = CHR ''?'' \<or> c = CHR ''#'')"

text \<open>\<open>rsplit('@').next()\<close>: what follows the last \<open>@\<close>.\<close>

definition after_last :: "char \<Rightarrow> string \<Rightarrow> string" where
  "after_last c s = rev (takeWhile (\<lambda>x. x \<noteq> c) (rev s))"

definition redact_url :: "string \<Rightarrow> string" where
  "redact_url url =
     (case split_once ''://'' url of
        None \<Rightarrow> invalid_url
      | Some (scheme, rest) \<Rightarrow>
          let authority = takeWhile (\<lambda>c. \<not> ends_authority c) rest;
              host = after_last (CHR ''@'') authority
          in if host = [] then invalid_url else scheme @ ''://'' @ host)"

record webhook =
  wh_url :: string
  wh_max_batch :: nat
  wh_headers :: "(string \<times> string) list"
  wh_forward_rollbacks :: bool

definition webhook_init :: "json \<Rightarrow> webhook res" where
  "webhook_init config =
     and_then (ok_or ''webhook: config.url required'' (jget_str ''url'' config)) (\<lambda>url.
       Inr \<lparr> wh_url = url,
             wh_max_batch = max (unat (unwrap_or 500 (jget_u64 ''max_batch'' config)) mod 2 ^ 32) 1,
             wh_headers = [(''content-type'', ''application/x-ndjson'')],
             wh_forward_rollbacks = unwrap_or True (jget_bool ''forward_rollbacks'' config) \<rparr>)"

type_synonym ('b, 'w) http_import =
  "string \<Rightarrow> string \<Rightarrow> (string \<times> string) list \<Rightarrow> 'b option \<Rightarrow> 'w \<Rightarrow> (nat \<times> string) res \<times> 'w"

definition status_ok :: "nat \<Rightarrow> bool" where
  "status_ok status = (200 \<le> status \<and> status < 300)"

definition post :: "('b, 'w) http_import \<Rightarrow> webhook \<Rightarrow> string \<Rightarrow> 'b \<Rightarrow> 'w \<Rightarrow> unit res \<times> 'w" where
  "post http p label1 payload w =
     (case http ''POST'' (wh_url p) (wh_headers p) (Some payload) w of
        (Inl e, w') \<Rightarrow> (Inl e, w')
      | (Inr (status, resp), w') \<Rightarrow>
          if status_ok status then (Inr (), w')
          else (Inl (label1 @ redact_url (wh_url p) @ '' -> HTTP '' @ show_nat status), w'))"

fun post_chunks :: "(json list \<Rightarrow> 'b res) \<Rightarrow> ('b, 'w) http_import \<Rightarrow> webhook \<Rightarrow> json list list \<Rightarrow> 'w
    \<Rightarrow> unit res \<times> 'w" where
  "post_chunks body http p [] w = (Inr (), w)"
| "post_chunks body http p (c # cs) w =
     (case body c of
        Inl e \<Rightarrow> (Inl e, w)
      | Inr payload \<Rightarrow>
          (case post http p ''webhook POST '' payload w of
             (Inl e, w') \<Rightarrow> (Inl e, w')
           | (Inr _, w') \<Rightarrow> post_chunks body http p cs w'))"

definition webhook_write :: "(json list \<Rightarrow> 'b res) \<Rightarrow> ('b, 'w) http_import \<Rightarrow> webhook \<Rightarrow> batch \<Rightarrow> 'w
    \<Rightarrow> unit res \<times> webhook \<times> 'w" where
  "webhook_write body http p b w =
     (case post_chunks body http p (chunks (wh_max_batch p) (b_records b)) w of (r, w') \<Rightarrow> (r, p, w'))"

definition webhook_on_control :: "(json list \<Rightarrow> 'b res) \<Rightarrow> ('b, 'w) http_import \<Rightarrow> webhook \<Rightarrow> control_record \<Rightarrow> 'w
    \<Rightarrow> unit res \<times> webhook \<times> 'w" where
  "webhook_on_control body http p ctrl w =
     (case ctrl of
        Eof _ _ \<Rightarrow> (Inr (), p, w)
      | Rollback _ _ \<Rightarrow>
          if \<not> wh_forward_rollbacks p then (Inr (), p, w)
          else
            (case body [control_to_value ctrl] of
               Inl e \<Rightarrow> (Inl e, p, w)
             | Inr payload \<Rightarrow>
                 (case post http p ''webhook rollback POST '' payload w of (r, w') \<Rightarrow> (r, p, w'))))"

section \<open>The stdout and blackhole sinks\<close>

fun stdout_lines :: "(json \<Rightarrow> 'l res) \<Rightarrow> ('l \<Rightarrow> 'w \<Rightarrow> unit res \<times> 'w) \<Rightarrow> json list \<Rightarrow> 'w
    \<Rightarrow> unit res \<times> 'w" where
  "stdout_lines to_text writeln [] w = (Inr (), w)"
| "stdout_lines to_text writeln (r # rs) w =
     (case to_text r of
        Inl e \<Rightarrow> (Inl e, w)
      | Inr line \<Rightarrow>
          (case writeln line w of
             (Inl e, w') \<Rightarrow> (Inl e, w')
           | (Inr _, w') \<Rightarrow> stdout_lines to_text writeln rs w'))"

definition stdout_write :: "(json \<Rightarrow> 'l res) \<Rightarrow> ('l \<Rightarrow> 'w \<Rightarrow> unit res \<times> 'w) \<Rightarrow> unit \<Rightarrow> batch \<Rightarrow> 'w
    \<Rightarrow> unit res \<times> unit \<times> 'w" where
  "stdout_write to_text writeln p b w =
     (case stdout_lines to_text writeln (b_records b) w of (r, w') \<Rightarrow> (r, p, w'))"

definition stdout_flush :: "('w \<Rightarrow> unit res \<times> 'w) \<Rightarrow> unit \<Rightarrow> 'w \<Rightarrow> unit res \<times> unit \<times> 'w" where
  "stdout_flush flush p w = (case flush w of (r, w') \<Rightarrow> (r, p, w'))"

text \<open>The blackhole implements the exports directly, without the SDK: it accepts any bytes.\<close>

definition blackhole_init :: "'c \<Rightarrow> unit res" where
  "blackhole_init ctx = Inr ()"

definition blackhole_write :: "'bytes wire \<Rightarrow> unit res" where
  "blackhole_write input = Inr ()"

definition blackhole_flush :: "unit res" where
  "blackhole_flush = Inr ()"

section \<open>The sink contract\<close>

text \<open>A consumer that records the bodies it acknowledged; \<open>answer n\<close> is its n-th status.\<close>

record consumer =
  cs_bodies :: "json list list"
  cs_tries :: nat

definition recording_http :: "(nat \<Rightarrow> nat) \<Rightarrow> (json list, consumer) http_import" where
  "recording_http answer verb url headers body w =
     (let w' = w \<lparr> cs_tries := cs_tries w + 1 \<rparr>; status = answer (cs_tries w)
      in (Inr (status, []),
          if status_ok status then w' \<lparr> cs_bodies := cs_bodies w @ (case body of Some b \<Rightarrow> [b] | None \<Rightarrow> []) \<rparr>
          else w'))"

definition consumed :: "consumer \<Rightarrow> json multiset" where
  "consumed w = mset (concat (cs_bodies w))"

lemma post_records:
  "post (recording_http answer) p l rs w = (Inr (), w') \<Longrightarrow> consumed w' = consumed w + mset rs"
  by (auto simp: post_def recording_http_def consumed_def Let_def split: if_splits)

lemma post_chunks_records:
  "post_chunks Inr (recording_http answer) p cs w = (Inr (), w')
   \<Longrightarrow> consumed w' = consumed w + mset (concat cs)"
proof (induction cs arbitrary: w)
  case (Cons c cs)
  obtain r w1 where c: "post (recording_http answer) p ''webhook POST '' c w = (r, w1)"
    by (cases "post (recording_http answer) p ''webhook POST '' c w")
  then have "r = Inr ()" "post_chunks Inr (recording_http answer) p cs w1 = (Inr (), w')"
    using Cons.prems by (cases r; simp)+
  then show ?case using Cons.IH post_records c by (simp add: add.assoc)
qed simp

definition webhook_inv :: "webhook \<Rightarrow> bool" where
  "webhook_inv p = (0 < wh_max_batch p)"

lemma webhook_init_inv: "webhook_init config = Inr p \<Longrightarrow> webhook_inv p"
  by (auto simp: webhook_init_def webhook_inv_def)

interpretation webhook: buffered_sink "webhook_write Inr (recording_http answer)" default_flush consumed
  "\<lambda>p. {#}" webhook_inv for answer
  by unfold_locales
    (auto simp: webhook_write_def default_flush_def webhook_inv_def concat_chunks
      dest!: post_chunks_records split: prod.splits)

text \<open>A terminal that prints lines until it is closed after \<open>n\<close> of them.\<close>

definition terminal :: "nat option \<Rightarrow> json \<Rightarrow> json list \<Rightarrow> unit res \<times> json list" where
  "terminal closed line w =
     (if (case closed of None \<Rightarrow> True | Some n \<Rightarrow> length w < n) then (Inr (), w @ [line])
      else (Inl ''broken pipe'', w))"

lemma stdout_records:
  "stdout_lines Inr (terminal closed) rs w = (Inr (), w') \<Longrightarrow> w' = w @ rs"
proof (induction rs arbitrary: w)
  case (Cons r rs)
  then show ?case using Cons.IH [of "w @ [r]"] by (auto simp: terminal_def split: if_splits)
qed simp

interpretation stdout: buffered_sink "stdout_write Inr (terminal closed)" "stdout_flush (\<lambda>w. (Inr (), w))"
  mset "\<lambda>p. {#}" "\<lambda>p. True" for closed
  by unfold_locales (auto simp: stdout_write_def stdout_flush_def dest!: stdout_records split: prod.splits)

section \<open>Properties\<close>

lemma split_once_colon:
  "CHR '':'' \<notin> set scheme \<Longrightarrow> split_once ''://'' (scheme @ ''://'' @ rest) = Some (scheme, rest)"
  by (induction scheme) (auto simp: strip_prefix_def)

lemma takeWhile_other: "c \<notin> set s \<Longrightarrow> takeWhile (\<lambda>x. x \<noteq> c) (s @ c # t) = s"
  "c \<notin> set s \<Longrightarrow> takeWhile (\<lambda>x. x \<noteq> c) s = s"
  by (induction s) auto

lemma after_last_append: "c \<notin> set b \<Longrightarrow> after_last c (a @ c # b) = b"
  by (simp add: after_last_def takeWhile_other)

lemma after_last_none: "c \<notin> set b \<Longrightarrow> after_last c b = b"
  by (simp add: after_last_def takeWhile_other)

definition plain_part :: "string \<Rightarrow> bool" where
  "plain_part s = (\<forall>c \<in> set s. \<not> ends_authority c)"

lemma authority_of:
  "plain_part a \<Longrightarrow> tail = [] \<or> ends_authority (hd tail)
   \<Longrightarrow> takeWhile (\<lambda>c. \<not> ends_authority c) (a @ tail) = a"
  by (cases tail) (auto simp: plain_part_def takeWhile_append)

text \<open>
  What a webhook error says about its URL is the scheme and the host, and nothing else: the
  user information before the host and the path, query and fragment after it (where the
  credential is) do not appear and do not influence it.
\<close>

theorem redact_hides_credentials:
  assumes "CHR '':'' \<notin> set scheme" "plain_part user" "plain_part host" "CHR ''@'' \<notin> set host" "host \<noteq> []"
    and "tail = [] \<or> ends_authority (hd tail)"
  shows "redact_url (scheme @ ''://'' @ user @ ''@'' @ host @ tail) = scheme @ ''://'' @ host
     \<and> redact_url (scheme @ ''://'' @ host @ tail) = scheme @ ''://'' @ host"
proof -
  have "plain_part (user @ ''@'' @ host)"
    using assms(2,3) by (auto simp: plain_part_def ends_authority_def)
  then have "takeWhile (\<lambda>c. \<not> ends_authority c) ((user @ ''@'' @ host) @ tail) = user @ ''@'' @ host"
    using assms(6) by (rule authority_of)
  moreover have "takeWhile (\<lambda>c. \<not> ends_authority c) (host @ tail) = host"
    using assms(3,6) by (rule authority_of)
  moreover have "after_last (CHR ''@'') (user @ ''@'' @ host) = host"
    using after_last_append [OF assms(4), of user] by simp
  ultimately show ?thesis
    using split_once_colon [OF assms(1)] after_last_none [OF assms(4)] assms(5)
    by (simp add: redact_url_def)
qed

theorem redact_hides_credentials_witness:
  "redact_url (''https'' @ ''://'' @ ''user'' @ ''@'' @ ''hooks.io'' @ ''/T0/secret'') = ''https'' @ ''://'' @ ''hooks.io''
   \<and> redact_url (''https'' @ ''://'' @ ''hooks.io'' @ ''/T0/secret'') = ''https'' @ ''://'' @ ''hooks.io''"
  by (rule redact_hides_credentials) (simp_all add: plain_part_def ends_authority_def)

end
