(* ===== verification/Delivery.thy ===== *)
theory Delivery
  imports PipelineProps WasmProps SmallSinks
begin

text \<open>
  At-least-once delivery: the pipeline's tasks as a step relation over the checkpoint store,
  the sinks and their input, and what a durable cursor promises at any moment.  The contract
  a sink has to keep for it is a locale; the modules are shown to keep it.
\<close>

section \<open>The glue around a sink\<close>

text \<open>What \<open>export_sink!\<close> does with a decoded batch: control goes to \<open>on_control\<close>.\<close>

definition glue_write ::
  "('p \<Rightarrow> batch \<Rightarrow> 'w \<Rightarrow> unit res \<times> 'p \<times> 'w) \<Rightarrow> ('p \<Rightarrow> control_record \<Rightarrow> 'w \<Rightarrow> unit res \<times> 'p \<times> 'w)
   \<Rightarrow> 'p \<Rightarrow> batch \<Rightarrow> 'w \<Rightarrow> unit res \<times> 'p \<times> 'w" where
  "glue_write write on_control p b w =
     (if is_control b then
        (case as_control b of Some ctrl \<Rightarrow> on_control p ctrl w | None \<Rightarrow> (Inr (), p, w))
      else write p b w)"

lemma guest_write_glue:
  assumes "\<And>v. from_slice (to_vec v) = Inr v"
  shows "guest_write write on_control from_slice (Some p) (to_wire to_vec b) w =
    (case glue_write write on_control p b w of (r, p', w') \<Rightarrow> (r, Some p', w'))"
  using decode_batch_Json [where from_slice = from_slice and to_vec = to_vec and b = b, OF assms]
  by (simp add: guest_write_def glue_write_def to_wire_def split: option.split prod.split del: encoding_as_u8.simps)

section \<open>The contract of a sink that loses nothing\<close>

locale reliable_sink = buffered_sink +
  assumes write_grows:
      "sink_inv p \<Longrightarrow> rewind_target b = None \<Longrightarrow> sink_write p b w = (r, p', w') \<Longrightarrow>
         delivered w + pending p \<subseteq># delivered w' + pending p' \<and> delivered w \<subseteq># delivered w'"
    and flush_grows:
      "sink_inv p \<Longrightarrow> sink_flush p w = (r, p', w') \<Longrightarrow>
         delivered w + pending p \<subseteq># delivered w' + pending p' \<and> delivered w \<subseteq># delivered w'"

text \<open>A branch: the sink with what lies outside of it.\<close>

definition branch_write :: "('p \<Rightarrow> batch \<Rightarrow> 'w \<Rightarrow> unit res \<times> 'p \<times> 'w) \<Rightarrow> batch \<Rightarrow> 'p \<times> 'w \<Rightarrow> unit res spawned \<times> ('p \<times> 'w)" where
  "branch_write write b v = (case write (fst v) b (snd v) of (r, p', w') \<Rightarrow> (Joined r, (p', w')))"

definition branch_flush :: "('p \<Rightarrow> 'w \<Rightarrow> unit res \<times> 'p \<times> 'w) \<Rightarrow> 'p \<times> 'w \<Rightarrow> unit res spawned \<times> ('p \<times> 'w)" where
  "branch_flush flush v = (case flush (fst v) (snd v) of (r, p', w') \<Rightarrow> (Joined r, (p', w')))"

text \<open>What is outside or held.\<close>

definition branch_total :: "('w \<Rightarrow> json multiset) \<Rightarrow> ('p \<Rightarrow> json multiset) \<Rightarrow> 'p \<times> 'w \<Rightarrow> json multiset" where
  "branch_total outside held v = outside (snd v) + held (fst v)"

definition data_records :: "batch list \<Rightarrow> json multiset" where
  "data_records bs = mset (concat (map b_records (filter (\<lambda>b. \<not> is_control b) bs)))"

lemma data_records_simps [simp]:
  "data_records [] = {#}"
  "data_records (as @ bs) = data_records as + data_records bs"
  "data_records [b] = (if is_control b then {#} else mset (b_records b))"
  by (simp_all add: data_records_def)

lemma data_records_filter: "data_records (filter P bs) \<subseteq># data_records bs"
proof (induction bs)
  case (Cons b bs)
  have "data_records (filter P (b # bs)) = data_records (filter P [b]) + data_records (filter P bs)"
    "data_records (b # bs) = data_records [b] + data_records bs"
    by (simp_all add: data_records_def)
  moreover have "data_records (filter P [b]) \<subseteq># data_records [b]" by simp
  ultimately show ?case using subset_mset.add_mono Cons by metis
qed simp

lemma data_records_filter_take:
  assumes "\<And>i. i < length bs \<Longrightarrow> n \<le> i \<Longrightarrow> P (bs ! i) \<Longrightarrow> is_control (bs ! i)"
  shows "data_records (filter P bs) \<subseteq># data_records (take n bs)"
proof -
  have "filter (\<lambda>b. \<not> is_control b) (filter P (drop n bs)) = []"
    using assms by (auto simp: filter_empty_conv in_set_conv_nth)
  then have "data_records (filter P (drop n bs)) = {#}" by (simp add: data_records_def)
  moreover have "data_records (filter P (take n bs)) \<subseteq># data_records (take n bs)"
    by (rule data_records_filter)
  ultimately show ?thesis
    by (metis append_take_drop_id add.right_neutral data_records_simps(2) filter_append)
qed

context reliable_sink
begin

abbreviation total :: "'a \<times> 'b \<Rightarrow> json multiset" where
  "total \<equiv> branch_total delivered pending"

lemmas total_def = branch_total_def

lemma branch_write_grows:
  assumes "sink_inv (fst v)" "rewind_target b = None" "branch_write sink_write b v = (r, v')"
  shows "sink_inv (fst v') \<and> total v \<subseteq># total v' \<and> delivered (snd v) \<subseteq># delivered (snd v')
     \<and> (r = Joined (Inr ()) \<longrightarrow> total v + data_records [b] \<subseteq># total v') \<and> (\<exists>q. r = Joined q)"
proof -
  obtain q p' w' where s: "sink_write (fst v) b (snd v) = (q, p', w')" by (cases "sink_write (fst v) b (snd v)") auto
  then have v: "r = Joined q" "v' = (p', w')" using assms(3) by (auto simp: branch_write_def)
  have "total v + data_records [b] \<subseteq># total v'" if "q = Inr ()"
  proof (cases "is_control b")
    case True
    then show ?thesis using write_grows [OF assms(1,2) s] v by (simp add: total_def)
  next
    case False
    then show ?thesis using write_keeps [OF assms(1) False] s v that by (simp add: total_def)
  qed
  then show ?thesis using write_grows [OF assms(1,2) s] write_inv [OF assms(1) s] v by (simp add: total_def)
qed

lemma write_loop_grows:
  "sink_inv (fst v) \<Longrightarrow> rewind_target b = None \<Longrightarrow> write_loop (branch_write sink_write b) n v = (ok, v') \<Longrightarrow>
   sink_inv (fst v') \<and> total v \<subseteq># total v' \<and> delivered (snd v) \<subseteq># delivered (snd v')
   \<and> (ok \<longrightarrow> total v + data_records [b] \<subseteq># total v')"
proof (induction "branch_write sink_write b" n v rule: write_loop.induct)
  case (1 n v)
  obtain r v1 where w: "branch_write sink_write b v = (r, v1)" by (cases "branch_write sink_write b v")
  note g = branch_write_grows [OF 1(2,3) w]
  then obtain q where q: "r = Joined q" by blast
  show ?case
  proof (cases q)
    case (Inr u)
    then show ?thesis using 1(4) w g q by (simp add: write_loop.simps [of _ n v])
  next
    case (Inl e)
    show ?thesis
    proof (cases "SINK_MAX_ATTEMPTS \<le> n + 1")
      case True
      then show ?thesis using 1(4) w g q Inl by (simp add: write_loop.simps [of _ n v])
    next
      case False
      then have l: "write_loop (branch_write sink_write b) (n + 1) v1 = (ok, v')"
        using 1(4) w q Inl by (simp add: write_loop.simps [of _ n v])
      have "sink_inv (fst v') \<and> total v1 \<subseteq># total v' \<and> delivered (snd v1) \<subseteq># delivered (snd v')
          \<and> (ok \<longrightarrow> total v1 + data_records [b] \<subseteq># total v')"
        using 1(1) [OF w [symmetric] q Inl False _ 1(3) l] g by blast
      then show ?thesis using g subset_mset.order_trans subset_mset.add_right_mono by meson
    qed
  qed
qed

lemma branch_flush_grows:
  assumes "sink_inv (fst v)" "branch_flush sink_flush v = (r, v')"
  shows "sink_inv (fst v') \<and> total v \<subseteq># total v' \<and> delivered (snd v) \<subseteq># delivered (snd v')
     \<and> (flush_ok r \<longrightarrow> total v \<subseteq># delivered (snd v'))"
proof -
  obtain q p' w' where s: "sink_flush (fst v) (snd v) = (q, p', w')" by (cases "sink_flush (fst v) (snd v)") auto
  then have v: "r = Joined q" "v' = (p', w')" using assms(2) by (auto simp: branch_flush_def)
  have "total v \<subseteq># delivered w'" if "flush_ok (Joined q)"
    using that flush_keeps [OF assms(1)] s by (cases q) (auto simp: total_def)
  then show ?thesis using flush_grows [OF assms(1) s] flush_inv [OF assms(1) s] v by (simp add: total_def)
qed

end

section \<open>The modules keep the contract\<close>

text \<open>The webhook sink holds nothing, so an error leaves nothing behind.\<close>

lemma post_grows: "post (recording_http answer) p l rs w = (r, w') \<Longrightarrow> consumed w \<subseteq># consumed w'"
  by (auto simp: post_def recording_http_def consumed_def Let_def split: if_splits)

lemma post_chunks_grows:
  "post_chunks Inr (recording_http answer) p cs w = (r, w') \<Longrightarrow> consumed w \<subseteq># consumed w'"
proof (induction cs arbitrary: w)
  case (Cons c cs)
  obtain q w1 where c: "post (recording_http answer) p ''webhook POST '' c w = (q, w1)"
    by (cases "post (recording_http answer) p ''webhook POST '' c w")
  show ?case
  proof (cases q)
    case (Inl e)
    then show ?thesis using Cons.prems c post_grows [OF c] by simp
  next
    case (Inr u)
    then show ?thesis
      using Cons.prems c Cons.IH subset_mset.order_trans [OF post_grows [OF c]] by simp
  qed
qed simp

abbreviation webhook_sink :: "(nat \<Rightarrow> nat) \<Rightarrow> webhook \<Rightarrow> batch \<Rightarrow> consumer \<Rightarrow> unit res \<times> webhook \<times> consumer" where
  "webhook_sink answer \<equiv>
     glue_write (webhook_write Inr (recording_http answer)) (webhook_on_control Inr (recording_http answer))"

lemma glue_data: "\<not> is_control b \<Longrightarrow> glue_write write ctl p b w = write p b w"
  by (simp add: glue_write_def)

lemma glue_inv:
  assumes "glue_write write ctl p b w = (r, p', w')" "P p"
    and "\<And>r p' w'. write p b w = (r, p', w') \<Longrightarrow> P p'" "\<And>c r p' w'. ctl p c w = (r, p', w') \<Longrightarrow> P p'"
  shows "P p'"
  using assms by (auto simp: glue_write_def split: if_splits option.splits)

lemma as_control_eof:
  "rewind_target b = None \<Longrightarrow> as_control b = None \<or> (\<exists>s at. as_control b = Some (Eof s at))"
  by (auto simp: rewind_target_def split: option.splits control_record.splits)

interpretation hook: reliable_sink "webhook_sink answer" default_flush consumed "\<lambda>p. {#}" webhook_inv for answer
proof (unfold_locales, goal_cases)
  case (1 p b w p' w')
  then show ?case using webhook.write_keeps by (simp add: glue_data)
next
  case (2 p w p' w')
  then show ?case using webhook.flush_keeps by blast
next
  case (3 p b w r p' w')
  show ?case
    by (rule glue_inv [where P = webhook_inv, OF 3(2,1)])
      (use 3(1) webhook.write_inv in \<open>blast, auto simp: webhook_on_control_def
        split: control_record.splits if_splits prod.splits sum.splits\<close>)
next
  case (4 p w r p' w')
  then show ?case using webhook.flush_inv by blast
next
  case (5 p b w r p' w')
  show ?case
  proof (cases "is_control b")
    case True
    then have "w' = w" using 5(3) as_control_eof [OF 5(2)]
      by (auto simp: glue_write_def webhook_on_control_def split: option.splits)
    then show ?thesis by simp
  next
    case False
    then show ?thesis using 5(3) post_chunks_grows
      by (auto simp: glue_data webhook_write_def split: prod.splits)
  qed
next
  case (6 p w r p' w')
  then show ?case by (simp add: default_flush_def)
qed

text \<open>The S3 sink keeps it as long as the store accepts every object.\<close>

abbreviation always_up :: "(json list, recorder) blob_import" where
  "always_up \<equiv> recording_put (\<lambda>n. True)"

abbreviation s3_glue :: "s3_sink \<Rightarrow> batch \<Rightarrow> recorder \<Rightarrow> unit res \<times> s3_sink \<times> recorder" where
  "s3_glue \<equiv> glue_write (s3_write encode_all always_up) s3_on_control"

lemma take_where_total: "\<exists>objs bs'. take_where encode_all f due bs = (Inr objs, bs')"
  by (induction bs) (auto simp: buffer_take_def keep_records_def split: prod.splits)

lemma put_all_up: "fst (put_all always_up conn objs w) = Inr ()"
  by (induction objs arbitrary: w) (auto simp: recording_put_def Let_def split: prod.splits)

lemma s3_put_up: "fst (s3_put always_up (take_where encode_all f due bs) p w) = Inr ()"
proof -
  obtain objs bs' where t: "take_where encode_all f due bs = (Inr objs, bs')" using take_where_total by blast
  show ?thesis
    using put_all_up [of "s3_connection (s3_cfg p)" objs w]
    by (cases "put_all always_up (s3_connection (s3_cfg p)) objs w") (simp add: t s3_put_def)
qed

lemma put_all_grows:
  "put_all (recording_put up) conn objs w = (r, w') \<Longrightarrow> recorded w \<subseteq># recorded w'"
proof (induction objs arbitrary: w)
  case (Cons x objs)
  obtain key rs where x: "x = (key, rs)" by (cases x)
  obtain q w1 where p: "recording_put up conn key rs w = (q, w1)" by (cases "recording_put up conn key rs w")
  then have g: "recorded w \<subseteq># recorded w1"
    by (auto simp: recording_put_def Let_def recorded_def split: if_splits)
  show ?case
  proof (cases q)
    case (Inl e)
    then show ?thesis using Cons.prems p g by (simp add: x)
  next
    case (Inr u)
    then show ?thesis using Cons.prems Cons.IH p subset_mset.order_trans [OF g] by (simp add: x)
  qed
qed simp

lemma s3_put_grows: "s3_put (recording_put up) taken p w = (r, p', w') \<Longrightarrow> recorded w \<subseteq># recorded w'"
  by (auto simp: s3_put_def dest: put_all_grows split: prod.splits sum.splits)

lemma s3_grows:
  "s3_write enc (recording_put up) p b w = (r, p', w') \<Longrightarrow> recorded w \<subseteq># recorded w'"
  "s3_flush enc (recording_put up) p w = (r, p', w') \<Longrightarrow> recorded w \<subseteq># recorded w'"
  unfolding s3_write_def s3_flush_def Let_def by (fact s3_put_grows)+

interpretation lake: reliable_sink s3_glue "s3_flush encode_all always_up" recorded s3_pending s3_inv
proof (unfold_locales, goal_cases)
  case (1 p b w p' w')
  then show ?case using s3.write_keeps by (simp add: glue_data)
next
  case (2 p w p' w')
  then show ?case using s3.flush_keeps by blast
next
  case (3 p b w r p' w')
  show ?case
    by (rule glue_inv [where P = s3_inv, OF 3(2,1)]) (erule s3.write_inv [OF 3(1)], erule s3_control_inv [OF 3(1)])
next
  case (4 p w r p' w')
  then show ?case using s3.flush_inv by blast
next
  case (5 p b w r p' w')
  show ?case
  proof (cases "is_control b")
    case True
    then have "w' = w \<and> p' = p" using 5(3) as_control_eof [OF 5(2)]
      by (auto simp: glue_write_def s3_on_control_def split: option.splits)
    then show ?thesis by simp
  next
    case False
    then have "r = Inr ()" using 5(3) s3_put_up
      by (metis fst_conv glue_data s3_write_def take_ready_def)
    then show ?thesis using s3.write_keeps [OF 5(1) False] 5(3) False s3_grows by (simp add: glue_data)
  qed
next
  case (6 p w r p' w')
  then have "r = Inr ()" using s3_put_up by (metis fst_conv s3_flush_def take_all_def)
  then show ?case using s3.flush_keeps [OF 6(1)] 6(2) by simp
qed

end
