(* ===== verification/System.thy ===== *)
theory System
  imports Delivery
begin

text \<open>
  The running pipeline: sink tasks and the checkpoint task as one step relation over the
  store, the sinks and their remaining input, in any interleaving, and the promise of a
  durable cursor at every reachable state, hence at a crash at any moment.
\<close>

section \<open>The step relation\<close>

text \<open>
  Per sink: its state with what is outside (\<open>'v\<close>), the batches still to come and, for the
  statement, the batches it acknowledged.  A tick in progress has taken its snapshot and
  still has to flush some sinks.
\<close>

record ('v, 'b) sys =
  sy_store :: "'b ckpt"
  sy_branch :: "string \<Rightarrow> 'v"
  sy_todo :: "string \<Rightarrow> batch list"
  sy_done :: "string \<Rightarrow> batch list"
  sy_tick :: "(snapshot \<times> string list) option"

text \<open>
  A sink task takes its next batch (\<open>delivers\<close>), or gives up and stops (\<open>pauses\<close>).  The
  checkpoint task goes through \<open>checkpoint_once\<close>: snapshot, one flush per sink, persist; a
  failed flush ends the tick, and the shutdown aborts it at any moment.  The source saves its
  reorg window at any time.  A write and a
  flush of one sink do not overlap.
\<close>

inductive sys_step ::
  "(string \<Rightarrow> batch \<Rightarrow> 'v \<Rightarrow> unit res spawned \<times> 'v) \<Rightarrow> (string \<Rightarrow> 'v \<Rightarrow> unit res spawned \<times> 'v) \<Rightarrow> ('v \<Rightarrow> bool)
   \<Rightarrow> string list \<Rightarrow> ('v, 'b) sys \<Rightarrow> ('v, 'b) sys \<Rightarrow> bool"
  for wr fl rewind_ok sinks where
  delivers: "sy_todo s k = b # bs \<Longrightarrow>
     sink_step (wr k) rewind_ok k b (sy_store s) (sy_branch s k) = (True, st', v') \<Longrightarrow>
     sys_step wr fl rewind_ok sinks s
       (s \<lparr> sy_store := st', sy_branch := (sy_branch s)(k := v'), sy_todo := (sy_todo s)(k := bs),
            sy_done := (sy_done s)(k := sy_done s k @ [b]) \<rparr>)"
| pauses: "sy_todo s k = b # bs \<Longrightarrow>
     sink_step (wr k) rewind_ok k b (sy_store s) (sy_branch s k) = (False, st', v') \<Longrightarrow>
     sys_step wr fl rewind_ok sinks s
       (s \<lparr> sy_store := st', sy_branch := (sy_branch s)(k := v'), sy_todo := (sy_todo s)(k := []) \<rparr>)"
| tick: "sy_tick s = None \<Longrightarrow>
     sys_step wr fl rewind_ok sinks s (s \<lparr> sy_tick := Some (ckpt_snapshot (sy_store s), sinks) \<rparr>)"
| flushes: "sy_tick s = Some (snap, k # ks) \<Longrightarrow> fl k (sy_branch s k) = (r, v') \<Longrightarrow>
     sys_step wr fl rewind_ok sinks s
       (s \<lparr> sy_branch := (sy_branch s)(k := v'),
            sy_tick := (if flush_ok r then Some (snap, ks) else None) \<rparr>)"
| persists: "sy_tick s = Some (snap, []) \<Longrightarrow>
     sys_step wr fl rewind_ok sinks s
       (s \<lparr> sy_store := snd (persist_snapshot txn_ok snap (sy_store s)), sy_tick := None \<rparr>)"
| aborts: "sys_step wr fl rewind_ok sinks s (s \<lparr> sy_tick := None \<rparr>)"
| saves: "sys_step wr fl rewind_ok sinks s (s \<lparr> sy_store := ckpt_kv_set (sy_store s) m key val \<rparr>)"
| reads: "sys_step wr fl rewind_ok sinks s (s \<lparr> sy_store := snd (ckpt_kv_get sql_ok (sy_store s) m key) \<rparr>)"

abbreviation sys_steps where
  "sys_steps wr fl rewind_ok sinks \<equiv> (sys_step wr fl rewind_ok sinks)\<^sup>*\<^sup>*"

section \<open>Cursors\<close>

text \<open>The cursor after acknowledging batches, starting from \<open>c0\<close>.\<close>

definition acked :: "string \<Rightarrow> batch list \<Rightarrow> u64 option \<Rightarrow> u64 option" where
  "acked src bs c0 =
     fold (\<lambda>b m. if b_source b = src then Some (max (ack_block b) (unwrap_or 0 m)) else m) bs c0"

lemma acked_simps [simp]:
  "acked src [] c0 = c0"
  "acked src (bs @ [b]) c0 =
     (if b_source b = src then Some (max (ack_block b) (unwrap_or 0 (acked src bs c0))) else acked src bs c0)"
  by (simp_all add: acked_def)

lemma acked_bound:
  "acked src bs c0 = Some m \<Longrightarrow> c0 = Some m \<or> m = 0 \<or> (\<exists>b \<in> set bs. b_source b = src \<and> m = ack_block b)"
proof (induction bs arbitrary: m rule: rev_induct)
  case (snoc b bs)
  show ?case
  proof (cases "b_source b = src")
    case True
    then have m: "m = max (ack_block b) (unwrap_or 0 (acked src bs c0))" using snoc.prems by simp
    show ?thesis
    proof (cases "acked src bs c0")
      case None
      then show ?thesis using m True by simp
    next
      case (Some x)
      then show ?thesis using m True snoc.IH [OF Some] by (auto simp: max_def)
    qed
  next
    case False
    then show ?thesis using snoc by auto
  qed
qed simp

lemma durable_rewind_other:
  assumes "k' \<noteq> (src, sink)"
  shows "durable_cursor (snd (ckpt_rewind ok src sink n st)) k' = durable_cursor st k'"
  using assms map_of_map_val [of "\<lambda>k w. if k = (src, sink) \<and> as_i64 n < w then as_i64 n else w" "db_cursors (ck_db st)" k']
  by (cases "map_of (db_cursors (ck_db st)) k'")
    (simp_all add: durable_cursor_def ckpt_rewind_def rewind_memory_def sql_lower_cursor_def Let_def case_prod_beta)

lemma mem_rewind_other:
  "maps_ok st \<Longrightarrow> k' \<noteq> (src, sink) \<Longrightarrow> mem_cursor (snd (ckpt_rewind ok src sink n st)) k' = mem_cursor st k'"
  using mem_cursor_rewind [of st src sink n]
  by (simp add: ckpt_rewind_def Let_def mem_cursor_def)

text \<open>The step of one sink leaves the cursors of every other sink alone.\<close>

lemma sink_step_other:
  assumes "sink_step write rewind_ok j b st v = (go, st', v')" "maps_ok st" "j \<noteq> k"
  shows "maps_ok st' \<and> mem_cursor st' (src, k) = mem_cursor st (src, k)
     \<and> durable_cursor st' (src, k) = durable_cursor st (src, k)"
proof -
  have k: "(src, k) \<noteq> (b_source b, j)" using assms(3) by simp
  obtain ok w1 where w: "write_loop (write b) 0 v = (ok, w1)" by (cases "write_loop (write b) 0 v")
  have "st' = st \<or> (\<exists>sql to. st' = snd (ckpt_rewind sql (b_source b) j to st))
      \<or> st' = ckpt_ack (b_source b) j (ack_block b) st"
  proof (cases "rewind_target b")
    case None
    then show ?thesis using assms(1) w by (cases ok) (auto simp: sink_step_def)
  next
    case (Some to)
    obtain q s1 where "ckpt_rewind (rewind_ok w1) (b_source b) j to st = (q, s1)"
      by (cases "ckpt_rewind (rewind_ok w1) (b_source b) j to st")
    moreover from this have "s1 = snd (ckpt_rewind (rewind_ok w1) (b_source b) j to st)" by simp
    moreover have "st' = st \<or> st' = s1"
      using assms(1) w Some calculation(1) by (cases ok) (simp_all add: sink_step_def)
    ultimately show ?thesis by blast
  qed
  then show ?thesis
    using assms(2,3) mem_rewind_other [OF assms(2) k] durable_rewind_other [OF k] by (auto simp: mem_cursor_ack)
qed

lemma sink_step_self:
  assumes "sink_step write rewind_ok k b st v = (go, st', v')" "rewind_target b = None"
  shows "write_loop (write b) 0 v = (go, v') \<and> st' = (if go then ckpt_ack (b_source b) k (ack_block b) st else st)"
proof -
  obtain ok w1 where "write_loop (write b) 0 v = (ok, w1)" by (cases "write_loop (write b) 0 v")
  then show ?thesis using assms by (cases ok) (auto simp: sink_step_def)
qed

section \<open>The invariant of one sink\<close>

text \<open>
  \<open>covers n\<close>: everything of the first \<open>n\<close> acknowledged batches is outside.
\<close>

definition cursor_covered ::
  "string \<Rightarrow> u64 option \<Rightarrow> batch list \<Rightarrow> json multiset \<Rightarrow> u64 \<Rightarrow> bool" where
  "cursor_covered src c0 acc outside d =
     (\<exists>n \<le> length acc. \<exists>m. acked src (take n acc) c0 = Some m \<and> d \<le> m \<and> data_records (take n acc) \<subseteq># outside)"

definition tick_covered ::
  "string \<Rightarrow> string \<Rightarrow> u64 option \<Rightarrow> batch list \<Rightarrow> json multiset \<Rightarrow> (snapshot \<times> string list) option \<Rightarrow> bool" where
  "tick_covered src k c0 acc outside t =
     (case t of
        None \<Rightarrow> True
      | Some (snap, ks) \<Rightarrow> btm_ok snap
          \<and> (\<exists>n \<le> length acc. map_of snap (src, k) = acked src (take n acc) c0
               \<and> (k \<notin> set ks \<longrightarrow> data_records (take n acc) \<subseteq># outside)))"

lemma covered_mono:
  assumes "outside \<subseteq># outside'"
  shows "cursor_covered src c0 acc outside d \<Longrightarrow> cursor_covered src c0 (acc @ bs) outside' d"
    "tick_covered src k c0 acc outside t \<Longrightarrow> tick_covered src k c0 (acc @ bs) outside' t"
proof -
  assume "cursor_covered src c0 acc outside d"
  then obtain n m where "n \<le> length acc" "acked src (take n acc) c0 = Some m" "d \<le> m"
    "data_records (take n acc) \<subseteq># outside" unfolding cursor_covered_def by blast
  then show "cursor_covered src c0 (acc @ bs) outside' d"
    unfolding cursor_covered_def by (intro exI [of _ n] conjI exI [of _ m])
      (use subset_mset.order_trans [OF _ assms] in auto)
next
  assume t: "tick_covered src k c0 acc outside t"
  show "tick_covered src k c0 (acc @ bs) outside' t"
  proof (cases t)
    case None
    then show ?thesis by (simp add: tick_covered_def)
  next
    case (Some x)
    obtain snap ks where x: "x = (snap, ks)" by (cases x)
    then obtain n where "n \<le> length acc" "map_of snap (src, k) = acked src (take n acc) c0" "btm_ok snap"
      "k \<notin> set ks \<longrightarrow> data_records (take n acc) \<subseteq># outside"
      using t Some by (auto simp: tick_covered_def)
    then show ?thesis using Some x subset_mset.order_trans [OF _ assms]
      by (auto simp: tick_covered_def intro!: exI [of _ n])
  qed
qed

definition delivery_inv ::
  "string \<Rightarrow> string \<Rightarrow> u64 option \<Rightarrow> ('w \<Rightarrow> json multiset) \<Rightarrow> ('p \<Rightarrow> json multiset) \<Rightarrow> ('p \<Rightarrow> bool)
   \<Rightarrow> batch list \<Rightarrow> ('p \<times> 'w, 'b) sys \<Rightarrow> bool" where
  "delivery_inv src k c0 out held good stream s =
     (maps_ok (sy_store s) \<and> good (fst (sy_branch s k))
      \<and> (\<exists>rest. stream = sy_done s k @ rest \<and> (sy_todo s k = rest \<or> sy_todo s k = []))
      \<and> data_records (sy_done s k) \<subseteq># branch_total out held (sy_branch s k)
      \<and> mem_cursor (sy_store s) (src, k) = acked src (sy_done s k) c0
      \<and> tick_covered src k c0 (sy_done s k) (out (snd (sy_branch s k))) (sy_tick s)
      \<and> (\<forall>d. durable_cursor (sy_store s) (src, k) = Some d \<longrightarrow>
           cursor_covered src c0 (sy_done s k) (out (snd (sy_branch s k))) d))"

text \<open>Steps that leave the sink's own parts alone keep its invariant.\<close>

lemma delivery_inv_cong:
  assumes "delivery_inv src k c0 out held good stream s" "maps_ok (sy_store s')"
    and "sy_branch s' k = sy_branch s k" "sy_todo s' k = sy_todo s k" "sy_done s' k = sy_done s k"
    and "mem_cursor (sy_store s') (src, k) = mem_cursor (sy_store s) (src, k)"
    and "durable_cursor (sy_store s') (src, k) = durable_cursor (sy_store s) (src, k)"
    and "sy_tick s' = sy_tick s"
  shows "delivery_inv src k c0 out held good stream s'"
  using assms by (simp add: delivery_inv_def)

text \<open>
  The tick's snapshot, once the sink is flushed, covers the cursor it holds; persisting it
  keeps the durable cursor covered.
\<close>

lemma tick_covered_snapshot:
  assumes "maps_ok st" "mem_cursor st (src, k) = acked src acc c0" "k \<in> set ks"
  shows "tick_covered src k c0 acc outside (Some (ckpt_snapshot st, ks))"
  using assms by (auto simp: tick_covered_def ckpt_snapshot_def mem_cursor_def maps_okD intro!: exI [of _ "length acc"])

lemma tick_covered_flush:
  assumes "tick_covered src k c0 acc outside (Some (snap, k # ks))" "data_records acc \<subseteq># outside'"
  shows "tick_covered src k c0 acc outside' (Some (snap, ks))"
proof -
  obtain n where n: "n \<le> length acc" "map_of snap (src, k) = acked src (take n acc) c0" "btm_ok snap"
    using assms(1) by (auto simp: tick_covered_def)
  have "data_records acc = data_records (take n acc) + data_records (drop n acc)"
    by (metis append_take_drop_id data_records_simps(2))
  then have "data_records (take n acc) \<subseteq># data_records acc" by simp
  then show ?thesis using n subset_mset.order_trans [OF _ assms(2)] by (auto simp: tick_covered_def)
qed

lemma persist_covered:
  assumes "tick_covered src k c0 acc outside (Some (snap, []))" "maps_ok st"
    and "\<And>d. durable_cursor st (src, k) = Some d \<Longrightarrow> cursor_covered src c0 acc outside d"
    and "durable_cursor (snd (persist_snapshot ok snap st)) (src, k) = Some d"
  shows "cursor_covered src c0 acc outside d"
proof (cases "ok \<and> map_of snap (src, k) \<noteq> None")
  case True
  then obtain m where m: "map_of snap (src, k) = Some m" by auto
  obtain n where n: "n \<le> length acc" "acked src (take n acc) c0 = Some m" "data_records (take n acc) \<subseteq># outside" "btm_ok snap"
    using assms(1) m by (auto simp: tick_covered_def)
  have "d = floor_row (ck_cursors st) ((src, k), m)"
    using assms(4) True m by (simp add: durable_persist [OF assms(2)] map_of_rev_btm [OF n(4)])
  then have "d \<le> m" by (simp add: floor_row_def split: option.split)
  then show ?thesis using n unfolding cursor_covered_def by blast
next
  case False
  have "durable_cursor (snd (persist_snapshot ok snap st)) (src, k) = durable_cursor st (src, k)"
  proof (cases ok)
    case True
    have "btm_ok snap" using assms(1) by (simp add: tick_covered_def)
    then show ?thesis using False True by (simp add: durable_persist [OF assms(2)] map_of_rev_btm)
  next
    case False
    then show ?thesis by (intro fun_cong [OF durable_cong]) simp
  qed
  then show ?thesis using assms(3,4) by simp
qed

context reliable_sink
begin

abbreviation sink_promise :: "string \<Rightarrow> string \<Rightarrow> u64 option \<Rightarrow> batch list \<Rightarrow> ('a \<times> 'b, 'c) sys \<Rightarrow> bool" where
  "sink_promise src k c0 stream s \<equiv> delivery_inv src k c0 delivered pending sink_inv stream s"

lemma step_of_sink:
  assumes "sink_promise src k c0 stream s" "\<forall>b \<in> set stream. rewind_target b = None" "sy_todo s k = b # bs"
    and "sink_step (branch_write sink_write) rewind_ok k b (sy_store s) (sy_branch s k) = (go, st', v')"
  shows "sink_promise src k c0 stream
     (s \<lparr> sy_store := st', sy_branch := (sy_branch s)(k := v'), sy_todo := (sy_todo s)(k := if go then bs else []),
          sy_done := (sy_done s)(k := if go then sy_done s k @ [b] else sy_done s k) \<rparr>)"
proof -
  obtain rest where rest: "stream = sy_done s k @ rest" "rest = b # bs"
    using assms(1,3) by (auto simp: delivery_inv_def)
  then have none: "rewind_target b = None" using assms(2) by simp
  note st = sink_step_self [OF assms(4) none]
  have inv: "sink_inv (fst (sy_branch s k))" "maps_ok (sy_store s)"
    "mem_cursor (sy_store s) (src, k) = acked src (sy_done s k) c0"
    "data_records (sy_done s k) \<subseteq># total (sy_branch s k)"
    "tick_covered src k c0 (sy_done s k) (delivered (snd (sy_branch s k))) (sy_tick s)"
    and dur: "\<And>d. durable_cursor (sy_store s) (src, k) = Some d \<Longrightarrow>
      cursor_covered src c0 (sy_done s k) (delivered (snd (sy_branch s k))) d"
    using assms(1) by (simp_all add: delivery_inv_def)
  have g: "sink_inv (fst v')" "total (sy_branch s k) \<subseteq># total v'"
    "delivered (snd (sy_branch s k)) \<subseteq># delivered (snd v')"
    "go \<Longrightarrow> total (sy_branch s k) + data_records [b] \<subseteq># total v'"
    using write_loop_grows [OF inv(1) none conjunct1 [OF st]] by blast+
  have d: "durable_cursor st' = durable_cursor (sy_store s)" using st by simp
  let ?acc = "if go then sy_done s k @ [b] else sy_done s k"
  have acc: "?acc = sy_done s k @ (if go then [b] else [])" by simp
  have "data_records ?acc \<subseteq># total v'"
    using g(2,4) subset_mset.order_trans [OF inv(4)] subset_mset.order_trans [OF subset_mset.add_right_mono [OF inv(4)]]
    by simp
  moreover have "mem_cursor st' (src, k) = acked src ?acc c0 \<and> maps_ok st'"
    using st inv(2,3) by (auto simp: mem_cursor_ack)
  moreover have "tick_covered src k c0 ?acc (delivered (snd v')) (sy_tick s)"
    using covered_mono(2) [OF g(3) inv(5)] by (metis acc)
  moreover have "cursor_covered src c0 ?acc (delivered (snd v')) e" if "durable_cursor st' (src, k) = Some e" for e
    using covered_mono(1) [OF g(3) dur] that d by (metis acc)
  ultimately show ?thesis using g(1) rest by (simp add: delivery_inv_def)
qed

lemma flush_of_sink:
  assumes "sink_promise src k c0 stream s" "sy_tick s = Some (snap, k # ks)"
    and "branch_flush sink_flush (sy_branch s k) = (r, v')"
  shows "sink_promise src k c0 stream
     (s \<lparr> sy_branch := (sy_branch s)(k := v'), sy_tick := (if flush_ok r then Some (snap, ks) else None) \<rparr>)"
proof -
  have inv: "sink_inv (fst (sy_branch s k))" "data_records (sy_done s k) \<subseteq># total (sy_branch s k)"
    "tick_covered src k c0 (sy_done s k) (delivered (snd (sy_branch s k))) (Some (snap, k # ks))"
    and dur: "\<And>d. durable_cursor (sy_store s) (src, k) = Some d \<Longrightarrow>
      cursor_covered src c0 (sy_done s k) (delivered (snd (sy_branch s k))) d"
    using assms(1,2) by (simp_all add: delivery_inv_def)
  have g: "sink_inv (fst v')" "total (sy_branch s k) \<subseteq># total v'"
    "delivered (snd (sy_branch s k)) \<subseteq># delivered (snd v')"
    "flush_ok r \<Longrightarrow> total (sy_branch s k) \<subseteq># delivered (snd v')"
    using branch_flush_grows [OF inv(1) assms(3)] by blast+
  have "tick_covered src k c0 (sy_done s k) (delivered (snd v')) (if flush_ok r then Some (snap, ks) else None)"
  proof (cases "flush_ok r")
    case True
    then show ?thesis
      using tick_covered_flush [OF inv(3) subset_mset.order_trans [OF inv(2) g(4) [OF True]]] by simp
  qed (simp add: tick_covered_def)
  moreover have "cursor_covered src c0 (sy_done s k) (delivered (snd v')) d"
    if "durable_cursor (sy_store s) (src, k) = Some d" for d
    using covered_mono(1) [OF g(3) dur [OF that], of "[]"] by simp
  ultimately show ?thesis
    using assms(1) g(1) subset_mset.order_trans [OF inv(2) g(2)] by (simp add: delivery_inv_def)
qed

text \<open>A step of another sink.\<close>

lemma step_of_other:
  assumes "sink_promise src k c0 stream s" "j \<noteq> k" "sink_step wr rewind_ok j b (sy_store s) (sy_branch s j) = (go, st', v')"
  shows "sink_promise src k c0 stream
     (s \<lparr> sy_store := st', sy_branch := (sy_branch s)(j := v'), sy_todo := (sy_todo s)(j := todo) \<rparr>)"
    "sink_promise src k c0 stream
     (s \<lparr> sy_store := st', sy_branch := (sy_branch s)(j := v'), sy_todo := (sy_todo s)(j := todo),
          sy_done := (sy_done s)(j := acc) \<rparr>)"
  using sink_step_other [OF assms(3) _ assms(2)] assms(1,2)
  by (auto intro: delivery_inv_cong [OF assms(1)] simp: delivery_inv_def)

lemma flush_of_other:
  assumes "sink_promise src k c0 stream s" "sy_tick s = Some (snap, j # ks)" "j \<noteq> k"
  shows "sink_promise src k c0 stream
     (s \<lparr> sy_branch := (sy_branch s)(j := v'), sy_tick := (if flush_ok r then Some (snap, ks) else None) \<rparr>)"
proof -
  have "tick_covered src k c0 acc outside (Some (snap, j # ks)) \<Longrightarrow>
      tick_covered src k c0 acc outside (if flush_ok r then Some (snap, ks) else None)" for acc outside
    using assms(3) by (auto simp: tick_covered_def)
  then show ?thesis using assms by (simp add: delivery_inv_def)
qed

lemma persist_step:
  assumes "sink_promise src k c0 stream s" "sy_tick s = Some (snap, [])"
  shows "sink_promise src k c0 stream (s \<lparr> sy_store := snd (persist_snapshot txn_ok snap (sy_store s)), sy_tick := None \<rparr>)"
proof -
  have i: "maps_ok (sy_store s)"
    "tick_covered src k c0 (sy_done s k) (delivered (snd (sy_branch s k))) (Some (snap, []))"
    "\<And>d. durable_cursor (sy_store s) (src, k) = Some d \<Longrightarrow>
      cursor_covered src c0 (sy_done s k) (delivered (snd (sy_branch s k))) d"
    using assms by (simp_all add: delivery_inv_def)
  show ?thesis using assms(1) persist_covered [OF i(2,1,3)] by (simp add: delivery_inv_def tick_covered_def)
qed

lemma sys_step_ok:
  assumes "sys_step wr fl rewind_ok sinks s s'" "sink_promise src k c0 stream s"
    and "wr k = branch_write sink_write" "fl k = branch_flush sink_flush" "k \<in> set sinks"
    and "\<forall>b \<in> set stream. rewind_target b = None"
  shows "sink_promise src k c0 stream s'"
  using assms(1)
proof cases
  case (delivers j b bs st' v')
  then show ?thesis
    using step_of_sink [OF assms(2,6), of b bs rewind_ok True st' v'] step_of_other(2) [OF assms(2) _ delivers(3)] assms(3)
    by (cases "j = k") simp_all
next
  case (pauses j b bs st' v')
  then show ?thesis
    using step_of_sink [OF assms(2,6), of b bs rewind_ok False st' v'] step_of_other(1) [OF assms(2) _ pauses(3)] assms(3)
    by (cases "j = k"; cases s) simp_all
next
  case tick
  have "maps_ok (sy_store s)" "mem_cursor (sy_store s) (src, k) = acked src (sy_done s k) c0"
    using assms(2) by (simp_all add: delivery_inv_def)
  from tick_covered_snapshot [OF this assms(5)] show ?thesis
    using assms(2) unfolding tick(1) by (simp add: delivery_inv_def)
next
  case (flushes snap j ks r v')
  then show ?thesis
    using flush_of_sink [OF assms(2), of snap ks r v'] flush_of_other [OF assms(2) flushes(2)] assms(4)
    by (cases "j = k") simp_all
next
  case (persists snap txn_ok)
  then show ?thesis using persist_step [OF assms(2)] by simp
next
  case aborts
  then show ?thesis using assms(2) by (simp add: delivery_inv_def tick_covered_def)
next
  case (saves m key val)
  show ?thesis unfolding saves
    by (rule delivery_inv_cong [OF assms(2)]) (use assms(2) in \<open>simp_all add: delivery_inv_def maps_ok_set\<close>)
next
  case (reads sql_ok m key)
  show ?thesis unfolding reads
    by (rule delivery_inv_cong [OF assms(2)]) (use assms(2) in \<open>simp_all add: delivery_inv_def\<close>)
qed

lemma sys_steps_ok:
  assumes "sys_steps wr fl rewind_ok sinks s s'" "sink_promise src k c0 stream s"
    and "wr k = branch_write sink_write" "fl k = branch_flush sink_flush" "k \<in> set sinks"
    and "\<forall>b \<in> set stream. rewind_target b = None"
  shows "sink_promise src k c0 stream s'"
  using assms(1) by induction (use assms(2) sys_step_ok [where wr = wr and fl = fl and k = k, OF _ _ assms(3-6)] in blast)+

end

section \<open>At least once\<close>

text \<open>
  One path from the source: once a batch is acknowledged, every later data batch of its source
  ends above it.  (Batches of one range come in chunks; only the last one acknowledges the
  end of the range.)
\<close>

definition single_path :: "batch list \<Rightarrow> bool" where
  "single_path bs =
     sorted_wrt (\<lambda>a b. b_source a = b_source b \<and> \<not> is_control b \<longrightarrow> ack_block a < range_to (b_block_range b)) bs"

text \<open>The batches of a source that end above \<open>c0\<close> and at or below \<open>d\<close>.\<close>

definition between :: "string \<Rightarrow> u64 option \<Rightarrow> u64 \<Rightarrow> batch \<Rightarrow> bool" where
  "between src c0 d b =
     (b_source b = src \<and> unwrap_or 0 c0 < range_to (b_block_range b) \<and> range_to (b_block_range b) \<le> d)"

lemma covered_delivered:
  assumes "single_path (acc @ rest)" "cursor_covered src c0 acc outside d"
  shows "data_records (filter (between src c0 d) (acc @ rest)) \<subseteq># outside"
proof -
  obtain n m where n: "n \<le> length acc" "acked src (take n acc) c0 = Some m" "d \<le> m"
    "data_records (take n acc) \<subseteq># outside" using assms(2) unfolding cursor_covered_def by blast
  have "is_control ((acc @ rest) ! i)"
    if i: "i < length (acc @ rest)" "n \<le> i" "between src c0 d ((acc @ rest) ! i)" for i
  proof (rule ccontr)
    assume data: "\<not> is_control ((acc @ rest) ! i)"
    let ?b = "(acc @ rest) ! i"
    have b: "b_source ?b = src" "unwrap_or 0 c0 < range_to (b_block_range ?b)" "range_to (b_block_range ?b) \<le> m"
      using i(3) n(3) by (auto simp: between_def)
    have "\<exists>j < n. j < length acc \<and> b_source (acc ! j) = src \<and> m = ack_block (acc ! j)"
      if "b' \<in> set (take n acc)" "b_source b' = src" "m = ack_block b'" for b'
      using that by (auto simp: in_set_conv_nth)
    then obtain j where j: "j < n" "j < length acc" "b_source (acc ! j) = src" "m = ack_block (acc ! j)"
      using acked_bound [OF n(2)] b by (cases c0) (auto simp: unwrap_or_def)
    have "(acc @ rest) ! j = acc ! j" using j(2) by (simp add: nth_append)
    moreover have "j < i" using j(1) i(2) by simp
    ultimately have "ack_block (acc ! j) < range_to (b_block_range ?b)"
      using sorted_wrt_nth_less [OF assms(1) [unfolded single_path_def] _ i(1), of j] j(3) data b(1) by simp
    then show False using b(3) j(4) by simp
  qed
  then have "data_records (filter (between src c0 d) (acc @ rest)) \<subseteq># data_records (take n (acc @ rest))"
    by (rule data_records_filter_take)
  then show ?thesis using n by (auto intro: subset_mset.order_trans)
qed

text \<open>A run starts from the database of the previous one, with nothing done yet.\<close>

definition fresh_run :: "'b ckpt_db \<Rightarrow> ('v, 'b) sys \<Rightarrow> bool" where
  "fresh_run db s =
     (btm_ok (db_cursors db) \<and> btm_ok (db_kv db) \<and> sy_store s = ckpt_open (Some db)
      \<and> (\<forall>k. sy_done s k = []) \<and> sy_tick s = None)"

lemma run_covered:
  assumes "fresh_run db s0" "sys_steps wr fl rewind_ok sinks s0 s" "k \<in> set sinks"
    and "reliable_sink W F out held good" "wr k = branch_write W" "fl k = branch_flush F"
    and "good (fst (sy_branch s0 k))" "\<forall>b \<in> set (sy_todo s0 k). rewind_target b = None"
    and "durable_cursor (sy_store s) (src, k) = Some d"
  shows "\<exists>rest. sy_todo s0 k = sy_done s k @ rest
     \<and> cursor_covered src (mem_cursor (sy_store s0) (src, k)) (sy_done s k) (out (snd (sy_branch s k))) d"
proof -
  let ?c0 = "mem_cursor (sy_store s0) (src, k)"
  have s0: "sy_store s0 = ckpt_open (Some db)" "maps_ok (sy_store s0)" "sy_done s0 k = []" "sy_tick s0 = None"
    and db: "btm_ok (db_cursors db)" using assms(1) by (simp_all add: fresh_run_def)
  have "durable_cursor (sy_store s0) (src, k) = ?c0"
    by (simp add: s0(1) mem_cursor_open [OF db] durable_cursor_def)
  then have "delivery_inv src k ?c0 out held good (sy_todo s0 k) s0"
    using s0(2-4) assms(7) by (auto simp: delivery_inv_def tick_covered_def cursor_covered_def)
  from reliable_sink.sys_steps_ok [OF assms(4,2) this assms(5,6,3,8)]
  show ?thesis using assms(9) by (auto simp: delivery_inv_def)
qed


definition demo_sys :: "batch list \<Rightarrow> (s3_sink \<times> recorder, string) sys" where
  "demo_sys bs =
     \<lparr> sy_store = ckpt_open (Some empty_db), sy_branch = (\<lambda>_. (demo_s3, \<lparr> rc_log = [], rc_tries = 0 \<rparr>)),
       sy_todo = (\<lambda>_. bs), sy_done = (\<lambda>_. []), sy_tick = None \<rparr>"

abbreviation lake_steps :: "(s3_sink \<times> recorder, string) sys \<Rightarrow> (s3_sink \<times> recorder, string) sys \<Rightarrow> bool" where
  "lake_steps \<equiv> sys_steps (\<lambda>k. branch_write s3_glue) (\<lambda>k. branch_flush (s3_flush encode_all always_up))
     (\<lambda>_. True) [''lake'']"

lemma lake_step:
  assumes d: "\<not> is_control b" and i: "s3_inv (fst v0)"
  shows "\<exists>v. sink_step (branch_write s3_glue) (\<lambda>_. True) k b st v0
       = (True, ckpt_ack (b_source b) k (ack_block b) st, v)
     \<and> s3_inv (fst v) \<and> recorded (snd v) + s3_pending (fst v)
       = recorded (snd v0) + s3_pending (fst v0) + mset (b_records b)"
proof -
  obtain r p' w' where w: "s3_glue (fst v0) b (snd v0) = (r, p', w')"
    by (cases "s3_glue (fst v0) b (snd v0)") auto
  have r: "r = Inr ()" using w s3_put_up by (metis d fst_conv glue_data s3_write_def take_ready_def)
  have "rewind_target b = None" using d by (simp add: rewind_target_def as_control_def)
  then have "sink_step (branch_write s3_glue) (\<lambda>_. True) k b st v0
      = (True, ckpt_ack (b_source b) k (ack_block b) st, (p', w'))"
    using w r by (simp add: sink_step_def write_loop.simps [of _ 0] branch_write_def)
  moreover have "recorded w' + s3_pending p' = recorded (snd v0) + s3_pending (fst v0) + mset (b_records b)"
    using lake.write_keeps [OF i d] w r by simp
  moreover have "s3_inv p'" using lake.write_inv [OF i w] .
  ultimately show ?thesis by (intro exI [of _ "(p', w')"]) simp
qed

text \<open>One delivery, then one tick: the first batch is outside and its block is durable.\<close>

lemma lake_run:
  assumes "\<not> is_control b"
  shows "\<exists>s. lake_steps (demo_sys (b # bs)) s \<and> durable_cursor (sy_store s) (b_source b, ''lake'') = Some (ack_block b)
     \<and> recorded (snd (sy_branch s ''lake'')) = mset (b_records b)"
proof -
  let ?step = "sys_step (\<lambda>k. branch_write s3_glue) (\<lambda>k. branch_flush (s3_flush encode_all always_up)) (\<lambda>_. True) [''lake'']"
  let ?s = "demo_sys (b # bs)"
  let ?st = "ckpt_ack (b_source b) ''lake'' (ack_block b) (sy_store ?s)"
  have todo: "sy_todo ?s ''lake'' = b # bs" and i: "s3_inv (fst (sy_branch ?s ''lake''))"
    and z: "recorded (snd (sy_branch ?s ''lake'')) + s3_pending (fst (sy_branch ?s ''lake'')) = {#}"
    by (simp_all add: demo_sys_def demo_s3_def s3_inv_def btm_ok_def recorded_def s3_pending_def)
  obtain v where v: "sink_step (branch_write s3_glue) (\<lambda>_. True) ''lake'' b (sy_store ?s)
      (sy_branch ?s ''lake'') = (True, ?st, v)" "s3_inv (fst v)"
    "recorded (snd v) + s3_pending (fst v) = mset (b_records b)"
    using lake_step [OF assms i] z by (metis add.left_neutral)
  define s1 where "s1 = ?s \<lparr> sy_store := ?st, sy_branch := (sy_branch ?s)(''lake'' := v),
      sy_todo := (sy_todo ?s)(''lake'' := bs), sy_done := (sy_done ?s)(''lake'' := sy_done ?s ''lake'' @ [b]) \<rparr>"
  define s2 where "s2 = s1 \<lparr> sy_tick := Some (ckpt_snapshot (sy_store s1), [''lake'']) \<rparr>"
  obtain r p' w' where q: "s3_flush encode_all always_up (fst v) (snd v) = (r, p', w')"
    by (cases "s3_flush encode_all always_up (fst v) (snd v)") auto
  have r: "r = Inr ()" using q s3_put_up by (metis fst_conv s3_flush_def take_all_def)
  have f: "branch_flush (s3_flush encode_all always_up) (sy_branch s2 ''lake'') = (Joined (Inr ()), (p', w'))"
    using q r by (simp add: s2_def s1_def branch_flush_def)
  have out: "recorded w' = mset (b_records b)" using lake.flush_keeps [OF v(2)] q r v(3) by simp
  define s3 where "s3 = s2 \<lparr> sy_branch := (sy_branch s2)(''lake'' := (p', w')), sy_tick := Some (ckpt_snapshot (sy_store s1), []) \<rparr>"
  define s4 where "s4 = s3 \<lparr> sy_store := snd (persist_snapshot True (ckpt_snapshot (sy_store s1)) (sy_store s3)), sy_tick := None \<rparr>"
  have "?step ?s s1" unfolding s1_def by (rule sys_step.delivers [OF todo]) (use v in simp)
  moreover have "?step s1 s2" unfolding s2_def by (rule sys_step.tick) (simp add: s1_def demo_sys_def)
  moreover have "?step s2 s3"
    using sys_step.flushes [where fl = "\<lambda>k. branch_flush (s3_flush encode_all always_up)" and s = s2
        and k = "''lake''" and ks = "[]" and snap = "ckpt_snapshot (sy_store s1)", OF _ f]
    by (simp add: s2_def s3_def)
  moreover have "?step s3 s4" unfolding s4_def by (rule sys_step.persists) (simp add: s3_def)
  moreover have "maps_ok ?st"
    by (simp add: demo_sys_def maps_ok_def ckpt_open_def empty_db_def ckpt_ack_def btm_ok_def Let_def)
  then have "durable_cursor (sy_store s4) (b_source b, ''lake'') = Some (ack_block b)"
    by (simp add: s4_def s3_def s2_def s1_def durable_persist ckpt_snapshot_def)
      (simp add: demo_sys_def ckpt_open_def empty_db_def ckpt_ack_def btm_of_list_def unwrap_or_def floor_row_def
        Let_def word_le_nat_alt word_less_nat_alt unat_eq_zero)
  moreover have "recorded (snd (sy_branch s4 ''lake'')) = mset (b_records b)"
    using out by (simp add: s4_def s3_def)
  ultimately show ?thesis by (meson converse_rtranclp_into_rtranclp rtranclp.rtrancl_refl)
qed

lemma demo_sys_ok:
  "fresh_run empty_db (demo_sys bs)" "s3_inv (fst (sy_branch (demo_sys bs) k))" "sy_todo (demo_sys bs) k = bs"
  "mem_cursor (sy_store (demo_sys bs)) j = None"
  by (simp_all add: fresh_run_def demo_sys_def empty_db_def btm_ok_def demo_s3_def s3_inv_def ckpt_open_def
      mem_cursor_def btm_of_list_def Let_def unwrap_or_def)


end
