(* ===== verification/StreamProps.thy ===== *)
theory StreamProps
  imports SourceProps System
begin

text \<open>
  From the chain to the sinks: the stream a source emits satisfies what at-least-once delivery
  assumes of it, and the two together say which logs of the chain have arrived.
\<close>

section \<open>The stream of an honest source\<close>

text \<open>The rows of the data batches that end at or below \<open>m\<close>.\<close>

definition rows_below :: "u64 \<Rightarrow> batch list \<Rightarrow> json list" where
  "rows_below m bs =
     concat (map b_records (filter (\<lambda>b. \<not> is_control b \<and> range_to (b_block_range b) \<le> m) bs))"

lemma rows_below_append [simp]: "rows_below m (as @ bs) = rows_below m as @ rows_below m bs"
  by (simp add: rows_below_def)

lemma rows_below_eof [simp]: "rows_below m [eof_batch s at] = []"
  by (simp add: rows_below_def eof_batch_def)

lemma emit_batch_fields:
  assumes "b \<in> set (emit_batches s c e recs)"
  shows "b_source b = s_name s \<and> \<not> is_control b \<and> b_block_range b = BlockRange c e
     \<and> (ack_block b = c \<or> ack_block b = e)"
  using assms emit_batches_not_control [OF assms] by (auto simp: in_set_conv_nth nth_emit_batches)

lemma rows_below_emit:
  assumes "0 < s_max_records s"
  shows "rows_below m (emit_batches s c e recs) = (if e \<le> m then recs else [])"
proof -
  let ?bs = "emit_batches s c e recs"
  have "filter (\<lambda>b. \<not> is_control b \<and> range_to (b_block_range b) \<le> m) ?bs = (if e \<le> m then ?bs else [])"
    using emit_batch_fields by (auto simp: filter_id_conv filter_empty_conv)
  then show ?thesis using assms by (simp add: rows_below_def emit_batches_records)
qed

lemma single_path_emit: "c < e \<Longrightarrow> single_path (emit_batches s c e recs)"
  by (simp add: single_path_def sorted_wrt_iff_nth_less nth_emit_batches)

lemma single_path_append:
  "single_path (as @ bs) \<longleftrightarrow> single_path as \<and> single_path bs
     \<and> (\<forall>a \<in> set as. \<forall>b \<in> set bs. b_source a = b_source b \<and> \<not> is_control b \<longrightarrow>
          ack_block a < range_to (b_block_range b))"
  by (simp add: single_path_def sorted_wrt_append)

definition batch_below :: "hs_source \<Rightarrow> u64 \<Rightarrow> u64 \<Rightarrow> batch \<Rightarrow> bool" where
  "batch_below s c0 c b =
     (b_source b = s_name s \<and> rewind_target b = None \<and> ack_block b \<le> c
      \<and> (\<not> is_control b \<longrightarrow> c0 < range_to (b_block_range b) \<and> range_to (b_block_range b) \<le> c))"

definition stream_inv :: "hs_source \<Rightarrow> json list \<Rightarrow> u64 \<Rightarrow> u64 \<Rightarrow> batch list \<Rightarrow> bool" where
  "stream_inv s logs c0 c sent =
     (single_path sent \<and> (\<forall>b \<in> set sent. batch_below s c0 c b)
      \<and> (\<forall>m \<in> insert c0 (insert c (ack_block ` set sent)).
           c0 \<le> m \<and> m \<le> c \<and> rows_below m sent = filter (in_range c0 m) logs))"

lemma batch_below_mono: "batch_below s c0 c b \<Longrightarrow> c \<le> e \<Longrightarrow> batch_below s c0 e b"
  by (auto simp: batch_below_def)

lemma rewind_none: "\<not> is_control b \<Longrightarrow> rewind_target b = None"
  by (simp add: rewind_target_def as_control_def)

lemma stream_inv_emit:
  assumes inv: "stream_inv s logs c0 c sent" and logs: "logs_ok logs" and pos: "0 < s_max_records s" and e: "c < e"
  shows "stream_inv s logs c0 e (sent @ emit_batches s c e (filter (in_range c e) logs))"
proof -
  let ?bs = "emit_batches s c e (filter (in_range c e) logs)"
  have old: "batch_below s c0 c b" if "b \<in> set sent" for b using inv that by (simp add: stream_inv_def)
  have c0: "c0 \<le> c" using inv by (simp add: stream_inv_def)
  have new: "b_source b = s_name s \<and> \<not> is_control b \<and> b_block_range b = BlockRange c e
      \<and> (ack_block b = c \<or> ack_block b = e)" if "b \<in> set ?bs" for b
    by (rule emit_batch_fields [OF that])
  have "single_path (sent @ ?bs)"
    using inv single_path_emit [OF e] old new e unfolding single_path_append stream_inv_def batch_below_def
    by (auto intro: le_less_trans)
  moreover have "batch_below s c0 e b" if "b \<in> set (sent @ ?bs)" for b
  proof (cases "b \<in> set sent")
    case True
    then show ?thesis using batch_below_mono [OF old] e by simp
  next
    case False
    then have "b \<in> set ?bs" using that by simp
    from new [OF this] show ?thesis using e c0 by (auto simp: batch_below_def rewind_none)
  qed
  moreover have "c0 \<le> m \<and> m \<le> e \<and> rows_below m (sent @ ?bs) = filter (in_range c0 m) logs"
    if "m \<in> insert c0 (insert e (ack_block ` set (sent @ ?bs)))" for m
  proof (cases "m = e")
    case True
    have "rows_below e sent = rows_below c sent"
      unfolding rows_below_def
      by (intro arg_cong [where f = concat] arg_cong [where f = "map b_records"] filter_cong refl)
        (use old batch_below_mono [OF old less_imp_le [OF e]] in \<open>auto simp: batch_below_def\<close>)
    moreover have "rows_below c sent = filter (in_range c0 c) logs" "c0 \<le> c" using inv by (simp_all add: stream_inv_def)
    ultimately show ?thesis using True e filter_ranges [OF logs, of c0 c e] by (simp add: rows_below_emit [OF pos])
  next
    case False
    then have "m \<in> insert c0 (insert c (ack_block ` set sent))" using that new by auto
    then have m: "c0 \<le> m" "m \<le> c" "rows_below m sent = filter (in_range c0 m) logs"
      using inv by (auto simp: stream_inv_def)
    have "m < e" using m(2) e by (rule le_less_trans)
    then have "\<not> e \<le> m" "m \<le> e" by simp_all
    then show ?thesis using m by (simp add: rows_below_emit [OF pos])
  qed
  ultimately show ?thesis by (simp add: stream_inv_def)
qed

lemma stream_inv_eof:
  assumes "stream_inv s logs c0 c sent"
  shows "stream_inv s logs c0 c (sent @ [eof_batch s c])"
proof -
  have "batch_below s c0 c (eof_batch s c)" "is_control (eof_batch s c)" "ack_block (eof_batch s c) = c"
    by (simp_all add: batch_below_def eof_batch_def rewind_target_def)
  then show ?thesis using assms by (auto simp: stream_inv_def single_path_append) (simp add: single_path_def)
qed

abbreviation stream_of :: "hs_source \<Rightarrow> json list \<Rightarrow> u64 \<Rightarrow> ('s, 'w) loop_state \<Rightarrow> bool" where
  "stream_of s logs c0 st \<equiv> stream_inv s logs c0 (l_cursor st) (ch_sent (l_chan st))"

lemma source_iter_stream:
  assumes src: "source_inv s hash logs c0 st" and inv: "stream_of s logs c0 st"
    and logs: "logs_ok logs" and pos: "0 < s_max_records s"
    and srv: "honest_server (e_http env) s hash logs"
  shows "stream_of s logs c0 (flow_state (source_iter env s st))"
proof -
  obtain r w where q: "client_query (e_http env) (s_client s) (l_cursor st) (s_to_block s)
      (l_world st) = (r, w)" by fastforce
  have open_ch: "ch_closes (l_chan st) = None" using src by (simp add: source_inv_def)
  show ?thesis
  proof (cases r)
    case (Inl e)
    then show ?thesis using inv by (simp add: source_iter_def q)
  next
    case (Inr resp)
    let ?st = "st \<lparr> l_world := w, l_backoff := 250 \<rparr>"
    have hon: "honest hash logs (l_cursor st) resp"
      using srv q Inr unfolding honest_server_def by (metis fst_conv sum.simps(6))
    have nc: "\<not> has_conflict (l_tracker st) resp"
      using honest_no_conflict [OF hon] src by (simp add: source_inv_def)
    have "stream_of s logs c0 (flow_state (response_step env s resp ?st))"
    proof (cases "plan_step (s_mode s) (l_cursor st) (s_to_block s) (s_confirmations s)
        (r_next_block resp) (r_archive_height resp)")
      case (Emit e)
      then have e: "l_cursor st < e" "e \<le> r_next_block resp" by (auto dest: plan_step_Emit)
      have se: "stream_inv s logs c0 e (ch_sent (l_chan st) @
          emit_batches s (l_cursor st) e (confirmed_records resp e))"
        unfolding confirmed_records_honest [OF hon e] by (rule stream_inv_emit [OF inv logs pos e(1)])
      show ?thesis using nc Emit open_ch se stream_inv_eof [OF se, unfolded append_assoc]
        by (auto simp: response_step_def emit_step_def Let_def send_all_open remember_def emit_eof_open split: option.split)
    next
      case Wait
      then show ?thesis using inv nc by (simp add: response_step_def)
    next
      case StepEof
      then show ?thesis using stream_inv_eof [OF inv] nc open_ch
        by (simp add: response_step_def emit_eof_open)
    qed
    then show ?thesis using inv by (simp add: source_iter_def q Inr)
  qed
qed

lemma source_loop_stream:
  "source_inv s hash logs c0 st \<Longrightarrow> stream_of s logs c0 st \<Longrightarrow> logs_ok logs \<Longrightarrow> 0 < s_max_records s
   \<Longrightarrow> honest_server (e_http env) s hash logs
   \<Longrightarrow> stream_of s logs c0 (flow_state (source_loop n env s st))"
proof (induction n env s st rule: source_loop.induct)
  case (2 n env s st)
  note step = source_iter_inv [OF 2(2,4,5,6)] source_iter_stream [OF 2(2-6)]
  show ?case
  proof (cases "source_iter env s st")
    case (Continue st')
    then show ?thesis using 2(1) [OF Continue] 2(4-6) step by simp
  next
    case (Return st')
    then show ?thesis using step by simp
  qed
qed simp

lemma source_run_stream:
  assumes "honest_server (e_http env) s hash logs" "logs_ok logs" "0 < s_max_records s"
    and "tracks hash (l_cursor (source_start env s c no_rows kv w)) (l_tracker (source_start env s c no_rows kv w))"
  shows "stream_of s logs (l_cursor (source_start env s c no_rows kv w)) (flow_state (source_run n env s c no_rows kv w))"
proof -
  have "filter (in_range a a) logs = []" for a
    by (auto simp: filter_empty_conv in_range_def split: option.splits)
  then have "stream_of s logs (l_cursor (source_start env s c no_rows kv w)) (source_start env s c no_rows kv w)"
    by (simp add: stream_inv_def no_rows_def single_path_def rows_below_def)
  from source_loop_stream [OF source_start_inv [OF no_rows_def assms(4)] this assms(2,3,1)]
  show ?thesis by (simp add: source_run_def)
qed

section \<open>From the chain to the outside\<close>

lemma rows_between:
  assumes "stream_inv s logs c0 c sent" "unwrap_or 0 c1 \<le> c0"
  shows "data_records (filter (between (s_name s) c1 m) sent) = mset (rows_below m sent)"
proof -
  have "\<not> is_control b \<and> between (s_name s) c1 m b \<longleftrightarrow> \<not> is_control b \<and> range_to (b_block_range b) \<le> m"
    if "b \<in> set sent" for b
    using that assms by (auto simp: stream_inv_def batch_below_def between_def intro: le_less_trans)
  then have "filter (\<lambda>b. \<not> is_control b) (filter (between (s_name s) c1 m) sent)
      = filter (\<lambda>b. \<not> is_control b \<and> range_to (b_block_range b) \<le> m) sent"
    by (auto intro: filter_cong simp: conj_commute)
  then show ?thesis by (simp add: data_records_def rows_below_def)
qed

lemma in_range_mono: "d \<le> m \<Longrightarrow> mset (filter (in_range a d) logs) \<subseteq># mset (filter (in_range a m) logs)"
proof -
  assume "d \<le> m"
  then have "filter (in_range a d) logs = filter (in_range a d) (filter (in_range a m) logs)"
    by (auto simp: in_range_def intro!: filter_cong split: option.splits)
  then show ?thesis by (metis mset_filter multiset_filter_subset)
qed

lemma covered_logs:
  assumes "stream_inv s logs c0 c (acc @ rest)" "cursor_covered (s_name s) c1 acc outside d" "unwrap_or 0 c1 \<le> c0"
  shows "mset (filter (in_range c0 d) logs) \<subseteq># outside"
proof -
  obtain n m where n: "n \<le> length acc" "acked (s_name s) (take n acc) c1 = Some m" "d \<le> m"
    "data_records (take n acc) \<subseteq># outside" using assms(2) unfolding cursor_covered_def by blast
  show ?thesis
  proof (cases "m \<le> c0")
    case True
    then have "filter (in_range c0 d) logs = []"
      using n(3) by (auto simp: filter_empty_conv in_range_def split: option.splits)
    then show ?thesis by simp
  next
    case False
    have "m \<in> ack_block ` set (acc @ rest)"
      using acked_bound [OF n(2)] False assms(3) by (auto dest: in_set_takeD simp: unwrap_or_def)
    then have m: "rows_below m (acc @ rest) = filter (in_range c0 m) logs" "single_path (acc @ rest)"
      using assms(1) by (auto simp: stream_inv_def)
    have "cursor_covered (s_name s) c1 acc outside m" using n unfolding cursor_covered_def by blast
    from covered_delivered [OF m(2) this] have "mset (filter (in_range c0 m) logs) \<subseteq># outside"
      unfolding rows_between [OF assms(1,3)] m(1) .
    then show ?thesis by (rule subset_mset.order_trans [OF in_range_mono [OF n(3)]])
  qed
qed


lemma demo_stream:
  "ch_sent (l_chan (flow_state (source_run 1 demo_env (demo_source Live) 0 no_rows None 0)))
     = emit_batches (demo_source Live) 0 1 demo_logs"
proof -
  have nc: "\<not> has_conflict (Some (tracker_new 64)) demo_resp"
    using honest_no_conflict [OF demo_honest [of _ 0] demo_tracks] by simp
  have p: "plan_step Live 0 (Some 1) 10 5 None = Emit 1"
    by (simp add: plan_step_def min_opt_def confirmed_bound_def min_def word_less_nat_alt word_le_nat_alt)
  have r: "confirmed_records demo_resp 1 = demo_logs"
    by (simp add: confirmed_records_def demo_resp_def demo_logs_def block_number_of_def)
  have d: "r_next_block demo_resp = 5" "r_archive_height demo_resp = None" by (simp_all add: demo_resp_def)
  have open_channel: "ch_closes no_rows = None" "ch_sent no_rows = []" by (simp_all add: no_rows_def)
  show ?thesis
    by (simp add: source_run_def demo_start source_iter_def demo_query response_step_def nc p r d
        emit_step_def Let_def send_all_open open_channel remember_def)
qed


end
