(* ===== verification/AbiDecoder.thy ===== *)
theory AbiDecoder
  imports Sdk
begin

text \<open>
  The ABI decoder: \<open>modules/evm-abi-decoder/src/decode.rs\<close> and \<open>lib.rs\<close>.  The alloy crates
  (parsing an ABI and a 32-byte word, decoding the topics and the data of a log, hexadecimal
  and checksum rendering) are not part of the repository; they are the fields of the
  parameter \<open>alloy\<close>.  Byte strings are lists of characters.
\<close>

section \<open>The library\<close>

datatype dyn_val =
    DBool bool
  | DInt int
  | DUint nat
  | DAddress string
  | DFixedBytes string
  | DBytes string
  | DString string
  | DArray "dyn_val list"
  | DFixedArray "dyn_val list"
  | DTuple "dyn_val list"
  | DFunction string

record event_input =
  in_name :: string
  in_indexed :: bool

record abi_event =
  ev_name :: string
  ev_inputs :: "event_input list"
  ev_selector :: string
  ev_signature :: string

record alloy =
  parse_b256 :: "string \<Rightarrow> string res"
  parse_abi :: "json \<Rightarrow> abi_event list res"
  decode_log_parts :: "abi_event \<Rightarrow> string list \<Rightarrow> string \<Rightarrow> (dyn_val list \<times> dyn_val list) res"
  hex_decode :: "string \<Rightarrow> string res"
  hex_encode :: "string \<Rightarrow> string"
  to_checksum :: "string \<Rightarrow> string"
  show_function :: "string \<Rightarrow> string"

section \<open>Configuration\<close>

datatype on_undecodable = Drop | Passthrough | Error

definition on_undecodable_parse :: "string \<Rightarrow> on_undecodable res" where
  "on_undecodable_parse s =
     (if s = ''drop'' then Inr Drop else if s = ''passthrough'' then Inr Passthrough
      else if s = ''error'' then Inr Error
      else Inl (''on_undecodable: unknown value `'' @ s @ ''`''))"

record decoder =
  by_topic0 :: "(string \<times> abi_event) list"
  d_on_undecodable :: on_undecodable

text \<open>The list of event names to keep, if the entry has one.\<close>

definition events_filter :: "json \<Rightarrow> string list option" where
  "events_filter entry = map_option (List.map_filter as_str) (jget_array ''events'' entry)"

definition selected :: "string list option \<Rightarrow> abi_event \<Rightarrow> bool" where
  "selected f e = (case f of None \<Rightarrow> True | Some names \<Rightarrow> ev_name e \<in> set names)"

fun insert_events :: "abi_event list \<Rightarrow> (string \<times> abi_event) list \<Rightarrow> (string \<times> abi_event) list" where
  "insert_events [] tbl = tbl"
| "insert_events (e # es) tbl = insert_events es ((ev_selector e, e) # tbl)"

definition abi_entry :: "alloy \<Rightarrow> nat \<Rightarrow> json \<Rightarrow> abi_event list res" where
  "abi_entry A i entry =
     (if jget ''file'' entry \<noteq> None \<and> jget ''abi'' entry = None then
        Inl (''abis['' @ show_nat i @ '']: `file` was not substituted with `abi` contents by the engine'')
      else
        and_then (ok_or (''abis['' @ show_nat i @ '']: missing `abi` contents'') (jget ''abi'' entry)) (\<lambda>v.
          case parse_abi A v of
            Inl e \<Rightarrow> Inl (''abis['' @ show_nat i @ '']: invalid ABI json: '' @ e)
          | Inr events \<Rightarrow> Inr (filter (selected (events_filter entry)) events)))"

fun abi_entries :: "alloy \<Rightarrow> nat \<Rightarrow> json list \<Rightarrow> (string \<times> abi_event) list
    \<Rightarrow> (string \<times> abi_event) list res" where
  "abi_entries A i [] tbl = Inr tbl"
| "abi_entries A i (entry # rest) tbl =
     and_then (abi_entry A i entry) (\<lambda>es. abi_entries A (i + 1) rest (insert_events es tbl))"

definition decoder_from_config :: "alloy \<Rightarrow> json \<Rightarrow> decoder res" where
  "decoder_from_config A config =
     and_then (case jget_str ''on_undecodable'' config of
                 None \<Rightarrow> Inr Drop | Some s \<Rightarrow> on_undecodable_parse s) (\<lambda>ou.
     and_then (ok_or ''config.abis must be an array'' (jget_array ''abis'' config)) (\<lambda>abis.
     and_then (abi_entries A 0 abis []) (\<lambda>tbl.
       if tbl = [] then Inl ''no events selected across all ABIs''
       else Inr \<lparr> by_topic0 = tbl, d_on_undecodable = ou \<rparr>)))"

section \<open>Values\<close>

fun dyn_to_json :: "alloy \<Rightarrow> dyn_val \<Rightarrow> json" where
  "dyn_to_json A (DBool b) = JBool b"
| "dyn_to_json A (DInt i) = JStr (show_int i)"
| "dyn_to_json A (DUint u) = JStr (show_nat u)"
| "dyn_to_json A (DAddress a) = JStr (to_checksum A a)"
| "dyn_to_json A (DFixedBytes b) = JStr (''0x'' @ hex_encode A b)"
| "dyn_to_json A (DBytes b) = JStr (''0x'' @ hex_encode A b)"
| "dyn_to_json A (DString s) = JStr s"
| "dyn_to_json A (DArray xs) = JArr (map (dyn_to_json A) xs)"
| "dyn_to_json A (DFixedArray xs) = JArr (map (dyn_to_json A) xs)"
| "dyn_to_json A (DTuple xs) = JArr (map (dyn_to_json A) xs)"
| "dyn_to_json A (DFunction f) = JStr (show_function A f)"

definition u64_field :: "json \<Rightarrow> string \<Rightarrow> u64 option" where
  "u64_field r key = Option.bind (jget key r) flexible_u64"

section \<open>Decoding one record\<close>

definition undecodable :: "decoder \<Rightarrow> json \<Rightarrow> string \<Rightarrow> json option res" where
  "undecodable d r why =
     (case d_on_undecodable d of
        Drop \<Rightarrow> Inr None
      | Passthrough \<Rightarrow> Inr (Some r)
      | Error \<Rightarrow> Inl (''undecodable log ('' @ why @ '')''))"

fun push_topics :: "alloy \<Rightarrow> json \<Rightarrow> string list \<Rightarrow> string list \<Rightarrow> string list res" where
  "push_topics A r [] topics = Inr topics"
| "push_topics A r (k # ks) topics =
     (case jget_str k r of
        None \<Rightarrow> push_topics A r ks topics
      | Some s \<Rightarrow>
          if s = [] then push_topics A r ks topics
          else (case parse_b256 A s of
                  Inl e \<Rightarrow> Inl (''bad '' @ k @ '': '' @ e)
                | Inr t \<Rightarrow> push_topics A r ks (topics @ [t])))"

definition param_key :: "nat \<Rightarrow> event_input \<Rightarrow> string" where
  "param_key i inp = (if in_name inp = [] then ''arg'' @ show_nat i else in_name inp)"

text \<open>Two iterators, one over the indexed values and one over the body.\<close>

fun pair_params :: "alloy \<Rightarrow> nat \<Rightarrow> event_input list \<Rightarrow> dyn_val list \<Rightarrow> dyn_val list
    \<Rightarrow> (string, json) btm \<Rightarrow> (string, json) btm" where
  "pair_params A i [] indexed body params = params"
| "pair_params A i (inp # rest) indexed body params =
     (let val = (if in_indexed inp then indexed else body);
          indexed' = (if in_indexed inp then tl indexed else indexed);
          body' = (if in_indexed inp then body else tl body)
      in case val of
           [] \<Rightarrow> pair_params A (i + 1) rest indexed' body' params
         | v # _ \<Rightarrow> pair_params A (i + 1) rest indexed' body'
                    (btm_insert (param_key i inp) (dyn_to_json A v) params))"

definition opt_field :: "string \<Rightarrow> json option \<Rightarrow> (string \<times> json) list" where
  "opt_field k v = (case v of None \<Rightarrow> [] | Some x \<Rightarrow> [(k, x)])"

definition decoded_fields :: "u64 \<Rightarrow> json \<Rightarrow> abi_event \<Rightarrow> (string, json) btm \<Rightarrow> (string \<times> json) list" where
  "decoded_fields chain r e params =
     [(''chain_id'', jnat chain),
      (''block_number'', jnat (unwrap_or 0 (u64_field r ''block_number'')))]
     @ opt_field ''block_timestamp'' (map_option jnat (u64_field r ''block_timestamp''))
     @ opt_field ''block_hash'' (map_option JStr (jget_str ''block_hash'' r))
     @ opt_field ''transaction_hash'' (map_option JStr (jget_str ''transaction_hash'' r))
     @ [(''log_index'', jnat (unwrap_or 0 (u64_field r ''log_index'')))]
     @ opt_field ''address'' (map_option JStr (jget_str ''address'' r))
     @ [(''event'', JStr (ev_name e)), (''signature'', JStr (ev_signature e)),
        (''params'', JObj params)]"

definition decode_known :: "alloy \<Rightarrow> u64 \<Rightarrow> json \<Rightarrow> string \<Rightarrow> abi_event \<Rightarrow> json option res" where
  "decode_known A chain r topic0 e =
     and_then (push_topics A r [''topic1'', ''topic2'', ''topic3''] [topic0]) (\<lambda>topics.
     and_then (case hex_decode A (trim_start_str ''0x'' (unwrap_or ''0x'' (jget_str ''data'' r))) of
                 Inl m \<Rightarrow> Inl (''bad data hex: '' @ m) | Inr x \<Rightarrow> Inr x) (\<lambda>data.
     and_then (case decode_log_parts A e topics data of
                 Inl m \<Rightarrow> Inl (''decode '' @ ev_name e @ '': '' @ m) | Inr x \<Rightarrow> Inr x) (\<lambda>(indexed, body).
       Inr (Some (obj (decoded_fields chain r e (pair_params A 0 (ev_inputs e) indexed body []))))))) "

definition decode_record :: "alloy \<Rightarrow> decoder \<Rightarrow> u64 \<Rightarrow> json \<Rightarrow> json option res" where
  "decode_record A d chain r =
     (case jget_str ''topic0'' r of
        None \<Rightarrow> undecodable d r ''no topic0''
      | Some t \<Rightarrow>
          (case parse_b256 A t of
             Inl e \<Rightarrow> Inl (''bad topic0: '' @ e)
           | Inr topic0 \<Rightarrow>
               (case map_of (by_topic0 d) topic0 of
                  None \<Rightarrow> undecodable d r ''unknown event''
                | Some e \<Rightarrow> decode_known A chain r topic0 e)))"

section \<open>The processor\<close>

definition decoder_process :: "alloy \<Rightarrow> decoder \<Rightarrow> batch \<Rightarrow> batch list res call \<times> decoder" where
  "decoder_process A d b =
     (Returned (and_then (map_res (decode_record A d (b_chain_id b)) (b_records b)) (\<lambda>outs.
        let out = List.map_filter id outs
        in if out = [] then Inr [] else Inr [derive b Decoded out])), d)"

interpretation decoder: processor "decoder_from_config A" "decoder_process A" for A
  by unfold_locales (auto simp: decoder_process_def Let_def is_control_def split: if_splits)

section \<open>Lemmas\<close>

lemma btm_ok_pair_params [btm_intros]: "btm_ok m \<Longrightarrow> btm_ok (pair_params A i inputs ix body m)"
  by (induction inputs arbitrary: i ix body m) (auto simp: Let_def split: list.splits)

text \<open>The specification of the pairing: the k-th input's own value.\<close>

definition nth_opt :: "'a list \<Rightarrow> nat \<Rightarrow> 'a option" where
  "nth_opt xs k = (if k < length xs then Some (xs ! k) else None)"

definition value_of_input :: "event_input list \<Rightarrow> dyn_val list \<Rightarrow> dyn_val list \<Rightarrow> nat \<Rightarrow> dyn_val option" where
  "value_of_input inputs ix body k =
     (let before = take k inputs
      in if in_indexed (inputs ! k) then nth_opt ix (length (filter in_indexed before))
         else nth_opt body (length (filter (\<lambda>x. \<not> in_indexed x) before)))"

definition param_keys :: "nat \<Rightarrow> event_input list \<Rightarrow> string list" where
  "param_keys i inputs = map (\<lambda>(j, inp). param_key j inp) (List.enumerate i inputs)"

lemma param_keys_simps [simp]:
  "param_keys i [] = []" "param_keys i (x # xs) = param_key i x # param_keys (Suc i) xs"
  by (simp_all add: param_keys_def)

lemma param_keys_nth: "k < length inputs \<Longrightarrow> param_keys i inputs ! k = param_key (i + k) (inputs ! k)"
  by (simp add: param_keys_def nth_enumerate_eq)

lemma length_param_keys [simp]: "length (param_keys i inputs) = length inputs"
  by (simp add: param_keys_def)

lemma nth_opt_tl: "nth_opt (tl xs) k = nth_opt xs (Suc k)"
  by (cases xs) (auto simp: nth_opt_def)

lemma value_of_input_Suc:
  "value_of_input (x # xs) ix body (Suc k) =
     value_of_input xs (if in_indexed x then tl ix else ix) (if in_indexed x then body else tl body) k"
  by (simp add: value_of_input_def Let_def nth_opt_tl)

lemma pair_params_other:
  "btm_ok m \<Longrightarrow> key \<notin> set (param_keys i inputs)
   \<Longrightarrow> map_of (pair_params A i inputs ix body m) key = map_of m key"
  by (induction inputs arbitrary: i ix body m) (auto simp: Let_def split: list.splits)

lemma pair_params_nth:
  "btm_ok m \<Longrightarrow> distinct (param_keys i inputs) \<Longrightarrow> \<forall>key \<in> set (param_keys i inputs). map_of m key = None
   \<Longrightarrow> k < length inputs
   \<Longrightarrow> map_of (pair_params A i inputs ix body m) (param_keys i inputs ! k)
       = map_option (dyn_to_json A) (value_of_input inputs ix body k)"
proof (induction inputs arbitrary: i ix body m k)
  case (Cons inp rest)
  show ?case
  proof (cases k)
    case 0
    then show ?thesis using Cons.prems
      by (auto simp: Let_def pair_params_other value_of_input_def nth_opt_def split: list.splits)
  next
    case (Suc j)
    have j: "j < length rest" "param_keys (Suc i) rest ! j \<in> set (param_keys (Suc i) rest)"
      using Suc Cons.prems by simp_all
    have "map_of (pair_params A (Suc i) rest ix' body' m') (param_keys (Suc i) rest ! j)
        = map_option (dyn_to_json A) (value_of_input rest ix' body' j)"
      if "m' = m \<or> (\<exists>v. m' = btm_insert (param_key i inp) v m)" for ix' body' m'
      using that Cons.prems j by (intro Cons.IH) auto
    then show ?thesis using Suc
      by (auto simp: Let_def value_of_input_Suc split: list.splits)
  qed
qed simp

lemma jget_decoded [simp]:
  "jget ''params'' (obj (decoded_fields chain r e params)) = Some (JObj params)"
  "jget ''event'' (obj (decoded_fields chain r e params)) = Some (JStr (ev_name e))"
  "jget ''signature'' (obj (decoded_fields chain r e params)) = Some (JStr (ev_signature e))"
  "jget ''chain_id'' (obj (decoded_fields chain r e params)) = Some (jnat chain)"
  "jget ''block_number'' (obj (decoded_fields chain r e params))
     = Some (jnat (unwrap_or 0 (u64_field r ''block_number'')))"
  "jget ''transaction_hash'' (obj (decoded_fields chain r e params))
     = map_option JStr (jget_str ''transaction_hash'' r)"
  by (auto simp: jget_obj decoded_fields_def opt_field_def split: option.splits)

lemma decode_known_Inr:
  "push_topics A r [''topic1'', ''topic2'', ''topic3''] [t] = Inr topics
   \<Longrightarrow> hex_decode A (trim_start_str ''0x'' (unwrap_or ''0x'' (jget_str ''data'' r))) = Inr data
   \<Longrightarrow> decode_log_parts A e topics data = Inr (ix, body)
   \<Longrightarrow> decode_known A chain r t e
      = Inr (Some (obj (decoded_fields chain r e (pair_params A 0 (ev_inputs e) ix body []))))"
  by (simp add: decode_known_def)

section \<open>Properties\<close>


definition sample_event :: abi_event where
  "sample_event = \<lparr> ev_name = ''Transfer'',
     ev_inputs = [\<lparr> in_name = ''from'', in_indexed = True \<rparr>, \<lparr> in_name = ''value'', in_indexed = False \<rparr>,
                  \<lparr> in_name = ''to'', in_indexed = True \<rparr>],
     ev_selector = ''dd'', ev_signature = ''Transfer(address,address,uint256)'' \<rparr>"

definition sample_alloy :: alloy where
  "sample_alloy = \<lparr> parse_b256 = (\<lambda>s. if s = ''junk'' then Inl ''invalid length'' else Inr s),
     parse_abi = (\<lambda>v. Inr [sample_event]),
     decode_log_parts = (\<lambda>e ts data. Inr ([DAddress ''aa'', DAddress ''bb''], [DUint 5])),
     hex_decode = Inr, hex_encode = id, to_checksum = id, show_function = id \<rparr>"

definition sample_decoder :: decoder where
  "sample_decoder = \<lparr> by_topic0 = [(''dd'', sample_event)], d_on_undecodable = Drop \<rparr>"

definition sample_log :: json where
  "sample_log = JObj [(''block_number'', jnat 7), (''topic0'', JStr ''dd'')]"


text \<open>
  \<open>on_undecodable\<close> covers only logs of unknown events: whatever it is set to, one log
  whose topic0 is malformed fails the whole batch, decodable logs included.
\<close>

lemma broken_log_fails_batch:
  assumes "r \<in> set (b_records b)" "jget_str ''topic0'' r = Some s" "parse_b256 A s = Inl m"
  shows "\<exists>e. decoder_process A d b = (Returned (Inl e), d)"
proof -
  have "\<nexists>ys. map_res (decode_record A d (b_chain_id b)) (b_records b) = Inr ys"
  proof
    assume "\<exists>ys. map_res (decode_record A d (b_chain_id b)) (b_records b) = Inr ys"
    then obtain y where "decode_record A d (b_chain_id b) r = Inr y"
      using assms(1) by (auto simp: map_res_Inr_iff list_all2_conv_all_nth in_set_conv_nth)
    then show False using assms(2,3) by (simp add: decode_record_def)
  qed
  then obtain e where "map_res (decode_record A d (b_chain_id b)) (b_records b) = Inl e"
    by (cases "map_res (decode_record A d (b_chain_id b)) (b_records b)") auto
  then show ?thesis by (simp add: decoder_process_def)
qed

end
