(* ===== verification/Failures.thy ===== *)
theory Failures
  imports StreamProps AbiDecoder
begin

text \<open>
  What the error paths of the running pipeline do, across components: records that were
  acknowledged and are in no place any more while the cursor moves past them, and batches
  that a cursor passes without having been delivered.  Each of these states why a hypothesis
  of \<open>at_least_once\<close> is needed: the sink contract, or one path from source to sink.
\<close>

section \<open>A tick whose flush succeeds\<close>

lemma live_floor:
  assumes "maps_ok st" "mem_cursor st k = Some n"
  shows "durable_cursor (snd (persist_snapshot True (ckpt_snapshot st) st)) k = Some n"
proof -
  have "btm_ok (ck_cursors st)" using assms(1) by (intro maps_okD)
  then have "map_of (rev (ck_cursors st)) k = Some n"
    using assms(2) by (simp add: map_of_rev_btm mem_cursor_def)
  then show ?thesis using assms
    by (simp add: durable_persist ckpt_snapshot_def floor_row_def mem_cursor_def)
qed

lemma tick_ok:
  assumes "maps_ok st" "mem_cursor st k = Some n" "flush s w = (r, w')" "flush_ok r"
  shows "\<exists>st'. checkpoint_once flush True [s] st w = (st', w') \<and> durable_cursor st' k = Some n"
  using live_floor [OF assms(1,2)] assms(3,4) by (simp add: checkpoint_once_def)

lemma tick_failed:
  "flush s w = (Joined (Inl e), w') \<Longrightarrow> checkpoint_once flush ok (s # sinks) st w = (st, w')"
  by (simp add: checkpoint_once_def)

section \<open>A put that fails\<close>

abbreviation s3_puts :: "(nat \<Rightarrow> bool) \<Rightarrow> unit \<Rightarrow> s3_sink \<times> recorder \<Rightarrow> unit res spawned \<times> (s3_sink \<times> recorder)" where
  "s3_puts up \<equiv> \<lambda>_. branch_flush (s3_flush encode_all (recording_put up))"

text \<open>
  C38: one failed upload makes rows vanish behind the cursor.  The tick that meets the failure
  changes nothing in the database, as intended; but the rows it took are neither stored nor
  held any more, so the next tick flushes nothing, succeeds, and persists the cursor of the
  acknowledged rows.
\<close>

theorem lost_rows_become_durable:
  assumes "maps_ok st" "mem_cursor st (src, k) = Some n"
    and "s3_pending p \<noteq> {#}" "\<not> up (rc_tries w)"
  shows "\<exists>v st' v'. checkpoint_once (s3_puts up) True [()] st (p, w) = (st, v)
     \<and> checkpoint_once (s3_puts up) True [()] st v = (st', v')
     \<and> durable_cursor st' (src, k) = Some n
     \<and> recorded (snd v') = recorded w \<and> s3_pending (fst v') = {#}"
proof -
  obtain e p' w' where f: "s3_flush encode_all (recording_put up) p w = (Inl e, p', w')"
    "recorded w' = recorded w" "s3_pending p' = {#}"
    "s3_flush encode_all (recording_put up) p' w' = (Inr (), p', w')"
    using failed_put_loses_rows [OF assms(3), of up w] assms(4) by blast
  have "checkpoint_once (s3_puts up) True [()] st (p, w) = (st, (p', w'))"
    by (rule tick_failed) (simp add: branch_flush_def f(1))
  moreover obtain st' where "checkpoint_once (s3_puts up) True [()] st (p', w') = (st', (p', w'))"
    "durable_cursor st' (src, k) = Some n"
    using tick_ok [OF assms(1,2), of "s3_puts up" "()" "(p', w')" "Joined (Inr ())" "(p', w')"]
    by (auto simp: branch_flush_def f(4))
  ultimately show ?thesis using f(2,3) by auto
qed

definition held_lake :: s3_sink where
  "held_lake = demo_s3 \<lparr> s3_buffers := [(1, buffer_push 1 5 9 [JNull] buffer_empty)] \<rparr>"

lemma held_lake_pending: "s3_pending held_lake = {#JNull#}"
  by (simp add: held_lake_def s3_pending_def buffer_push_def buffer_empty_def)

definition blank :: recorder where
  "blank = \<lparr> rc_log = [], rc_tries = 0 \<rparr>"

lemma blank_simps [simp]: "recorded blank = {#}" "rc_tries blank = 0"
  by (simp_all add: blank_def recorded_def)

theorem lost_rows_become_durable_witness:
  "\<exists>v st' v'. checkpoint_once (s3_puts (\<lambda>n. n \<noteq> 0)) True [()] demo_ckpt (held_lake, blank) = (demo_ckpt, v)
     \<and> checkpoint_once (s3_puts (\<lambda>n. n \<noteq> 0)) True [()] demo_ckpt v = (st', v')
     \<and> durable_cursor st' (''eth'', ''pg'') = Some 200
     \<and> recorded (snd v') = {#} \<and> s3_pending (fst v') = {#}"
  using lost_rows_become_durable [OF demo_maps_ok, of "''eth''" "''pg''" 200 held_lake "\<lambda>n. n \<noteq> 0" blank]
  by (simp add: demo_mem_cursor held_lake_pending)

section \<open>A flush that misses an instance\<close>

definition pool_flush ::
  "json list encoder \<Rightarrow> (json list, 'w) blob_import \<Rightarrow> unit \<Rightarrow> s3_sink option list \<times> 'w
   \<Rightarrow> unit res spawned \<times> (s3_sink option list \<times> 'w)" where
  "pool_flush enc put _ = branch_flush (host_flush (s3_call_flush enc put))"

text \<open>
  A flush reaches the pool only.  While a write has an instance checked out, a tick flushes
  the others, succeeds and persists the cursor, although the rows that the instance holds
  from earlier, acknowledged batches are in the instance only.
\<close>

theorem flush_misses_in_flight:
  assumes "maps_ok st" "mem_cursor st (src, k) = Some n"
    and "list_all s3_inst_inv pool"
    and "host_flush (s3_call_flush encode_all (recording_put up)) pool w = (Inr (), pool', w')"
  shows "checkout (s3_instantiate config) (pool @ [i]) w = (Inr i, pool, w)
     \<and> (\<exists>st'. checkpoint_once (pool_flush encode_all (recording_put up)) True [()] st (pool, w) = (st', (pool', w'))
          \<and> durable_cursor st' (src, k) = Some n
          \<and> recorded w' + s3_held i = recorded w + sum_list (map s3_held (pool @ [i])))"
proof -
  have f: "pool_flush encode_all (recording_put up) () (pool, w) = (Joined (Inr ()), (pool', w'))"
    using assms(4) by (simp add: pool_flush_def branch_flush_def)
  have "recorded w' = recorded w + sum_list (map s3_held pool)"
    using s3_host.host_flush_ok [of pool "\<lambda>_ _. True" up w "Inr ()" pool' w'] assms(3,4)
    by (simp add: s3_host.pool_inv_def s3_host.pool_held_def)
  moreover obtain st' where "checkpoint_once (pool_flush encode_all (recording_put up)) True [()] st (pool, w) = (st', (pool', w'))"
    "durable_cursor st' (src, k) = Some n" using tick_ok [where flush = "pool_flush encode_all (recording_put up)" and s = "()", OF assms(1,2) f] by auto
  ultimately show ?thesis by (simp add: checkout_def add.assoc)
qed

theorem flush_misses_in_flight_witness:
  "\<exists>st'. checkpoint_once (pool_flush encode_all always_up) True [()] demo_ckpt ([], blank) = (st', ([], blank))
     \<and> durable_cursor st' (''eth'', ''pg'') = Some 200
     \<and> recorded blank + s3_held (Some held_lake) = {#JNull#}"
  using flush_misses_in_flight [OF demo_maps_ok, of "''eth''" "''pg''" 200 "[]" "\<lambda>n. True" blank "[]" blank
      demo_s3_config "Some held_lake"]
  by (simp add: demo_mem_cursor s3_held_def held_lake_pending)

section \<open>A trap on an instance that holds rows\<close>

abbreviation s3_host_write :: "(s3_sink option \<Rightarrow> json wire \<Rightarrow> bool) \<Rightarrow> json \<Rightarrow> s3_sink option list \<Rightarrow> batch \<Rightarrow> recorder
    \<Rightarrow> unit res \<times> s3_sink option list \<times> recorder" where
  "s3_host_write crash config \<equiv>
     host_write (s3_call_write crash encode_all always_up) (s3_instantiate config) id"

lemma host_write_trap:
  assumes "crash i (to_wire id b)"
  shows "s3_host_write crash config (pool @ [i]) b w = (Inl (''call write: out of memory''), pool, w)"
  using assms by (simp add: host_write_def checkout_def s3_call_write_def)

lemma s3_write_up: "fst (s3_write encode_all always_up p b w) = Inr ()"
  by (simp add: s3_write_def take_ready_def s3_put_up)

lemma host_write_fresh:
  assumes "s3_init config = Inr p0" "\<not> crash (Some p0) (to_wire id b)" "\<not> is_control b"
  shows "\<exists>i w'. s3_host_write crash config [] b w = (Inr (), [i], w')
     \<and> recorded w' + s3_held i = recorded w + mset (b_records b)"
proof -
  have p0: "s3_inv p0" "s3_pending p0 = {#}"
    using assms(1) by (auto simp: s3_init_def s3_inv_def btm_ok_def s3_pending_def)
  obtain p' w' where wr: "s3_write encode_all always_up p0 b w = (Inr (), p', w')"
    using s3_write_up [of p0 b w] by (cases "s3_write encode_all always_up p0 b w") auto
  have "s3_host_write crash config [] b w = (Inr (), [Some p'], w')"
    using assms wr by (simp add: host_write_def checkout_def s3_instantiate_def guest_init_def s3_call_write_def
        guest_write_def del: encoding_as_u8.simps)
  moreover have "recorded w' + s3_pending p' = recorded w + mset (b_records b)"
    using s3.write_keeps [OF p0(1) assms(3) wr] p0(2) by simp
  ultimately show ?thesis by (auto simp: s3_held_def)
qed

text \<open>
  C39: a trap drops the rows of batches acknowledged before.  The instance goes with everything it
  had buffered; the retry runs on a fresh one, succeeds, and the batch is acknowledged, so
  the branch ends with this batch only and nothing reports the loss.
\<close>

theorem trap_forgets_acked_rows:
  assumes "s3_init config = Inr p0" "\<not> is_control b"
    and "crash i (to_wire id b)" "\<not> crash (Some p0) (to_wire id b)"
  shows "\<exists>pool' w'. sink_step (branch_write (s3_host_write crash config)) rewind_ok k b st ([i], w)
       = (True, ckpt_ack (b_source b) k (ack_block b) st, (pool', w'))
     \<and> recorded w' + sum_list (map s3_held pool') = recorded w + mset (b_records b)"
proof -
  obtain j w' where f: "s3_host_write crash config [] b w = (Inr (), [j], w')"
    "recorded w' + s3_held j = recorded w + mset (b_records b)"
    using host_write_fresh [where crash = crash, OF assms(1,4,2)] by blast
  have t: "s3_host_write crash config [i] b w = (Inl ''call write: out of memory'', [], w)"
    using host_write_trap [where crash = crash and pool = "[]", OF assms(3)] by simp
  have "write_loop (branch_write (s3_host_write crash config) b) 0 ([i], w) = (True, ([j], w'))"
    by (simp add: write_loop.simps [of _ 0] write_loop.simps [of _ 1] write_loop.simps [of _ "Suc 0"] branch_write_def t f(1) SINK_MAX_ATTEMPTS_def)
  then have "sink_step (branch_write (s3_host_write crash config)) rewind_ok k b st ([i], w)
      = (True, ckpt_ack (b_source b) k (ack_block b) st, ([j], w'))"
    using assms(2) by (simp add: sink_step_def rewind_target_def as_control_def)
  then show ?thesis using f(2) by auto
qed

theorem trap_forgets_acked_rows_witness:
  "\<exists>pool' w'. sink_step (branch_write (s3_host_write (\<lambda>i x. i = Some held_lake) demo_s3_config)) (\<lambda>_. True) ''lake''
        demo_batch demo_ckpt ([Some held_lake], blank)
       = (True, ckpt_ack ''eth'' ''lake'' 9 demo_ckpt, (pool', w'))
     \<and> recorded w' + sum_list (map s3_held pool') = {#JNull#}"
proof -
  have b: "\<not> is_control demo_batch" "b_source demo_batch = ''eth''" "ack_block demo_batch = 9" "b_records demo_batch = [JNull]"
    by (simp_all add: demo_batch_def is_control_def)
  have "demo_s3 \<noteq> held_lake" by (simp add: held_lake_def demo_s3_def)
  then show ?thesis
    using trap_forgets_acked_rows [where crash = "\<lambda>i x. i = Some held_lake" and i = "Some held_lake" and k = "''lake''"
        and st = demo_ckpt and w = blank and rewind_ok = "\<lambda>_. True", OF demo_s3_init b(1)] b(2-4) by simp
qed

section \<open>A retry after a failed put\<close>

text \<open>
  The same on an upload error inside a write: the first attempt loses what was buffered
  before, the retry stores only the batch at hand and acknowledges it.
\<close>

lemma retry_hides_loss:
  assumes "s3_buffers p = [(b_chain_id b, old)]" "\<not> is_control b"
    and "s3_flush_rows (s3_cfg p) \<le> length (bf_records old) + length (b_records b)" "bf_records old \<noteq> []"
    and "\<not> up (rc_tries w)" "up (Suc (rc_tries w))"
  shows "\<exists>v. sink_step (branch_write (glue_write (s3_write encode_all (recording_put up)) s3_on_control)) ok k b st (p, w)
       = (True, ckpt_ack (b_source b) k (ack_block b) st, v)
     \<and> recorded (snd v) + s3_pending (fst v) = recorded w + mset (b_records b)"
proof -
  let ?wr = "glue_write (s3_write encode_all (recording_put up)) s3_on_control"
  have "\<exists>p1. ?wr p b w = (Inl ''put failed'', p1, w \<lparr> rc_tries := Suc (rc_tries w) \<rparr>)
      \<and> s3_pending p1 = {#} \<and> s3_inv p1 \<and> (\<exists>old'. s3_buffers p1 = [(b_chain_id b, old')] \<and> bf_records old' = [])"
    using assms by (auto simp: glue_write_def s3_write_def chains_push_def buffer_push_def take_ready_def buffer_take_def
        keep_records_def s3_put_def recording_put_def Let_def s3_pending_def s3_inv_def btm_ok_def)
  then obtain p1 old' where f: "?wr p b w = (Inl ''put failed'', p1, w \<lparr> rc_tries := Suc (rc_tries w) \<rparr>)"
    "s3_pending p1 = {#}" "s3_inv p1" "s3_buffers p1 = [(b_chain_id b, old')]" "bf_records old' = []" by blast
  let ?w1 = "w \<lparr> rc_tries := Suc (rc_tries w) \<rparr>"
  have "\<exists>p2 w2. s3_write encode_all (recording_put up) p1 b ?w1 = (Inr (), p2, w2)"
    using assms(6) f(4,5) by (simp add: s3_write_def chains_push_def buffer_push_def take_ready_def buffer_take_def
        keep_records_def s3_put_def recording_put_def Let_def)
  then obtain p2 w2 where g: "s3_write encode_all (recording_put up) p1 b ?w1 = (Inr (), p2, w2)" by blast
  have t: "recorded w2 + s3_pending p2 = recorded w + mset (b_records b)"
    using s3.write_keeps [OF f(3) assms(2) g] f(2) by (simp add: recorded_def)
  have "?wr p1 b ?w1 = (Inr (), p2, w2)" using g assms(2) by (simp add: glue_write_def)
  then have "write_loop (branch_write ?wr b) 0 (p, w) = (True, (p2, w2))"
    by (simp add: write_loop.simps [of _ 0] write_loop.simps [of _ "Suc 0"] branch_write_def f(1) SINK_MAX_ATTEMPTS_def)
  then have "sink_step (branch_write ?wr) ok k b st (p, w) = (True, ckpt_ack (b_source b) k (ack_block b) st, (p2, w2))"
    using assms(2) by (simp add: sink_step_def rewind_target_def as_control_def)
  then show ?thesis using t by auto
qed

section \<open>A batch that a stage cannot process\<close>

text \<open>A processor module behind the boundary, its values crossing as they are.\<close>

definition hosted_stage ::
  "('p \<Rightarrow> batch \<Rightarrow> batch list res call \<times> 'p) \<Rightarrow> (unit \<Rightarrow> 'p option res \<times> unit) \<Rightarrow> batch \<Rightarrow> 'p option list
   \<Rightarrow> batch list res spawned \<times> 'p option list" where
  "hosted_stage process instantiate b pool =
     (case host_process (\<lambda>i x w. case guest_process process Inr id i x of (r, i') \<Rightarrow> (r, i', w)) instantiate Inr id
             pool b () of (r, pool', _) \<Rightarrow> (Joined r, pool'))"

lemma decode_outputs_wire: "decode_outputs Inr (map (to_wire id) outs) = Inr outs"
proof -
  have "from_wire Inr (to_wire id b) = Inr b" for b
    by (simp add: from_wire_def to_wire_def)
  then show ?thesis by (induction outs) (simp_all add: decode_outputs_def)
qed

lemma hosted_stage_returns:
  assumes "\<not> is_control b" "process p b = (Returned r, p')"
  shows "hosted_stage process instantiate b [Some p] =
    (Joined (case r of Inl e \<Rightarrow> Inl (''module process error: '' @ e) | Inr outs \<Rightarrow> Inr outs), [Some p'])"
  using assms
  by (cases r) (simp_all add: hosted_stage_def host_process_def checkout_def guest_process_def decode_outputs_wire
      del: encoding_as_u8.simps)


definition lax_decoder :: decoder where
  "lax_decoder = \<lparr> by_topic0 = [(''dd'', sample_event)], d_on_undecodable = Passthrough \<rparr>"

definition broken_batch :: batch where
  "broken_batch = batch_new ''eth'' 1 (BlockRange 1 2) 0 Log [sample_log, JObj [(''topic0'', JStr ''junk'')]]"

definition plain_batch :: batch where
  "plain_batch = batch_new ''eth'' 1 (BlockRange 2 3) 0 Log [JObj []]"


section \<open>Two paths to one sink\<close>

text \<open>
  A cursor belongs to a source and a sink, not to a path.  When two branches derive from one
  source batch and meet in a sink, the sink acknowledges the block with the first of the two;
  a tick then makes it durable while the second still waits, so a crash there loses it.  It
  is the case that \<open>single_path\<close> excludes in \<open>at_least_once\<close>.
\<close>

theorem diamond_acks_early:
  assumes "same_identity b1 b" "same_identity b2 b" "\<not> is_control b1"
  shows "\<exists>s. lake_steps (demo_sys [b1, b2]) s
     \<and> durable_cursor (sy_store s) (b_source b, ''lake'') = Some (ack_block b2)
     \<and> recorded (snd (sy_branch s ''lake'')) = mset (b_records b1)"
proof -
  have "b_source b1 = b_source b" "ack_block b1 = ack_block b2"
    using assms(1,2) by (simp_all add: same_identity_def ack_block_def)
  then show ?thesis using lake_run [OF assms(3), of "[b2]"] by metis
qed

theorem diamond_acks_early_witness:
  "\<exists>s. lake_steps (demo_sys [derive demo_batch Decoded [JNull], derive demo_batch Decoded [JBool True]]) s
     \<and> durable_cursor (sy_store s) (''eth'', ''lake'') = Some 9
     \<and> \<not> {#JBool True#} \<subseteq># recorded (snd (sy_branch s ''lake''))"
proof -
  have "same_identity (derive demo_batch Decoded rs) demo_batch" "\<not> is_control (derive demo_batch Decoded rs)" for rs
    by (simp_all add: same_identity_def derive_def is_control_def)
  moreover have "b_source demo_batch = ''eth''" "ack_block (derive demo_batch Decoded [JBool True]) = 9"
    "b_records (derive demo_batch Decoded [JNull]) = [JNull]"
    by (simp_all add: demo_batch_def derive_def ack_block_def)
  ultimately show ?thesis
    using diamond_acks_early [of "derive demo_batch Decoded [JNull]" demo_batch "derive demo_batch Decoded [JBool True]"] by auto
qed

end
