(* ===== verification/Progress.thy ===== *)
theory Progress
  imports Failures
begin

text \<open>
  Progress of the running pipeline: it is never stuck.  Whatever happened before, once the
  sinks answer again and keep answering, the remaining input can be delivered and made durable.
\<close>

section \<open>One sink at a time\<close>

definition healthy ::
  "(string \<Rightarrow> batch \<Rightarrow> 'v \<Rightarrow> unit res spawned \<times> 'v) \<Rightarrow> (string \<Rightarrow> 'v \<Rightarrow> unit res spawned \<times> 'v) \<Rightarrow> string list \<Rightarrow> bool" where
  "healthy wr fl sinks =
     (\<forall>k \<in> set sinks. (\<forall>b v. fst (wr k b v) = Joined (Inr ())) \<and> (\<forall>v. flush_ok (fst (fl k v))))"

lemma healthyD:
  assumes "healthy wr fl sinks" "k \<in> set sinks"
  shows "\<exists>v'. wr k b v = (Joined (Inr ()), v')" "\<exists>r v'. fl k v = (r, v') \<and> flush_ok r"
  using assms unfolding healthy_def by (metis prod.collapse)+

lemma sink_step_maps_ok: "sink_step wr rewind_ok k b st v = (go, st', v') \<Longrightarrow> maps_ok st \<Longrightarrow> maps_ok st'"
  using sink_step_other [of wr rewind_ok k b st v go st' v' "k @ ''x''"] by simp

inductive_cases sys_stepE: "sys_step wr fl rewind_ok sinks s s'"

lemma sys_step_maps_ok: "sys_step wr fl rewind_ok sinks s s' \<Longrightarrow> maps_ok (sy_store s) \<Longrightarrow> maps_ok (sy_store s')"
  by (erule sys_stepE) (auto dest: sink_step_maps_ok simp: maps_ok_set)

lemma sys_steps_maps_ok: "sys_steps wr fl rewind_ok sinks s s' \<Longrightarrow> maps_ok (sy_store s) \<Longrightarrow> maps_ok (sy_store s')"
  by (induction rule: rtranclp_induct) (auto dest: sys_step_maps_ok)

lemma sys_step_tick:
  "sys_step wr fl rewind_ok sinks s s' \<Longrightarrow> \<forall>snap ks. sy_tick s = Some (snap, ks) \<longrightarrow> set ks \<subseteq> set sinks \<Longrightarrow>
   \<forall>snap ks. sy_tick s' = Some (snap, ks) \<longrightarrow> set ks \<subseteq> set sinks"
  by (erule sys_stepE) auto

lemma sys_steps_tick:
  "sys_steps wr fl rewind_ok sinks s s' \<Longrightarrow> sy_tick s = None \<Longrightarrow> sy_tick s' = Some (snap, ks) \<Longrightarrow> set ks \<subseteq> set sinks"
proof (induction arbitrary: snap ks rule: rtranclp_induct)
  case (step s1 s2)
  then show ?case using sys_step_tick [OF step(2)] by blast
qed simp

lemma healthy_sink_step:
  assumes "healthy wr fl sinks" "k \<in> set sinks"
  shows "\<exists>st' v'. sink_step (wr k) (\<lambda>_. True) k b st v = (True, st', v')"
proof -
  obtain v' where "wr k b v = (Joined (Inr ()), v')" using healthyD(1) [OF assms] by blast
  then have "write_loop (wr k b) 0 v = (True, v')" by (simp add: write_loop.simps [of _ 0])
  then show ?thesis
    by (cases "rewind_target b") (auto simp: sink_step_def ckpt_rewind_def Let_def)
qed

lemma deliver_all:
  assumes "healthy wr fl sinks" "k \<in> set sinks"
  shows "sy_todo s k = bs \<Longrightarrow>
    \<exists>s'. sys_steps wr fl (\<lambda>_. True) sinks s s' \<and> sy_todo s' k = [] \<and> sy_done s' k = sy_done s k @ bs
       \<and> sy_tick s' = sy_tick s"
proof (induction bs arbitrary: s)
  case (Cons b bs)
  obtain st' v' where w: "sink_step (wr k) (\<lambda>_. True) k b (sy_store s) (sy_branch s k) = (True, st', v')"
    using healthy_sink_step [OF assms] by blast
  let ?s = "s \<lparr> sy_store := st', sy_branch := (sy_branch s)(k := v'), sy_todo := (sy_todo s)(k := bs),
            sy_done := (sy_done s)(k := sy_done s k @ [b]) \<rparr>"
  have one: "sys_step wr fl (\<lambda>_. True) sinks s ?s" by (rule sys_step.delivers) (fact Cons.prems, fact w)
  obtain s' where "sys_steps wr fl (\<lambda>_. True) sinks ?s s'" "sy_todo s' k = []"
    "sy_done s' k = sy_done ?s k @ bs" "sy_tick s' = sy_tick ?s"
    using Cons.IH [of ?s] by auto
  then show ?case using converse_rtranclp_into_rtranclp [of "sys_step wr fl (\<lambda>_. True) sinks", OF one]
    by (intro exI [of _ s']) simp
qed auto

lemma finish_tick:
  assumes "healthy wr fl sinks"
  shows "set ks \<subseteq> set sinks \<Longrightarrow> sy_tick s = Some (snap, ks) \<Longrightarrow>
    \<exists>s'. sys_steps wr fl rewind_ok sinks s s' \<and> sy_tick s' = None \<and> sy_todo s' = sy_todo s \<and> sy_done s' = sy_done s
       \<and> sy_store s' = snd (persist_snapshot True snap (sy_store s))"
proof (induction ks arbitrary: s)
  case Nil
  let ?s = "s \<lparr> sy_store := snd (persist_snapshot True snap (sy_store s)), sy_tick := None \<rparr>"
  have "sys_step wr fl rewind_ok sinks s ?s" by (rule sys_step.persists [OF Nil(2)])
  then show ?case by (intro exI [of _ ?s]) auto
next
  case (Cons k ks)
  obtain r v' where f: "fl k (sy_branch s k) = (r, v')" "flush_ok r"
    using healthyD(2) [OF assms, where k = k and v = "sy_branch s k"] Cons.prems(1) by auto
  let ?s = "s \<lparr> sy_branch := (sy_branch s)(k := v'), sy_tick := Some (snap, ks) \<rparr>"
  have one: "sys_step wr fl rewind_ok sinks s ?s"
    using sys_step.flushes [where wr = wr and rewind_ok = rewind_ok and sinks = sinks and fl = fl, OF Cons.prems(2) f(1)] f(2) by simp
  obtain s' where "sys_steps wr fl rewind_ok sinks ?s s'" "sy_tick s' = None" "sy_todo s' = sy_todo ?s"
    "sy_done s' = sy_done ?s" "sy_store s' = snd (persist_snapshot True snap (sy_store ?s))"
    using Cons.IH [of ?s] Cons.prems(1) by auto
  then show ?case using converse_rtranclp_into_rtranclp [of "sys_step wr fl rewind_ok sinks", OF one]
    by (intro exI [of _ s']) simp
qed

lemma full_tick:
  assumes "healthy wr fl sinks" "sy_tick s = None"
  shows "\<exists>s'. sys_steps wr fl rewind_ok sinks s s' \<and> sy_tick s' = None \<and> sy_todo s' = sy_todo s \<and> sy_done s' = sy_done s
     \<and> sy_store s' = snd (persist_snapshot True (ckpt_snapshot (sy_store s)) (sy_store s))"
proof -
  let ?s = "s \<lparr> sy_tick := Some (ckpt_snapshot (sy_store s), sinks) \<rparr>"
  have one: "sys_step wr fl rewind_ok sinks s ?s" by (rule sys_step.tick [OF assms(2)])
  obtain s' where "sys_steps wr fl rewind_ok sinks ?s s'" "sy_tick s' = None" "sy_todo s' = sy_todo ?s"
    "sy_done s' = sy_done ?s" "sy_store s' = snd (persist_snapshot True (ckpt_snapshot (sy_store s)) (sy_store ?s))"
    using finish_tick [OF assms(1) order_refl, of ?s] by auto
  then show ?thesis using converse_rtranclp_into_rtranclp [of "sys_step wr fl rewind_ok sinks", OF one]
    by (intro exI [of _ s']) simp
qed


lemma lake_healthy: "healthy (\<lambda>k. branch_write s3_glue) (\<lambda>k. branch_flush (s3_flush encode_all always_up)) sinks"
proof -
  have "fst (s3_glue p b w) = Inr ()" for p b w
    using s3_write_up [of p b w] by (auto simp: glue_write_def s3_on_control_def split: option.split control_record.split)
  moreover have "fst (s3_flush encode_all always_up p w) = Inr ()" for p w by (simp add: s3_flush_def take_all_def s3_put_up)
  ultimately show ?thesis
    by (auto simp: healthy_def branch_write_def branch_flush_def split: prod.splits) (metis fst_conv flush_ok.simps(1))+
qed


end
