(* ===== verification/FilterModule.thy ===== *)
theory FilterModule
  imports Sdk
begin

text \<open>
  The filter processor: \<open>modules/filter/src/filter.rs\<close> and \<open>lib.rs\<close>.  Integers arrive as
  decimal strings of any length, so the comparison works on the digits.
\<close>

section \<open>Configuration\<close>

datatype op = OpEq | OpNe | OpGt | OpGte | OpLt | OpLte | OpIn

definition op_parse :: "string \<Rightarrow> op res" where
  "op_parse s =
     (if s = ''eq'' then Inr OpEq else if s = ''ne'' then Inr OpNe
      else if s = ''gt'' then Inr OpGt else if s = ''gte'' then Inr OpGte
      else if s = ''lt'' then Inr OpLt else if s = ''lte'' then Inr OpLte
      else if s = ''in'' then Inr OpIn
      else Inl (''filter: unknown op `'' @ s @ ''`''))"

record predicate =
  p_field :: string
  p_op :: op
  p_value :: json

record filter_cfg =
  f_all :: "predicate list"
  f_any :: "predicate list"

definition parse_predicate :: "json \<Rightarrow> predicate res" where
  "parse_predicate p =
     and_then (ok_or ''filter: predicate missing `field`'' (jget_str ''field'' p)) (\<lambda>f.
     and_then (ok_or ''filter: predicate missing `op`'' (jget_str ''op'' p)) (\<lambda>o1.
     and_then (op_parse o1) (\<lambda>op.
       Inr \<lparr> p_field = f, p_op = op, p_value = unwrap_or JNull (jget ''value'' p) \<rparr>)))"

definition parse_predicates :: "json option \<Rightarrow> predicate list res" where
  "parse_predicates v =
     (case v of
        None \<Rightarrow> Inr []
      | Some a \<Rightarrow>
          and_then (ok_or ''filter: `all`/`any` must be arrays'' (as_array a)) (map_res parse_predicate))"

definition filter_from_config :: "json \<Rightarrow> filter_cfg res" where
  "filter_from_config config =
     and_then (parse_predicates (jget ''all'' config)) (\<lambda>all.
     and_then (parse_predicates (jget ''any'' config)) (\<lambda>any.
       if all = [] \<and> any = [] then
         Inl ''filter: config must have `all` and/or `any` predicates''
       else Inr \<lparr> f_all = all, f_any = any \<rparr>))"

section \<open>Comparing decimal strings\<close>

datatype ordering = Less | Equal | Greater

definition compare :: "'a::linorder \<Rightarrow> 'a \<Rightarrow> ordering" where
  "compare a b = (if a < b then Less else if a = b then Equal else Greater)"

text \<open>\<open>Ordering::then_with\<close>.\<close>

definition cmp_magnitude :: "string \<Rightarrow> string \<Rightarrow> ordering" where
  "cmp_magnitude a b =
     (case compare (length a) (length b) of Equal \<Rightarrow> compare a b | r \<Rightarrow> r)"

definition split_sign :: "string \<Rightarrow> bool \<times> string" where
  "split_sign s =
     (let (neg, mag) = (case strip_prefix ''-'' s of Some rest \<Rightarrow> (True, rest) | None \<Rightarrow> (False, s));
          trimmed = trim_start_char (CHR ''0'') mag
      in if trimmed = [] then (False, []) else (neg, trimmed))"

definition cmp_decimal :: "string \<Rightarrow> string \<Rightarrow> ordering" where
  "cmp_decimal a b =
     (case (split_sign a, split_sign b) of
        ((False, _), (True, _)) \<Rightarrow> Greater
      | ((True, _), (False, _)) \<Rightarrow> Less
      | ((False, am), (False, bm)) \<Rightarrow> cmp_magnitude am bm
      | ((True, am), (True, bm)) \<Rightarrow> cmp_magnitude bm am)"

definition num_str :: "json \<Rightarrow> string option" where
  "num_str v =
     (case v of
        JNum n \<Rightarrow> Some (show_number n)
      | JStr s \<Rightarrow> if is_decimal_str s then Some s else None
      | _ \<Rightarrow> None)"

definition resolve_path :: "json \<Rightarrow> string \<Rightarrow> json option" where
  "resolve_path rec path = walk_path rec (split_char (CHR ''.'') path)"

definition values_eq :: "json option \<Rightarrow> json option \<Rightarrow> bool" where
  "values_eq lhs rhs =
     (case (lhs, rhs) of
        (Some a, Some b) \<Rightarrow>
          (case (num_str a, num_str b) of
             (Some x, Some y) \<Rightarrow> cmp_decimal x y = Equal
           | _ \<Rightarrow> a = b)
      | _ \<Rightarrow> False)"

definition compare_values :: "json option \<Rightarrow> json \<Rightarrow> ordering option" where
  "compare_values lhs value =
     (case (lhs, num_str value) of
        (Some l, Some r) \<Rightarrow> map_option (\<lambda>ls. cmp_decimal ls r) (num_str l)
      | _ \<Rightarrow> None)"

definition eval :: "predicate \<Rightarrow> json \<Rightarrow> bool" where
  "eval p rec =
     (let lhs = resolve_path rec (p_field p); v = p_value p
      in case p_op p of
           OpEq \<Rightarrow> values_eq lhs (Some v)
         | OpNe \<Rightarrow> \<not> values_eq lhs (Some v)
         | OpIn \<Rightarrow> (case v of JArr items \<Rightarrow> list_ex (\<lambda>it. values_eq lhs (Some it)) items | _ \<Rightarrow> False)
         | OpGt \<Rightarrow> compare_values lhs v = Some Greater
         | OpGte \<Rightarrow> compare_values lhs v \<in> {Some Greater, Some Equal}
         | OpLt \<Rightarrow> compare_values lhs v = Some Less
         | OpLte \<Rightarrow> compare_values lhs v \<in> {Some Less, Some Equal})"

definition passes :: "filter_cfg \<Rightarrow> json \<Rightarrow> bool" where
  "passes f rec =
     (list_all (\<lambda>p. eval p rec) (f_all f)
      \<and> (f_any f = [] \<or> list_ex (\<lambda>p. eval p rec) (f_any f)))"

section \<open>The processor\<close>

definition filter_process :: "filter_cfg \<Rightarrow> batch \<Rightarrow> batch list res call \<times> filter_cfg" where
  "filter_process f b =
     (let kept = filter (passes f) (b_records b)
      in (Returned (Inr (if kept = [] then [] else [derive b (b_kind b) kept])), f))"

interpretation filter: processor filter_from_config filter_process
  by unfold_locales (auto simp: filter_process_def Let_def is_control_def split: if_splits)

section \<open>Decimal strings as integers\<close>

definition dec_int :: "string \<Rightarrow> int" where
  "dec_int s =
     (case strip_prefix ''-'' s of Some m \<Rightarrow> - int (dec_val m) | None \<Rightarrow> int (dec_val s))"

lemma digit_val_le: "is_ascii_digit c \<Longrightarrow> digit_val c \<le> 9"
  unfolding is_ascii_digit_def digit_val_def by linarith

lemma digit_val_less:
  "is_ascii_digit a \<Longrightarrow> is_ascii_digit b \<Longrightarrow> digit_val a < digit_val b \<longleftrightarrow> a < b"
  unfolding is_ascii_digit_def digit_val_def less_char_def by linarith

lemma dec_acc_bound: "list_all is_ascii_digit s \<Longrightarrow> dec_acc 0 s < 10 ^ length s"
proof (induction s)
  case (Cons c s)
  have "dec_acc (digit_val c) s = digit_val c * 10 ^ length s + dec_acc 0 s"
    by (rule dec_acc_split)
  moreover have "digit_val c * 10 ^ length s \<le> 9 * 10 ^ length s"
    using Cons.prems digit_val_le [of c] by (intro mult_right_mono) simp_all
  moreover have "dec_acc 0 s < 10 ^ length s" using Cons by simp
  ultimately have "dec_acc (digit_val c) s < 10 * 10 ^ length s" by linarith
  then show ?case by simp
qed simp

lemma dec_val_bound: "list_all is_ascii_digit s \<Longrightarrow> dec_val s < 10 ^ length s"
  by (simp add: dec_val_def dec_acc_bound)

lemma dec_val_Cons: "dec_val (c # s) = digit_val c * 10 ^ length s + dec_val s"
  using dec_acc_split [of "digit_val c" s] by (simp add: dec_val_def)

lemma dec_val_Nil [simp]: "dec_val [] = 0"
  by (simp add: dec_val_def)

lemma dec_val_trim: "dec_val (trim_start_char (CHR ''0'') s) = dec_val s"
  by (induction s) (simp_all add: trim_start_char_def dec_val_Cons digit_val_def)

lemma trim_digits: "list_all is_ascii_digit s \<Longrightarrow> list_all is_ascii_digit (trim_start_char c s)"
  by (auto simp: trim_start_char_def list_all_iff dest: set_dropWhileD)

text \<open>The leading digit decides between two numbers of the same length.\<close>

lemma leading_digit_less:
  assumes "digit_val x < digit_val y" "dec_val xs < 10 ^ length xs" "length xs = length ys"
  shows "dec_val (x # xs) < dec_val (y # ys)"
proof -
  have "Suc (digit_val x) \<le> digit_val y" using assms(1) by simp
  then have "Suc (digit_val x) * 10 ^ length ys \<le> digit_val y * 10 ^ length ys"
    by (rule mult_right_mono) simp
  then have "digit_val x * 10 ^ length ys + 10 ^ length ys \<le> digit_val y * 10 ^ length ys"
    by (simp add: algebra_simps)
  then show ?thesis using assms(2,3) by (simp add: dec_val_Cons)
qed

lemma compare_cases: "a < b \<Longrightarrow> compare a b = Less" "a = b \<Longrightarrow> compare a b = Equal"
  "b < a \<Longrightarrow> compare a b = Greater"
  by (auto simp: compare_def)

lemma same_length_compare:
  "length a = length b \<Longrightarrow> list_all is_ascii_digit a \<Longrightarrow> list_all is_ascii_digit b
   \<Longrightarrow> compare a b = compare (dec_val a) (dec_val b)"
proof (induction a b rule: list_induct2)
  case (Cons x xs y ys)
  have d: "is_ascii_digit x" "is_ascii_digit y" "list_all is_ascii_digit xs" "list_all is_ascii_digit ys"
    using Cons.prems by simp_all
  consider "x < y" | "x = y" | "y < x" by (meson linorder_less_linear)
  then show ?case
  proof cases
    case 1
    then have "dec_val (x # xs) < dec_val (y # ys)"
      using d Cons.hyps dec_val_bound [OF d(3)] by (intro leading_digit_less) (simp_all add: digit_val_less)
    then show ?thesis using 1 by (simp add: compare_def)
  next
    case 2
    have "compare xs ys = compare (dec_val xs) (dec_val ys)" using Cons.IH d by simp
    then show ?thesis using 2 Cons.hyps by (simp add: compare_def dec_val_Cons split: if_splits)
  next
    case 3
    then have "dec_val (y # ys) < dec_val (x # xs)"
      using d Cons.hyps dec_val_bound [OF d(4)] by (intro leading_digit_less) (simp_all add: digit_val_less)
    then have "compare (dec_val (x # xs)) (dec_val (y # ys)) = Greater" by (rule compare_cases(3))
    moreover have "compare (x # xs) (y # ys) = Greater" using 3 by (intro compare_cases(3)) simp
    ultimately show ?thesis by simp
  qed
qed (simp add: compare_def)

text \<open>A digit string without leading zeros.\<close>

definition plain :: "string \<Rightarrow> bool" where
  "plain s = (list_all is_ascii_digit s \<and> (s \<noteq> [] \<longrightarrow> hd s \<noteq> CHR ''0''))"

lemma digit_val_pos: "is_ascii_digit c \<Longrightarrow> c \<noteq> CHR ''0'' \<Longrightarrow> 1 \<le> digit_val c"
proof -
  assume c: "is_ascii_digit c" "c \<noteq> CHR ''0''"
  have z: "of_char (CHR ''0'') = (48::nat)" by simp
  have "(of_char c :: nat) \<noteq> of_char (CHR ''0'')" using c(2) of_char_eq_iff by blast
  then show ?thesis using c(1) unfolding is_ascii_digit_def digit_val_def z by linarith
qed

lemma plain_lower: "plain s \<Longrightarrow> s \<noteq> [] \<Longrightarrow> 10 ^ (length s - 1) \<le> dec_val s"
proof (cases s)
  case (Cons c cs)
  assume p: "plain s"
  then have "1 \<le> digit_val c" using Cons by (intro digit_val_pos) (simp_all add: plain_def)
  then have "1 * 10 ^ length cs \<le> digit_val c * 10 ^ length cs" by (rule mult_right_mono) simp
  then have "10 ^ length cs \<le> digit_val c * 10 ^ length cs + dec_val cs" by linarith
  then show ?thesis using Cons by (simp add: dec_val_Cons)
qed simp

lemma plain_trim: "list_all is_ascii_digit s \<Longrightarrow> plain (trim_start_char (CHR ''0'') s)"
  unfolding plain_def using trim_digits [of s "CHR ''0''"] hd_dropWhile [of "\<lambda>x. x = CHR ''0''" s]
  by (simp add: trim_start_char_def)

lemma plain_zero: "plain s \<Longrightarrow> dec_val s = 0 \<longleftrightarrow> s = []"
proof (cases "s = []")
  case False
  moreover assume "plain s"
  ultimately have "10 ^ (length s - 1) \<le> dec_val s" by (intro plain_lower)
  moreover have "(0::nat) < 10 ^ (length s - 1)" by simp
  ultimately show ?thesis using False by linarith
qed simp

text \<open>Without leading zeros, the longer number is the larger one.\<close>

lemma longer_is_greater:
  "plain a \<Longrightarrow> plain b \<Longrightarrow> length a < length b \<Longrightarrow> dec_val a < dec_val b"
proof -
  assume p: "plain a" "plain b" and l: "length a < length b"
  have "dec_val a < 10 ^ length a" using p(1) by (simp add: plain_def dec_val_bound)
  also have "\<dots> \<le> 10 ^ (length b - 1)" using l by (intro power_increasing) simp_all
  also have "\<dots> \<le> dec_val b" using p(2) l by (intro plain_lower) auto
  finally show ?thesis .
qed

lemma cmp_magnitude_exact:
  "plain a \<Longrightarrow> plain b \<Longrightarrow> cmp_magnitude a b = compare (dec_val a) (dec_val b)"
proof -
  assume p: "plain a" "plain b"
  consider "length a < length b" | "length a = length b" | "length b < length a" by linarith
  then show ?thesis
  proof cases
    case 1
    then show ?thesis using longer_is_greater [OF p 1] by (simp add: cmp_magnitude_def compare_def)
  next
    case 2
    then show ?thesis
      using same_length_compare [OF 2] p by (simp add: cmp_magnitude_def plain_def compare_cases(2))
  next
    case 3
    then show ?thesis
      using longer_is_greater [OF p(2,1) 3] by (simp add: cmp_magnitude_def compare_def)
  qed
qed

text \<open>\<open>split_sign\<close> gives the sign and the magnitude; zero has the sign plus.\<close>

lemma split_sign_exact:
  assumes "is_decimal_str s" "split_sign s = (n, m)"
  shows "plain m \<and> (n \<longrightarrow> 0 < dec_val m) \<and> dec_int s = (if n then - int (dec_val m) else int (dec_val m))"
proof -
  obtain t where t: "list_all is_ascii_digit t" "dec_int s = (if strip_prefix ''-'' s \<noteq> None then - int (dec_val t) else int (dec_val t))"
    "split_sign s = (if trim_start_char (CHR ''0'') t = [] then (False, [])
       else (strip_prefix ''-'' s \<noteq> None, trim_start_char (CHR ''0'') t))"
    using assms(1)
    by (cases "strip_prefix ''-'' s") (auto simp: is_decimal_str_def dec_int_def split_sign_def Let_def)
  have p: "plain (trim_start_char (CHR ''0'') t)" using t(1) by (rule plain_trim)
  have v: "dec_val (trim_start_char (CHR ''0'') t) = dec_val t" by (rule dec_val_trim)
  show ?thesis
  proof (cases "trim_start_char (CHR ''0'') t = []")
    case True
    then have "dec_val t = 0" using v by simp
    then show ?thesis using True assms(2) t(2,3) p by auto
  next
    case False
    then have "0 < dec_val t" using plain_zero [OF p] v by simp
    then show ?thesis using False assms(2) t(2,3) p v by auto
  qed
qed

lemma compare_int: "compare (int a) (int b) = compare a b"
  by (simp add: compare_def)

lemma compare_neg: "compare (- int a) (- int b) = compare b a"
  by (simp add: compare_def)

lemma cmp_decimal_int:
  assumes "is_decimal_str a" "is_decimal_str b"
  shows "cmp_decimal a b = compare (dec_int a) (dec_int b)"
proof -
  obtain n m where a: "split_sign a = (n, m)" by (cases "split_sign a")
  obtain k l where b: "split_sign b = (k, l)" by (cases "split_sign b")
  note x = split_sign_exact [OF assms(1) a] split_sign_exact [OF assms(2) b]
  show ?thesis
  proof (cases n; cases k)
    assume "n" "k"
    then show ?thesis using x by (simp add: cmp_decimal_def a b cmp_magnitude_exact compare_neg)
  next
    assume "n" "\<not> k"
    then show ?thesis using x by (simp add: cmp_decimal_def a b compare_def)
  next
    assume "\<not> n" "k"
    then show ?thesis using x by (simp add: cmp_decimal_def a b compare_def)
  next
    assume "\<not> n" "\<not> k"
    then show ?thesis using x by (simp add: cmp_decimal_def a b cmp_magnitude_exact compare_int)
  qed
qed

section \<open>Properties\<close>

text \<open>What a value counts as when it is read as an integer.\<close>

definition int_of_json :: "json \<Rightarrow> int option" where
  "int_of_json v =
     (case v of
        JNum (NPos n) \<Rightarrow> Some (int (unat n))
      | JNum (NNeg i) \<Rightarrow> Some i
      | JStr s \<Rightarrow> if is_decimal_str s then Some (dec_int s) else None
      | _ \<Rightarrow> None)"

definition is_float :: "json \<Rightarrow> bool" where
  "is_float v = (case v of JNum (NFloat _) \<Rightarrow> True | _ \<Rightarrow> False)"

lemma dec_int_show_nat [simp]: "dec_int (show_nat n) = int n"
proof -
  have "strip_prefix ''-'' (show_nat n) = None"
  proof (cases "strip_prefix ''-'' (show_nat n)")
    case (Some r)
    then have "CHR ''-'' \<in> set (show_nat n)" by (simp add: strip_prefix_Some)
    then show ?thesis using show_nat_no_special [of "CHR ''-''" n] by simp
  qed
  then show ?thesis by (simp add: dec_int_def)
qed

lemma dec_int_show_int [simp]: "dec_int (show_int i) = i"
  by (simp add: show_int_def) (simp add: dec_int_def strip_prefix_def)

lemma num_str_int:
  "\<not> is_float v \<Longrightarrow>
     (case num_str v of None \<Rightarrow> int_of_json v = None
      | Some s \<Rightarrow> is_decimal_str s \<and> int_of_json v = Some (dec_int s))"
  by (cases v rule: json.exhaust)
    (auto simp: num_str_def int_of_json_def is_float_def show_u64_def split: number.splits)

text \<open>Reference semantics of a comparison operator on two values.\<close>

definition values_agree :: "json \<Rightarrow> json \<Rightarrow> bool" where
  "values_agree a b =
     (case (int_of_json a, int_of_json b) of
        (Some x, Some y) \<Rightarrow> x = y | _ \<Rightarrow> a = b)"

definition values_ordered :: "(int \<Rightarrow> int \<Rightarrow> bool) \<Rightarrow> json \<Rightarrow> json \<Rightarrow> bool" where
  "values_ordered rel a b =
     (case (int_of_json a, int_of_json b) of
        (Some x, Some y) \<Rightarrow> rel x y | _ \<Rightarrow> False)"

fun op_holds :: "op \<Rightarrow> json \<Rightarrow> json \<Rightarrow> bool" where
  "op_holds OpEq a v = values_agree a v"
| "op_holds OpNe a v = (\<not> values_agree a v)"
| "op_holds OpGt a v = values_ordered (>) a v"
| "op_holds OpGte a v = values_ordered (\<ge>) a v"
| "op_holds OpLt a v = values_ordered (<) a v"
| "op_holds OpLte a v = values_ordered (\<le>) a v"
| "op_holds OpIn a v = (case v of JArr items \<Rightarrow> list_ex (values_agree a) items | _ \<Rightarrow> False)"

text \<open>No operand of the predicate is a float.\<close>

definition integral :: "json \<Rightarrow> bool" where
  "integral v = (\<not> is_float v \<and> (case v of JArr items \<Rightarrow> list_all (\<lambda>x. \<not> is_float x) items | _ \<Rightarrow> True))"

lemma values_eq_agree:
  assumes "\<not> is_float a" "\<not> is_float b"
  shows "values_eq (Some a) (Some b) = values_agree a b"
  using num_str_int [OF assms(1)] num_str_int [OF assms(2)]
  by (auto simp: values_eq_def values_agree_def cmp_decimal_int compare_def split: option.splits)

lemma compare_values_ordered:
  assumes "\<not> is_float a" "\<not> is_float b"
  shows "compare_values (Some a) b =
    (case (int_of_json a, int_of_json b) of (Some x, Some y) \<Rightarrow> Some (compare x y) | _ \<Rightarrow> None)"
  using num_str_int [OF assms(1)] num_str_int [OF assms(2)]
  by (auto simp: compare_values_def cmp_decimal_int split: option.splits)

lemma in_list_agree:
  "\<not> is_float a \<Longrightarrow> list_all (\<lambda>x. \<not> is_float x) items
   \<Longrightarrow> list_ex (\<lambda>it. values_eq (Some a) (Some it)) items = list_ex (values_agree a) items"
  by (induction items) (simp_all add: values_eq_agree)

lemma eval_op_holds:
  assumes "resolve_path r (p_field p) = Some a" "\<not> is_float a" "integral (p_value p)"
  shows "eval p r = op_holds (p_op p) a (p_value p)"
proof -
  have v: "\<not> is_float (p_value p)" using assms(3) by (simp add: integral_def)
  have o: "compare_values (Some a) (p_value p) =
    (case (int_of_json a, int_of_json (p_value p)) of (Some x, Some y) \<Rightarrow> Some (compare x y) | _ \<Rightarrow> None)"
    using assms(2) v by (rule compare_values_ordered)
  show ?thesis
  proof (cases "p_op p")
    case OpIn
    then show ?thesis using assms in_list_agree [OF assms(2)]
      by (auto simp: eval_def integral_def split: json.splits)
  qed (use assms v in \<open>auto simp: eval_def Let_def values_eq_agree o values_ordered_def compare_def
        split: option.splits\<close>)
qed

text \<open>
  Comparing two decimal strings digit by digit is comparing the integers they stand
  for, of either sign and any length, with leading zeros and a negative zero.
\<close>

theorem cmp_decimal_exact:
  assumes "is_decimal_str a" "is_decimal_str b"
  shows "cmp_decimal a b = compare (dec_int a) (dec_int b)"
  using assms by (rule cmp_decimal_int)

theorem cmp_decimal_exact_witness:
  "cmp_decimal ''-0012'' ''7'' = compare (dec_int ''-0012'') (dec_int ''7'')"
  by (rule cmp_decimal_exact) (simp_all add: is_decimal_str_def strip_prefix_def is_ascii_digit_def)

text \<open>The reference semantics of a whole configuration on one record.\<close>

definition holds_on :: "json \<Rightarrow> predicate \<Rightarrow> bool" where
  "holds_on r p =
     (case resolve_path r (p_field p) of
        None \<Rightarrow> p_op p = OpNe
      | Some a \<Rightarrow> op_holds (p_op p) a (p_value p))"

definition no_floats :: "json \<Rightarrow> predicate \<Rightarrow> bool" where
  "no_floats r p =
     (integral (p_value p)
      \<and> (case resolve_path r (p_field p) of None \<Rightarrow> True | Some a \<Rightarrow> \<not> is_float a))"

lemma values_eq_None [simp]: "\<not> values_eq None v"
  by (simp add: values_eq_def)

lemma compare_values_None [simp]: "compare_values None v = None"
  by (simp add: compare_values_def)

lemma eval_holds_on: "no_floats r p \<Longrightarrow> eval p r = holds_on r p"
proof (cases "resolve_path r (p_field p)")
  case None
  then show ?thesis
    by (cases "p_op p")
      (auto simp: eval_def holds_on_def Let_def list_ex_iff split: json.splits)
next
  case (Some a)
  moreover assume "no_floats r p"
  ultimately show ?thesis
    by (simp add: no_floats_def holds_on_def eval_op_holds [OF Some])
qed

lemma passes_holds_on:
  "(\<forall>p \<in> set (f_all f @ f_any f). no_floats r p)
   \<Longrightarrow> passes f r =
     ((\<forall>p \<in> set (f_all f). holds_on r p) \<and> (f_any f = [] \<or> (\<exists>p \<in> set (f_any f). holds_on r p)))"
  by (auto simp: passes_def list_all_iff list_ex_iff eval_holds_on)

text \<open>
  The filter keeps exactly the records, in order, on which every \<open>all\<close> predicate and,
  when there are any, one \<open>any\<close> predicate holds by value (integers of any width as
  integers, everything else structurally); it forwards no empty batch, and a predicate on
  a field that is not there holds only for \<open>ne\<close>.  No operand is a float.
\<close>

theorem filter_keeps_exactly:
  assumes "\<forall>r \<in> set (b_records b). \<forall>p \<in> set (f_all f @ f_any f). no_floats r p"
  shows "\<exists>kept. kept = filter (\<lambda>r. (\<forall>p \<in> set (f_all f). holds_on r p)
             \<and> (f_any f = [] \<or> (\<exists>p \<in> set (f_any f). holds_on r p))) (b_records b)
     \<and> filter_process f b
         = (Returned (Inr (if kept = [] then [] else [derive b (b_kind b) kept])), f)"
proof -
  have "filter (passes f) (b_records b)
      = filter (\<lambda>r. (\<forall>p \<in> set (f_all f). holds_on r p)
             \<and> (f_any f = [] \<or> (\<exists>p \<in> set (f_any f). holds_on r p))) (b_records b)"
    using assms by (intro filter_cong passes_holds_on) blast+
  then show ?thesis by (simp add: filter_process_def Let_def)
qed

definition sample_predicate :: predicate where
  "sample_predicate = \<lparr> p_field = ''value'', p_op = OpGte, p_value = JStr ''5'' \<rparr>"

definition sample_batch :: batch where
  "sample_batch = batch_new ''eth'' 1 (BlockRange 1 2) 0 Decoded
     [JObj [(''value'', JStr ''10'')], JObj [(''value'', JStr ''-7'')], JNull]"

theorem filter_keeps_exactly_witness:
  "\<exists>kept. kept = filter (\<lambda>r. (\<forall>p \<in> set [sample_predicate]. holds_on r p)
             \<and> ([] = ([] :: predicate list) \<or> (\<exists>p \<in> set []. holds_on r p))) (b_records sample_batch)
     \<and> filter_process \<lparr> f_all = [sample_predicate], f_any = [] \<rparr> sample_batch
         = (Returned (Inr (if kept = [] then [] else [derive sample_batch (b_kind sample_batch) kept])),
            \<lparr> f_all = [sample_predicate], f_any = [] \<rparr>)"
  using filter_keeps_exactly [of sample_batch "\<lparr> f_all = [sample_predicate], f_any = [] \<rparr>"]
  by (simp add: sample_batch_def sample_predicate_def no_floats_def integral_def is_float_def
      resolve_path_def)

text \<open>
  The documented numeric comparison does not cover floats: they are compared as if
  their rendering were an integer, so the longer text wins and 1.5 passes \<open>gt 10\<close>.
\<close>

theorem float_compares_by_length:
  "eval \<lparr> p_field = ''v'', p_op = OpGt, p_value = JNum (NPos 10) \<rparr>
     (JObj [(''v'', JNum (NFloat ''1.5''))])"
proof -
  have "char_of (49 :: nat) = CHR ''1''" "char_of (48 :: nat) = CHR ''0''"
    using char_of_char [where 'a = nat, of "CHR ''1''"] char_of_char [where 'a = nat, of "CHR ''0''"]
    by (simp_all del: char_of_char)
  then have "show_u64 10 = ''10''"
    by (simp add: show_u64_def) (subst show_nat.simps, simp add: digit_char_def show_nat.simps)
  then show ?thesis
    by (simp add: eval_def resolve_path_def compare_values_def num_str_def cmp_decimal_def
        split_sign_def strip_prefix_def trim_start_char_def cmp_magnitude_def compare_def)
qed

end
