(* ===== verification/Whales.thy ===== *)
theory Whales
  imports AbiDecoder FilterModule
begin

text \<open>
  A decoder followed by a filter, the branch that selects logs by the value of one of their
  parameters: it keeps exactly the logs whose parameter, as the ABI library decoded it,
  satisfies the comparison as an integer, although it travels as a decimal string of up to 78
  digits.
\<close>

section \<open>What the library decoded\<close>

definition library_values :: "alloy \<Rightarrow> abi_event \<Rightarrow> string \<Rightarrow> json \<Rightarrow> (dyn_val list \<times> dyn_val list) res" where
  "library_values A e t r =
     and_then (push_topics A r [''topic1'', ''topic2'', ''topic3''] [t]) (\<lambda>topics.
     and_then (hex_decode A (trim_start_str ''0x'' (unwrap_or ''0x'' (jget_str ''data'' r)))) (\<lambda>data.
       decode_log_parts A e topics data))"

definition named_value :: "event_input list \<Rightarrow> dyn_val list \<times> dyn_val list \<Rightarrow> string \<Rightarrow> dyn_val option" where
  "named_value inputs vals name =
     Option.bind (map_of (zip (param_keys 0 inputs) [0..<length inputs]) name)
       (value_of_input inputs (fst vals) (snd vals))"

definition log_param :: "alloy \<Rightarrow> decoder \<Rightarrow> string \<Rightarrow> json \<Rightarrow> dyn_val option" where
  "log_param A d name r =
     (case jget_str ''topic0'' r of
        None \<Rightarrow> None
      | Some s \<Rightarrow>
          (case parse_b256 A s of
             Inl m \<Rightarrow> None
           | Inr t \<Rightarrow>
               (case map_of (by_topic0 d) t of
                  None \<Rightarrow> None
                | Some e \<Rightarrow>
                    (case library_values A e t r of
                       Inl m \<Rightarrow> None | Inr vals \<Rightarrow> named_value (ev_inputs e) vals name))))"

fun dyn_int :: "dyn_val \<Rightarrow> int option" where
  "dyn_int (DUint u) = Some (int u)"
| "dyn_int (DInt i) = Some i"
| "dyn_int _ = None"

lemma pair_params_named:
  assumes "distinct (param_keys 0 inputs)"
  shows "map_of (pair_params A 0 inputs ix body []) name
       = map_option (dyn_to_json A) (named_value inputs (ix, body) name)"
proof (cases "name \<in> set (param_keys 0 inputs)")
  case True
  then obtain k where k: "k < length inputs" "param_keys 0 inputs ! k = name"
    by (auto simp: in_set_conv_nth)
  have "map_of (zip (param_keys 0 inputs) [0..<length inputs]) name = Some k"
    using map_of_zip_nth [of "param_keys 0 inputs" "[0..<length inputs]" k] assms k by simp
  moreover have "map_of (pair_params A 0 inputs ix body []) (param_keys 0 inputs ! k)
      = map_option (dyn_to_json A) (value_of_input inputs ix body k)"
    using assms k(1) by (intro pair_params_nth) simp_all
  ultimately show ?thesis using k by (simp add: named_value_def)
next
  case False
  then have none: "map_of (zip (param_keys 0 inputs) [0..<length inputs]) name = None"
    by (simp add: map_of_zip_is_None)
  show ?thesis unfolding named_value_def none using False by (simp add: pair_params_other)
qed

lemma decode_known_values:
  assumes "decode_known A chain r t e = Inr (Some out)"
  obtains ix body where "library_values A e t r = Inr (ix, body)"
    "out = obj (decoded_fields chain r e (pair_params A 0 (ev_inputs e) ix body []))"
proof -
  let ?ts = "push_topics A r [''topic1'', ''topic2'', ''topic3''] [t]"
  let ?data = "hex_decode A (trim_start_str ''0x'' (unwrap_or ''0x'' (jget_str ''data'' r)))"
  have "\<exists>vals. library_values A e t r = Inr vals
     \<and> out = obj (decoded_fields chain r e (pair_params A 0 (ev_inputs e) (fst vals) (snd vals) []))"
    using assms
    by (cases ?ts; cases ?data; cases "decode_log_parts A e (projr ?ts) (projr ?data)")
      (auto simp: decode_known_def library_values_def simp del: push_topics.simps)
  then show ?thesis using that by force
qed

definition named_once :: "decoder \<Rightarrow> bool" where
  "named_once d = list_all (\<lambda>(t, e). distinct (param_keys 0 (ev_inputs e))) (by_topic0 d)"

lemma decoded_param:
  assumes "decode_record A d chain r = Inr (Some out)" "d_on_undecodable d = Drop" "named_once d"
    and "CHR ''.'' \<notin> set name"
  shows "resolve_path out (''params.'' @ name) = map_option (dyn_to_json A) (log_param A d name r)"
proof -
  obtain s t e where r: "jget_str ''topic0'' r = Some s" "parse_b256 A s = Inr t"
      "map_of (by_topic0 d) t = Some e" "decode_known A chain r t e = Inr (Some out)"
    using assms(1,2) by (auto simp: decode_record_def undecodable_def split: option.splits sum.splits)
  obtain ix body where v: "library_values A e t r = Inr (ix, body)"
      "out = obj (decoded_fields chain r e (pair_params A 0 (ev_inputs e) ix body []))"
    using decode_known_values [OF r(4)] .
  have "distinct (param_keys 0 (ev_inputs e))"
    using assms(3) map_of_SomeD [OF r(3)] by (auto simp: named_once_def list_all_iff)
  note named = pair_params_named [OF this, of A ix body name]
  have "split_char (CHR ''.'') (''params'' @ CHR ''.'' # name) = [''params'', name]"
    using assms(4) by (subst split_char_append) (simp_all add: split_char_single)
  then have "resolve_path out (''params.'' @ name) = map_of (pair_params A 0 (ev_inputs e) ix body []) name"
    by (simp add: resolve_path_def v(2) split: option.split)
  then show ?thesis using r(1-3) v(1) named by (simp add: log_param_def)
qed

section \<open>The branch\<close>

fun int_rel :: "op \<Rightarrow> int \<Rightarrow> int \<Rightarrow> bool" where
  "int_rel OpEq a b = (a = b)"
| "int_rel OpNe a b = (a \<noteq> b)"
| "int_rel OpGt a b = (a > b)"
| "int_rel OpGte a b = (a \<ge> b)"
| "int_rel OpLt a b = (a < b)"
| "int_rel OpLte a b = (a \<le> b)"
| "int_rel OpIn a b = False"

fun_cases dyn_int_SomeE: "dyn_int v = Some x"

lemma dyn_int_json: "dyn_int v = Some x \<Longrightarrow> \<not> is_float (dyn_to_json A v) \<and> int_of_json (dyn_to_json A v) = Some x"
  by (erule dyn_int_SomeE) (auto simp: is_float_def int_of_json_def)

definition param_passes :: "alloy \<Rightarrow> decoder \<Rightarrow> string \<Rightarrow> op \<Rightarrow> int \<Rightarrow> json \<Rightarrow> bool" where
  "param_passes A d name rel n r =
     (case Option.bind (log_param A d name r) dyn_int of None \<Rightarrow> False | Some x \<Rightarrow> int_rel rel x n)"

lemma eval_param:
  assumes "decode_record A d chain r = Inr (Some out)" "d_on_undecodable d = Drop" "named_once d"
    and "CHR ''.'' \<notin> set name" "case log_param A d name r of None \<Rightarrow> True | Some v \<Rightarrow> dyn_int v \<noteq> None"
    and "integral v" "int_of_json v = Some n" "rel \<noteq> OpNe" "rel \<noteq> OpIn"
  shows "eval \<lparr> p_field = ''params.'' @ name, p_op = rel, p_value = v \<rparr> out = param_passes A d name rel n r"
proof -
  let ?p = "\<lparr> p_field = ''params.'' @ name, p_op = rel, p_value = v \<rparr>"
  note path = decoded_param [OF assms(1-4)]
  show ?thesis
  proof (cases "log_param A d name r")
    case None
    then have "eval ?p out = holds_on out ?p" using path assms(6) by (intro eval_holds_on) (simp add: no_floats_def)
    then show ?thesis using None path assms(8) by (simp add: holds_on_def param_passes_def)
  next
    case (Some w)
    then obtain x where x: "dyn_int w = Some x" using assms(5) by auto
    note j = dyn_int_json [OF x, of A]
    have "eval ?p out = op_holds rel (dyn_to_json A w) v"
      using eval_op_holds [of out ?p "dyn_to_json A w"] path Some j assms(6) by simp
    also have "\<dots> = int_rel rel x n"
      using j assms(7-9) by (cases rel) (simp_all add: values_agree_def values_ordered_def)
    finally show ?thesis using Some x by (simp add: param_passes_def)
  qed
qed

fun sent :: "batch list res call \<times> 'p \<Rightarrow> batch list" where
  "sent (Returned (Inr outs), p) = outs"
| "sent _ = []"

definition decoding :: "alloy \<Rightarrow> decoder \<Rightarrow> u64 \<Rightarrow> json \<Rightarrow> json option" where
  "decoding A d chain r = (case decode_record A d chain r of Inr x \<Rightarrow> x | Inl m \<Rightarrow> None)"

lemma filter_decoded:
  assumes "map_res (decode_record A d chain) rs = Inr xs" "d_on_undecodable d = Drop" "named_once d"
    and "CHR ''.'' \<notin> set name"
    and "\<forall>r \<in> set rs. case log_param A d name r of None \<Rightarrow> True | Some v \<Rightarrow> dyn_int v \<noteq> None"
    and "integral v" "int_of_json v = Some n" "rel \<noteq> OpNe" "rel \<noteq> OpIn"
  shows "filter (eval \<lparr> p_field = ''params.'' @ name, p_op = rel, p_value = v \<rparr>) (List.map_filter id xs)
       = List.map_filter (decoding A d chain) (filter (param_passes A d name rel n) rs)"
  using assms(1,5)
proof (induction rs arbitrary: xs)
  case (Cons r rs)
  then obtain x ys where x: "decode_record A d chain r = Inr x" "xs = x # ys"
      "map_res (decode_record A d chain) rs = Inr ys"
    by (auto simp: map_res_Inr_iff list_all2_Cons1)
  note IH = Cons.IH [OF x(3)]
  show ?case
  proof (cases x)
    case None
    then have "log_param A d name r = None \<or> \<not> param_passes A d name rel n r \<or> decoding A d chain r = None"
      using x(1) by (simp add: decoding_def)
    then show ?thesis using None x IH Cons.prems(2)
      by (auto simp: List.map_filter_simps decoding_def)
  next
    case (Some out)
    have "eval \<lparr> p_field = ''params.'' @ name, p_op = rel, p_value = v \<rparr> out = param_passes A d name rel n r"
      using x(1) Some Cons.prems(2) assms by (intro eval_param) simp_all
    then show ?thesis using Some x IH Cons.prems(2)
      by (auto simp: List.map_filter_simps decoding_def)
  qed
qed (simp add: List.map_filter_simps)


definition sample_logs :: batch where
  "sample_logs = batch_new ''eth'' 1 (BlockRange 1 9) 0 Log [sample_log, JObj [(''topic0'', JStr ''ee'')], sample_log]"


end
