(* ===== verification/TestChaos.thy ===== *)
theory TestChaos
  imports Failures
begin

text \<open>
  The module that misbehaves on command: \<open>modules/test-chaos/src/lib.rs\<close>, and what the host
  makes of each misbehaviour.  Memory is a parameter: \<open>fits n\<close> says whether \<open>n\<close> blocks of one
  MiB fit under the store's limit.  Its log lines and its metric are left out.
\<close>

section \<open>The module\<close>

record chaos_cfg =
  cx_trap_on_batch :: "u64 option"
  cx_error_on_batch :: "u64 option"
  cx_error_always :: bool
  cx_loop_on_batch :: "u64 option"
  cx_alloc_on_batch :: "u64 option"
  cx_alloc_bytes :: nat

record chaos =
  cx_cfg :: chaos_cfg
  cx_calls :: u64

definition chaos_flag :: "json \<Rightarrow> string \<Rightarrow> bool" where
  "chaos_flag config key = unwrap_or False (jget_bool key config)"

text \<open>\<open>as usize\<close> keeps 32 bits in the guest.\<close>

definition chaos_init :: "json \<Rightarrow> chaos res" where
  "chaos_init config =
     (if chaos_flag config ''init_error'' then Inl ''chaos: init failed on purpose''
      else Inr \<lparr> cx_cfg =
          \<lparr> cx_trap_on_batch = jget_u64 ''trap_on_batch'' config,
            cx_error_on_batch = jget_u64 ''error_on_batch'' config,
            cx_error_always = chaos_flag config ''error_always'',
            cx_loop_on_batch = jget_u64 ''loop_on_batch'' config,
            cx_alloc_on_batch = jget_u64 ''alloc_on_batch'' config,
            cx_alloc_bytes = as_usize (unwrap_or (2 ^ 30) (jget_u64 ''alloc_bytes'' config)) \<rparr>,
        cx_calls = 0 \<rparr>)"

text \<open>Blocks of one MiB until the sum reaches the configured size.\<close>

definition chaos_blocks :: "nat \<Rightarrow> nat" where
  "chaos_blocks bytes = (bytes + (2 ^ 20 - 1)) div 2 ^ 20"

definition chaos_tag :: "u64 \<Rightarrow> json \<Rightarrow> json" where
  "chaos_tag n r = set_field ''chaos_calls'' (jnat n) r"

definition chaos_process :: "(nat \<Rightarrow> bool) \<Rightarrow> chaos \<Rightarrow> batch \<Rightarrow> batch list res call \<times> chaos" where
  "chaos_process fits st b =
     (let n = cx_calls st + 1; st' = st \<lparr> cx_calls := n \<rparr>; c = cx_cfg st
      in if cx_error_always c \<or> cx_error_on_batch c = Some n then
           (Returned (Inl (''chaos: refusing batch '' @ show_u64 n @ '' on purpose'')), st')
         else if cx_trap_on_batch c = Some n then (Trapped (''chaos: trap on call '' @ show_u64 n), st')
         else if cx_loop_on_batch c = Some n then (Spins, st')
         else if cx_alloc_on_batch c = Some n \<and> \<not> fits (chaos_blocks (cx_alloc_bytes c)) then
           (Trapped ''memory limit'', st')
         else (Returned (Inr [derive b (b_kind b) (map (chaos_tag n) (b_records b))]), st'))"

interpretation chaos: processor chaos_init "chaos_process fits" for fits
  by unfold_locales (auto simp: chaos_process_def Let_def is_control_def split: if_splits)

section \<open>What the host makes of it\<close>

lemma hosted_stage_dies:
  assumes "\<not> is_control b" "process p b = (r, p')" "r = Trapped m \<or> r = Spins"
  shows "\<exists>e. hosted_stage process instantiate b [Some p] = (Joined (Inl e), [])"
  using assms by (auto simp: hosted_stage_def host_process_def checkout_def guest_process_def
      simp del: encoding_as_u8.simps)

text \<open>
  Which misbehaviour costs an instance.  On its n-th call an instance that refuses the batch
  stays in the pool with its counter at n; one that panics, spins past the deadline or hits
  the memory limit is gone, so that the next call starts a fresh one whose counter is 1; any
  other call tags every record with n.  In no case does the host itself fail to answer.
\<close>

theorem misbehaviour_is_contained:
  assumes "\<not> is_control b" "n = cx_calls st + 1" "c = cx_cfg st" "chaos_init config = Inr fresh"
    and "hosted_stage (chaos_process fits) (\<lambda>w. (Inr (Some fresh), w)) b [Some st] = (r, pool)"
  shows "if cx_error_always c \<or> cx_error_on_batch c = Some n then
      (\<exists>e. r = Joined (Inl e)) \<and> pool = [Some (st \<lparr> cx_calls := n \<rparr>)]
    else if cx_trap_on_batch c = Some n \<or> cx_loop_on_batch c = Some n
        \<or> (cx_alloc_on_batch c = Some n \<and> \<not> fits (chaos_blocks (cx_alloc_bytes c))) then
      (\<exists>e. r = Joined (Inl e)) \<and> pool = []
      \<and> checkout (\<lambda>w. (Inr (Some fresh), w)) pool () = (Inr (Some fresh), [], ()) \<and> cx_calls fresh + 1 = 1
    else r = Joined (Inr [derive b (b_kind b) (map (chaos_tag n) (b_records b))])
      \<and> pool = [Some (st \<lparr> cx_calls := n \<rparr>)]"
proof -
  let ?inst = "\<lambda>w. (Inr (Some fresh), w)"
  have fresh: "cx_calls fresh = 0" using assms(4) by (auto simp: chaos_init_def split: if_splits)
  obtain q st' where p: "chaos_process fits st b = (q, st')" by (cases "chaos_process fits st b")
  show ?thesis
  proof (cases "\<exists>m. q = Trapped m \<or> q = Spins")
    case True
    then have "\<exists>e. r = Joined (Inl e) \<and> pool = []"
      using hosted_stage_dies [where process = "chaos_process fits" and instantiate = ?inst, OF assms(1) p] assms(5) by auto
    then show ?thesis using True p fresh assms(2,3)
      by (auto simp: chaos_process_def Let_def checkout_def split: if_splits)
  next
    case False
    then obtain x where q: "q = Returned x" by (cases q) auto
    have "r = Joined (case x of Inl e \<Rightarrow> Inl (''module process error: '' @ e) | Inr outs \<Rightarrow> Inr outs)" "pool = [Some st']"
      using hosted_stage_returns [where process = "chaos_process fits" and instantiate = ?inst, OF assms(1) p [unfolded q]] assms(5) by simp_all
    then show ?thesis using p q assms(2,3)
      by (auto simp: chaos_process_def Let_def split: if_splits)
  qed
qed

definition chaos_conf :: json where
  "chaos_conf = JObj [(''trap_on_batch'', jnat 1)]"

theorem misbehaviour_is_contained_witness:
  "\<exists>st. chaos_init chaos_conf = Inr st
     \<and> snd (hosted_stage (chaos_process (\<lambda>n. True)) (\<lambda>w. (Inr (Some st), w)) demo_batch [Some st]) = []
     \<and> cx_calls st + 1 = 1"
proof -
  obtain st where i: "chaos_init chaos_conf = Inr st" "cx_calls st = 0" "cx_error_always (cx_cfg st) = False"
    "cx_error_on_batch (cx_cfg st) = None" "cx_trap_on_batch (cx_cfg st) = Some 1"
    by (simp add: chaos_init_def chaos_conf_def chaos_flag_def jget_bool_def jget_u64_def)
  have "\<not> is_control demo_batch" by (simp add: demo_batch_def is_control_def)
  from misbehaviour_is_contained [where fits = "\<lambda>n. True" and st = st, OF this refl refl i(1) prod.collapse [symmetric]]
  show ?thesis using i by simp
qed

end
