(* ===== verification/Records.thy ===== *)
theory Records
  imports TestChaos FilterModule
begin

text \<open>
  The type invariant of the data plane: every record is a JSON value whose objects are in key
  order, as the library's map type keeps them.  The source builds only such records and every
  processor module keeps them, so that a sink behind any of them may rely on it.
\<close>

section \<open>Building well-formed values\<close>

lemma json_ok_insert: "json_ok (JObj m) \<Longrightarrow> json_ok v \<Longrightarrow> json_ok (JObj (btm_insert k v m))"
  using set_btm_insert [of k v m] by (auto simp: list_all_iff)

lemma json_ok_fold:
  "json_ok (JObj m) \<Longrightarrow> \<forall>(k, v) \<in> set kvs. json_ok v \<Longrightarrow> json_ok (JObj (fold (\<lambda>(k, v) m. btm_insert k v m) kvs m))"
proof (induction kvs arbitrary: m)
  case (Cons x kvs)
  obtain k v where x: "x = (k, v)" by (cases x)
  have "json_ok (JObj (btm_insert k v m))" using Cons.prems x by (intro json_ok_insert) auto
  then show ?case using Cons.IH Cons.prems(2) x by simp
qed simp

lemma json_ok_obj: "\<forall>(k, v) \<in> set kvs. json_ok v \<Longrightarrow> json_ok (obj kvs)"
  unfolding obj_def btm_of_list_def by (rule json_ok_fold) simp

lemma json_ok_jget: "json_ok v \<Longrightarrow> jget k v = Some w \<Longrightarrow> json_ok w"
  by (cases v) (auto simp: list_all_iff dest!: map_of_SomeD)

lemma json_ok_array: "json_ok v \<Longrightarrow> jget_array k v = Some xs \<Longrightarrow> x \<in> set xs \<Longrightarrow> json_ok x"
  by (cases "jget k v") (auto simp: jget_array_def list_all_iff dest: json_ok_jget elim: as_array.elims)

lemma json_ok_set_field: "json_ok r \<Longrightarrow> json_ok v \<Longrightarrow> json_ok (set_field k v r)"
proof (cases r)
  case (JObj m)
  then show "json_ok r \<Longrightarrow> json_ok v \<Longrightarrow> json_ok (set_field k v r)" using json_ok_insert [of m v k] by simp
qed simp_all

lemma json_ok_dyn: "json_ok (dyn_to_json A v)"
  by (induction A v rule: dyn_to_json.induct) (auto simp: list_all_iff)

section \<open>The source's records\<close>

lemma json_ok_or_insert: "json_ok (JObj m) \<Longrightarrow> json_ok v \<Longrightarrow> json_ok (JObj (or_insert k v m))"
  by (simp add: or_insert_def json_ok_insert del: json_ok.simps)

lemma json_ok_join: "json_ok log \<Longrightarrow> json_ok (join_block join_ts join_hash blocks log)"
proof (cases log)
  case (JObj m)
  assume "json_ok log"
  then show ?thesis
    by (auto simp: join_block_def JObj Let_def jnat_def simp del: json_ok.simps(2)
        split: option.splits bool.splits intro!: json_ok_or_insert)
qed (auto simp: join_block_def split: option.splits)

lemma json_ok_ingest:
  "json_ok o1 \<Longrightarrow> \<forall>l \<in> set (snd st). json_ok l \<Longrightarrow> \<forall>l \<in> set (snd (ingest o1 st)). json_ok l"
  by (auto simp: ingest_def split: prod.splits option.splits dest: json_ok_array)

lemma json_ok_ingest_all:
  "\<forall>x \<in> set arr. json_ok x \<Longrightarrow> \<forall>l \<in> set (snd st). json_ok l \<Longrightarrow> \<forall>l \<in> set (snd (fold ingest arr st)). json_ok l"
proof (induction arr arbitrary: st)
  case (Cons x arr)
  then have "\<forall>l \<in> set (snd (ingest x st)). json_ok l" by (intro json_ok_ingest) simp_all
  then show ?case using Cons by simp
qed simp

lemma json_ok_ingest_data: "json_ok d \<Longrightarrow> \<forall>l \<in> set (snd (ingest_data d)). json_ok l"
proof (cases d)
  case (JArr arr)
  assume "json_ok d"
  then show ?thesis using json_ok_ingest_all [of arr "([], [])"] by (simp add: JArr ingest_data_def list_all_iff)
next
  case (JObj m)
  assume "json_ok d"
  then show ?thesis using json_ok_ingest [of d "([], [])"] by (simp add: JObj ingest_data_def)
qed (simp_all add: ingest_data_def)

lemma json_ok_parse_response:
  assumes "json_ok body" "r \<in> set (r_records (parse_response body lo ts h))"
  shows "json_ok r"
proof -
  let ?d = "unwrap_or JNull (jget ''data'' body)"
  have "json_ok ?d" using assms(1) json_ok_jget [of body "''data''"] by (cases "jget ''data'' body") auto
  then have "\<forall>l \<in> set (snd (ingest_data ?d)). json_ok l" by (rule json_ok_ingest_data)
  then show ?thesis using assms(2) json_ok_join
    by (auto simp: parse_response_def Let_def case_prod_beta)
qed

section \<open>Processors keep records well-formed\<close>

definition records_ok :: "batch \<Rightarrow> bool" where
  "records_ok b = list_all json_ok (b_records b)"

lemma records_ok_derive [simp]: "records_ok (derive b k rs) = list_all json_ok rs"
  by (simp add: records_ok_def)

locale record_processor = processor +
  assumes keeps_records: "process p b = (Returned (Inr outs), p') \<Longrightarrow> records_ok b \<Longrightarrow> out \<in> set outs \<Longrightarrow> records_ok out"
begin

lemma hosted_keeps_records:
  assumes "hosted_stage process instantiate b pool = (Joined (Inr outs), pool')" "records_ok b" "out \<in> set outs"
  shows "records_ok out"
proof -
  obtain i pool1 w where c: "checkout instantiate pool () = (Inr i, pool1, w)"
    using assms(1) by (cases "checkout instantiate pool ()"; cases "fst (checkout instantiate pool ())")
      (auto simp: hosted_stage_def host_process_def)
  show ?thesis
  proof (cases "is_control b")
    case True
    then have "guest_process process Inr id i (to_wire id b) = (Returned (Inr [to_wire id b]), i)"
      by (simp add: guest_process_def)
    then have "outs = [b]" using assms(1) c decode_outputs_wire [of "[b]"]
      by (simp add: hosted_stage_def host_process_def)
    then show ?thesis using assms(2,3) by simp
  next
    case data: False
    show ?thesis
    proof (cases i)
      case None
      then show ?thesis using assms(1) c data
        by (simp add: hosted_stage_def host_process_def guest_process_def del: encoding_as_u8.simps)
    next
      case (Some p)
      obtain r p' where r: "process p b = (r, p')" by (cases "process p b")
      then have "r = Returned (Inr outs)" using assms(1) c data Some decode_outputs_wire
        by (cases r; cases "case r of Returned x \<Rightarrow> x | _ \<Rightarrow> Inl []")
          (auto simp: hosted_stage_def host_process_def guest_process_def simp del: encoding_as_u8.simps)
      then show ?thesis using keeps_records r assms(2,3) by blast
    qed
  qed
qed

lemma stage_keeps_records:
  "\<forall>b \<in> set bs. records_ok b \<Longrightarrow> out \<in> set (stage_outputs (hosted_stage process instantiate) bs pool) \<Longrightarrow> records_ok out"
proof (induction bs arbitrary: pool)
  case (Cons b bs)
  obtain r pool' where r: "hosted_stage process instantiate b pool = (r, pool')"
    by (cases "hosted_stage process instantiate b pool")
  show ?case
  proof (cases "\<exists>outs. r = Joined (Inr outs)")
    case True
    then obtain outs where o: "r = Joined (Inr outs)" by blast
    then have "out \<in> set (propagate b outs) \<or> out \<in> set (stage_outputs (hosted_stage process instantiate) bs pool')"
      using Cons.prems(2) r by auto
    then show ?thesis
    proof
      assume "out \<in> set (propagate b outs)"
      then have "out \<in> set outs \<or> out = derive b (b_kind b) []" by (auto simp: propagate_def split: if_splits)
      then show ?thesis using hosted_keeps_records [OF r [unfolded o]] Cons.prems(1) by auto
    qed (use Cons in auto)
  next
    case False
    then have "out \<in> set (stage_outputs (hosted_stage process instantiate) bs pool')"
      using Cons.prems(2) r by (cases r) (auto split: sum.splits)
    then show ?thesis using Cons by auto
  qed
qed simp

end

lemma decode_known_obj:
  assumes "decode_known A chain r t e = Inr (Some out)"
  shows "\<exists>ix body. out = obj (decoded_fields chain r e (pair_params A 0 (ev_inputs e) ix body []))"
proof -
  obtain parts where "out = obj (decoded_fields chain r e (pair_params A 0 (ev_inputs e) (fst parts) (snd parts) []))"
    using assms by (auto simp: decode_known_def case_prod_beta simp del: push_topics.simps)
  then show ?thesis by blast
qed

lemma json_ok_decoded:
  assumes "decode_record A d chain r = Inr (Some out)" "json_ok r"
  shows "json_ok out"
proof -
  have params: "json_ok (JObj m) \<Longrightarrow> json_ok (JObj (pair_params A i inputs ix body m))" for i inputs ix body m
  proof (induction inputs arbitrary: i ix body m)
    case (Cons inp rest)
    then show ?case
      by (simp add: Let_def json_ok_insert json_ok_dyn del: json_ok.simps(2) split: list.split)
  qed simp
  have fields: "\<forall>(k, v) \<in> set (decoded_fields chain r e (pair_params A 0 inputs ix body [])). json_ok v" for e inputs ix body
    using params [of "[]" 0 inputs ix body] by (auto simp: decoded_fields_def opt_field_def jnat_def split: option.splits)
  show ?thesis
    using assms json_ok_obj [OF fields]
    by (auto simp: decode_record_def undecodable_def dest: decode_known_obj split: option.splits sum.splits on_undecodable.splits)
qed

interpretation decoder_records: record_processor "decoder_from_config A" "decoder_process A" for A
proof (unfold_locales, goal_cases)
  case (1 d b outs d' out)
  then obtain xs where xs: "map_res (decode_record A d (b_chain_id b)) (b_records b) = Inr xs"
    "out = derive b Decoded (List.map_filter id xs)"
    by (auto simp: decoder_process_def Let_def split: if_splits)
  have "json_ok x" if mem: "Some x \<in> set xs" for x
  proof -
    obtain i where i: "i < length xs" "xs ! i = Some x" using mem by (auto simp: in_set_conv_nth)
    have "list_all2 (\<lambda>r y. decode_record A d (b_chain_id b) r = Inr y) (b_records b) xs"
      using xs(1) by (simp add: map_res_Inr_iff)
    then have "b_records b ! i \<in> set (b_records b)" "decode_record A d (b_chain_id b) (b_records b ! i) = Inr (Some x)"
      using i by (auto simp: list_all2_conv_all_nth)
    then show ?thesis using json_ok_decoded 1(2) by (auto simp: records_ok_def list_all_iff)
  qed
  then show ?case using xs(2) by (auto simp: list_all_iff List.map_filter_def)
qed

interpretation filter_records: record_processor filter_from_config filter_process
  by unfold_locales (auto simp: filter_process_def Let_def records_ok_def list_all_iff split: if_splits)

interpretation chaos_records: record_processor chaos_init "chaos_process fits" for fits
  by unfold_locales (auto simp: chaos_process_def chaos_tag_def Let_def records_ok_def list_all_iff jnat_def
      intro!: json_ok_set_field split: if_splits)



end
