(* ===== verification/Enrich.thy ===== *)
theory Enrich
  imports Records
begin

text \<open>
  The example of a custom processor: \<open>examples/modules/enrich/src/lib.rs\<close>.  It adds an estimate
  in dollars and a flag for large transfers to decoded records.  The floating-point type
  \<open>f64\<close> is a parameter, with the five operations that the module uses.
\<close>

section \<open>The module\<close>

record 'f floats =
  fl_of_number :: "number \<Rightarrow> 'f"
  fl_parse :: "string \<Rightarrow> 'f option"
  fl_million :: 'f
  fl_div :: "'f \<Rightarrow> 'f \<Rightarrow> 'f"
  fl_le :: "'f \<Rightarrow> 'f \<Rightarrow> bool"
  fl_show2 :: "'f \<Rightarrow> string" \<comment> \<open>two digits after the point\<close>

definition json_as_f64 :: "'f floats \<Rightarrow> json \<Rightarrow> 'f option" where
  "json_as_f64 F v = (case v of JNum n \<Rightarrow> Some (fl_of_number F n) | _ \<Rightarrow> None)"

definition enrich_init :: "'f floats \<Rightarrow> json \<Rightarrow> 'f res" where
  "enrich_init F config = Inr (unwrap_or (fl_million F) (Option.bind (jget ''whale_usd'' config) (json_as_f64 F)))"

text \<open>The decoded value is a decimal string in units of a millionth.\<close>

definition usd_of :: "'f floats \<Rightarrow> json \<Rightarrow> 'f option" where
  "usd_of F r =
     map_option (\<lambda>raw. fl_div F raw (fl_million F))
       (Option.bind (Option.bind (Option.bind (jget ''params'' r) (jget ''value'')) as_str) (fl_parse F))"

definition enrich_record :: "'f floats \<Rightarrow> 'f \<Rightarrow> json \<Rightarrow> json" where
  "enrich_record F whale_usd r =
     (case (usd_of F r, as_object r) of
        (Some usd, Some m) \<Rightarrow>
          JObj (btm_insert ''whale'' (JBool (fl_le F whale_usd usd))
                 (btm_insert ''usd_estimate'' (JStr (fl_show2 F usd)) m))
      | _ \<Rightarrow> r)"

definition enrich_process :: "'f floats \<Rightarrow> 'f \<Rightarrow> batch \<Rightarrow> batch list res call \<times> 'f" where
  "enrich_process F whale_usd b =
     (Returned (Inr [derive b (b_kind b) (map (enrich_record F whale_usd) (b_records b))]), whale_usd)"

interpretation enrich: processor "enrich_init F" "enrich_process F" for F
  by unfold_locales (auto simp: enrich_process_def is_control_def)

lemma json_ok_enriched: "json_ok r \<Longrightarrow> json_ok (enrich_record F t r)"
  by (cases r) (auto simp: enrich_record_def json_ok_insert simp del: json_ok.simps(2) split: option.split
      intro!: json_ok_insert)

interpretation enrich_records: record_processor "enrich_init F" "enrich_process F" for F
  by unfold_locales (auto simp: enrich_process_def records_ok_def list_all_iff json_ok_enriched)

section \<open>What it adds\<close>

lemma enriched_field:
  "json_ok r \<Longrightarrow> jget k (enrich_record F t r) =
     (case usd_of F r of
        None \<Rightarrow> jget k r
      | Some usd \<Rightarrow>
          if k = ''whale'' then Some (JBool (fl_le F t usd))
          else if k = ''usd_estimate'' then Some (JStr (fl_show2 F usd)) else jget k r)"
  by (cases r) (auto simp: enrich_record_def usd_of_def map_of_btm_insert btm_ok_insert split: option.split)

text \<open>
  What the module needs of the floating-point type: the order is a preorder, and reading a
  decimal string and dividing by a million keep it, as rounding to nearest does.
\<close>

definition monotone_floats :: "'f floats \<Rightarrow> bool" where
  "monotone_floats F =
     ((\<forall>x y z. fl_le F x y \<and> fl_le F y z \<longrightarrow> fl_le F x z)
      \<and> (\<forall>a b. dec_val a \<le> dec_val b \<and> list_all is_ascii_digit (a @ b) \<and> a \<noteq> [] \<and> b \<noteq> [] \<longrightarrow>
           (\<exists>x y. fl_parse F a = Some x \<and> fl_parse F b = Some y \<and> fl_le F x y))
      \<and> (\<forall>x y. fl_le F x y \<longrightarrow> fl_le F (fl_div F x (fl_million F)) (fl_div F y (fl_million F))))"

definition decoded_value :: "json \<Rightarrow> string option" where
  "decoded_value r = Option.bind (Option.bind (jget ''params'' r) (jget ''value'')) as_str"

text \<open>
  The flag respects the amounts although they are rounded: of two transfers of unsigned
  amounts, the larger one is flagged if the smaller one is; and no other field of a record
  changes.
\<close>

theorem whale_flag_monotone:
  assumes "monotone_floats F" "json_ok r" "json_ok q" "decoded_value r = Some a" "decoded_value q = Some b"
    and "a \<noteq> []" "b \<noteq> []" "list_all is_ascii_digit (a @ b)" "dec_val a \<le> dec_val b"
  shows "(jget ''whale'' (enrich_record F t r) = Some (JBool True) \<longrightarrow>
            jget ''whale'' (enrich_record F t q) = Some (JBool True))
     \<and> (\<forall>k. k \<noteq> ''whale'' \<longrightarrow> k \<noteq> ''usd_estimate'' \<longrightarrow> jget k (enrich_record F t q) = jget k q)"
proof -
  obtain x y where xy: "fl_parse F a = Some x" "fl_parse F b = Some y" "fl_le F x y"
    using assms(1,6-9) unfolding monotone_floats_def by blast
  let ?u = "fl_div F x (fl_million F)" and ?v = "fl_div F y (fl_million F)"
  have "usd_of F r = Some (fl_div F x (fl_million F))" "usd_of F q = Some (fl_div F y (fl_million F))"
    unfolding usd_of_def decoded_value_def [symmetric] assms(4,5) by (simp_all add: xy)
  moreover have "fl_le F t ?u \<Longrightarrow> fl_le F t ?v"
    using xy(3) assms(1) unfolding monotone_floats_def by blast
  ultimately show ?thesis by (simp add: enriched_field [OF assms(2)] enriched_field [OF assms(3)])
qed

text \<open>Exact arithmetic in millionths, as one such type.\<close>

definition micro :: "nat floats" where
  "micro = \<lparr> fl_of_number = (\<lambda>n. case n of NPos w \<Rightarrow> unat w * 10 ^ 6 | _ \<Rightarrow> 0),
     fl_parse = (\<lambda>s. if s \<noteq> [] \<and> list_all is_ascii_digit s then Some (dec_val s * 10 ^ 6) else None),
     fl_million = 10 ^ 12, fl_div = (\<lambda>x y. x * 10 ^ 6 div y), fl_le = (\<le>), fl_show2 = show_nat \<rparr>"

lemma micro_monotone: "monotone_floats micro"
  by (simp add: monotone_floats_def micro_def div_le_mono)

definition transfer :: "string \<Rightarrow> json" where
  "transfer v = JObj [(''params'', JObj [(''value'', JStr v)])]"

theorem whale_flag_monotone_witness:
  "jget ''whale'' (enrich_record micro 3 (transfer ''3'')) = Some (JBool True)
   \<and> jget ''whale'' (enrich_record micro 3 (transfer ''9'')) = Some (JBool True)"
proof -
  have d: "dec_val ''3'' = 3" "dec_val ''9'' = 9" "list_all is_ascii_digit (''3'' @ ''9'')" by code_simp+
  have ok: "json_ok (transfer v)" for v by (simp add: transfer_def btm_ok_def)
  have "usd_of micro (transfer ''3'') = Some 3"
    using d by (simp add: usd_of_def micro_def transfer_def)
  then have "jget ''whale'' (enrich_record micro 3 (transfer ''3'')) = Some (JBool True)"
    using enriched_field [OF ok, of "''whale''" micro 3 "''3''"] by (simp add: micro_def)
  then show ?thesis
    using whale_flag_monotone [OF micro_monotone ok ok, of "''3''" "''3''" "''9''" "''9''" 3] d
    by (simp add: transfer_def decoded_value_def)
qed

text \<open>The threshold defaults to one million dollars; 2.5 million units are 2.5 dollars.\<close>

lemma enrich_examples:
  "enrich_init F (JObj []) = Inr (fl_million F)"
  "enrich_record F t (JObj [(''params'', JNull)]) = JObj [(''params'', JNull)]"
  by (simp_all add: enrich_init_def enrich_record_def usd_of_def)

end
