(* ===== verification/ConfigProps.thy ===== *)
theory ConfigProps
  imports ConfigFacts
begin

text \<open>
  The properties of configuration loading: validation accepts exactly the well-formed
  pipelines, cycles are found and shown, documents with unknown keys or unresolvable
  secrets are refused, and no secret value is in an error about the document's shape.
\<close>

section \<open>Well-formed pipelines\<close>

definition producers :: "config \<Rightarrow> string set" where
  "producers c = src_name ` set (cfg_sources c) \<union> proc_name ` set (cfg_processors c)"

definition source_ok :: "source_cfg \<Rightarrow> bool" where
  "source_ok s =
     (src_type s = ''hypersync''
      \<and> (\<exists>ep. resolve_endpoint s chain_registry_builtin = Inr ep)
      \<and> (src_mode s = Backfill \<longrightarrow> src_to_block s \<noteq> None)
      \<and> (src_mode s = Live \<longrightarrow> src_to_block s = None)
      \<and> (\<forall>f t. src_from_block s = Some f \<longrightarrow> src_to_block s = Some t \<longrightarrow> f < t)
      \<and> (if reorg_enabled (src_reorg s)
         then reorg_window (src_reorg s) \<noteq> 0 \<and> reorg_window (src_reorg s) \<le> 10000
         else src_confirmations s \<noteq> 0 \<or> src_mode s = Backfill))"

definition sink_ok :: "config \<Rightarrow> sink_cfg \<Rightarrow> bool" where
  "sink_ok c s =
     (set (sink_connections s) \<subseteq> fst ` set (cfg_connections c)
      \<and> (\<forall>major. builtin_parts (sink_module s) = Some (''postgres'', major) \<longrightarrow>
           (\<exists>conn \<in> set (sink_connections s). jget_str ''connection'' (sink_config s) = Some conn)))"

definition config_ok :: "config \<Rightarrow> bool" where
  "config_ok c =
     (cfg_sources c \<noteq> [] \<and> cfg_sinks c \<noteq> []
      \<and> distinct (map fst (node_list c))
      \<and> (\<forall>s \<in> set (cfg_sources c). source_ok s)
      \<and> (\<forall>(n, ins) \<in> set (consumer_list c). ins \<noteq> [] \<and> set ins \<subseteq> producers c - {n})
      \<and> producers c \<subseteq> fst ` set (edge_list c)
      \<and> acyclic (set (edge_list c))
      \<and> (\<forall>(n, m) \<in> set (module_list c). \<forall>s. m = Builtin s \<longrightarrow> parse_builtin_ref s \<noteq> None)
      \<and> (\<forall>s \<in> set (cfg_sinks c). sink_ok c s)
      \<and> (\<forall>(n, conn) \<in> set (cfg_connections c). conn_type conn = Postgres \<longrightarrow> conn_dsn conn \<noteq> None))"

definition endpoint_of :: "source_cfg \<Rightarrow> resolved_endpoint option" where
  "endpoint_of s =
     (case resolve_endpoint s chain_registry_builtin of Inr ep \<Rightarrow> Some ep | Inl _ \<Rightarrow> None)"

definition with_endpoints :: "config \<Rightarrow> config" where
  "with_endpoints c =
     c \<lparr> cfg_sources := map (\<lambda>s. s \<lparr> src_resolved := endpoint_of s \<rparr>) (cfg_sources c) \<rparr>"

section \<open>The checks one by one\<close>

lemma fail_if_Inr [simp]: "fail_if b e = Inr u \<longleftrightarrow> \<not> b"
  by (simp add: fail_if_def)

lemma check_each_Inr [simp]: "check_each f xs = Inr u \<longleftrightarrow> (\<forall>x \<in> set xs. f x = Inr ())"
  by (induction xs) auto

lemma unique_nodes_Inr:
  "btm_ok m \<Longrightarrow> unique_nodes xs m = Inr m' \<longleftrightarrow>
     distinct (map fst xs) \<and> fst ` set xs \<inter> dom (map_of m) = {}
     \<and> m' = fold (\<lambda>(k, v) m. btm_insert k v m) xs m"
  by (induction xs m rule: unique_nodes.induct) (auto simp: dom_def)

lemma check_source_Inr:
  "check_source s = Inr s' \<longleftrightarrow> source_ok s \<and> s' = s \<lparr> src_resolved := endpoint_of s \<rparr>"
proof -
  have "check_mode s = Inr () \<longleftrightarrow> (src_mode s = Backfill \<longrightarrow> src_to_block s \<noteq> None)
      \<and> (src_mode s = Live \<longrightarrow> src_to_block s = None)"
    by (cases "src_mode s") (auto simp: check_mode_def)
  moreover have "check_range s = Inr () \<longleftrightarrow>
      (\<forall>f t. src_from_block s = Some f \<longrightarrow> src_to_block s = Some t \<longrightarrow> f < t)"
    by (auto simp: check_range_def not_le split: option.splits)
  moreover have "check_reorg s = Inr () \<longleftrightarrow> (if reorg_enabled (src_reorg s)
         then reorg_window (src_reorg s) \<noteq> 0 \<and> reorg_window (src_reorg s) \<le> 10000
         else src_confirmations s \<noteq> 0 \<or> src_mode s = Backfill)"
    by (cases "reorg_enabled (src_reorg s)") (simp_all add: check_reorg_def not_less)
  moreover have "check_source s = Inr s' \<longleftrightarrow> src_type s = ''hypersync''
      \<and> (\<exists>ep. resolve_endpoint s chain_registry_builtin = Inr ep
           \<and> s' = s \<lparr> src_resolved := Some ep \<rparr>)
      \<and> check_mode s = Inr () \<and> check_range s = Inr () \<and> check_reorg s = Inr ()"
    unfolding check_source_def by auto
  moreover have "(\<exists>ep. resolve_endpoint s chain_registry_builtin = Inr ep
           \<and> s' = s \<lparr> src_resolved := Some ep \<rparr>)
      \<longleftrightarrow> (\<exists>ep. resolve_endpoint s chain_registry_builtin = Inr ep)
          \<and> s' = s \<lparr> src_resolved := endpoint_of s \<rparr>"
    by (auto simp: endpoint_of_def)
  ultimately show ?thesis
    unfolding source_ok_def by blast
qed

lemma map_res_check_source:
  "map_res check_source ss = Inr ss' \<longleftrightarrow>
     (\<forall>s \<in> set ss. source_ok s) \<and> ss' = map (\<lambda>s. s \<lparr> src_resolved := endpoint_of s \<rparr>) ss"
  by (induction ss arbitrary: ss') (auto simp: check_source_Inr)

lemma node_kinds:
  assumes "distinct (map fst (node_list c))" "kinds = fold (\<lambda>(k, v) m. btm_insert k v m) (node_list c) []"
  shows "(\<exists>k. map_of kinds i = Some k \<and> k \<noteq> SinkNode) \<longleftrightarrow> i \<in> producers c"
    and "fst ` set kinds = fst ` set (node_list c)"
proof -
  have m: "map_of kinds = map_of (node_list c)"
    using assms map_of_rev_distinct [OF assms(1)] by (simp add: map_of_fold_insert)
  have "(\<exists>k. map_of kinds i = Some k \<and> k \<noteq> SinkNode) \<longleftrightarrow> (\<exists>k. (i, k) \<in> set (node_list c) \<and> k \<noteq> SinkNode)"
    using assms(1) by (simp add: m)
  also have "\<dots> \<longleftrightarrow> i \<in> producers c"
    by (auto simp: node_list_def producers_def)
  finally show "(\<exists>k. map_of kinds i = Some k \<and> k \<noteq> SinkNode) \<longleftrightarrow> i \<in> producers c" .
  show "fst ` set kinds = fst ` set (node_list c)"
    using m by (metis dom_map_of_conv_image_fst)
qed

lemma check_input_Inr:
  "check_input kinds n i = Inr u \<longleftrightarrow> (\<exists>k. map_of kinds i = Some k \<and> k \<noteq> SinkNode) \<and> i \<noteq> n"
  by (auto simp: check_input_def split: option.splits node_kind.splits)

lemma check_inputs_Inr:
  assumes "\<And>i. (\<exists>k. map_of kinds i = Some k \<and> k \<noteq> SinkNode) \<longleftrightarrow> i \<in> P"
  shows "check_inputs kinds (n, ins) = Inr u \<longleftrightarrow> ins \<noteq> [] \<and> set ins \<subseteq> P - {n}"
  by (auto simp: check_inputs_def check_input_Inr assms)

lemma succs_push:
  "btm_ok g \<Longrightarrow> succs (push_edge (a, b) g) n = (if n = a then succs g n @ [b] else succs g n)"
  by (auto simp: succs_def push_edge_def)

lemma edges_fold_push:
  "btm_ok g \<Longrightarrow> edges (fold push_edge es g) = edges g \<union> set es"
proof (induction es arbitrary: g)
  case (Cons e es)
  obtain a b where e: "e = (a, b)" by (cases e)
  have "btm_ok (push_edge (a, b) g)" using Cons.prems by (simp add: push_edge_def)
  moreover have "edges (push_edge (a, b) g) = insert (a, b) (edges g)"
    using Cons.prems by (auto simp: edges_def succs_push split: if_splits)
  ultimately show ?case using Cons.IH by (simp add: e)
qed simp

lemma edges_consumers: "edges (consumers_of c) = set (edge_list c)"
  using edges_fold_push [of "[]" "edge_list c"]
  by (simp add: consumers_of_def) (simp add: edges_def succs_def)

lemma succs_consumers: "succs (consumers_of c) n \<noteq> [] \<longleftrightarrow> n \<in> fst ` set (edge_list c)"
proof -
  have "succs (consumers_of c) n \<noteq> [] \<longleftrightarrow> (\<exists>b. (n, b) \<in> edges (consumers_of c))"
    by (auto simp: edges_def neq_Nil_conv) (metis list.set_cases)
  then show ?thesis by (force simp: edges_consumers)
qed

lemma edge_list_set: "set (edge_list c) = {(i, n). \<exists>ins. (n, ins) \<in> set (consumer_list c) \<and> i \<in> set ins}"
  by (auto simp: edge_list_def)

lemma check_acyclic_Inr:
  assumes "\<And>a b. (a, b) \<in> edges g \<Longrightarrow> a \<in> fst ` set kinds"
  shows "check_acyclic kinds g = Inr u \<longleftrightarrow> acyclic (edges g)"
  using detect_cycle_exact [of g "map fst kinds"] assms
  by (cases "acyclic (edges g)") (force simp: check_acyclic_def)+

lemma check_grants_Inr: "check_grants c s = Inr u \<longleftrightarrow> sink_ok c s"
  by (auto simp: check_grants_def sink_ok_def map_of_eq_None_iff split: option.splits prod.splits)

lemma check_module_Inr:
  "check_module (n, m) = Inr u \<longleftrightarrow> (\<forall>s. m = Builtin s \<longrightarrow> parse_builtin_ref s \<noteq> None)"
  by (cases m) (auto simp: check_module_def)

lemma check_connection_Inr:
  "check_connection (n, conn) = Inr u \<longleftrightarrow> (conn_type conn = Postgres \<longrightarrow> conn_dsn conn \<noteq> None)"
  by (auto simp: check_connection_def)

lemma regroup_checks:
  "(V \<longleftrightarrow> A \<and> B \<and> S \<and> I \<and> P \<and> Q \<and> R \<and> M \<and> G \<and> K \<and> C) \<Longrightarrow> (P \<and> Q \<longleftrightarrow> U)
   \<Longrightarrow> (I \<Longrightarrow> R \<longleftrightarrow> E) \<Longrightarrow> D
   \<Longrightarrow> V \<longleftrightarrow> (A \<and> B \<and> D \<and> S \<and> I \<and> U \<and> E \<and> M \<and> G \<and> K) \<and> C"
  by blast

lemma validate_Inr: "validate c = Inr c' \<longleftrightarrow> config_ok c \<and> c' = with_endpoints c"
proof (cases "distinct (map fst (node_list c))")
  case False
  then have "unique_nodes (node_list c) [] \<noteq> Inr m" for m by (simp add: unique_nodes_Inr)
  then show ?thesis using False by (auto simp: validate_def config_ok_def)
next
  case True
  define kinds where "kinds = fold (\<lambda>(k, v) m. btm_insert k v m) (node_list c) []"
  have un: "unique_nodes (node_list c) [] = Inr m \<longleftrightarrow> m = kinds" for m
    using True by (simp add: unique_nodes_Inr kinds_def)
  note kinds = node_kinds [OF True kinds_def]
  have ins: "(\<forall>ni \<in> set (consumer_list c). check_inputs kinds ni = Inr ()) \<longleftrightarrow>
      (\<forall>(n, ins) \<in> set (consumer_list c). ins \<noteq> [] \<and> set ins \<subseteq> producers c - {n})"
    using check_inputs_Inr [OF kinds(1)] by auto
  have names: "producers c \<subseteq> fst ` set kinds"
    unfolding kinds(2) by (auto simp: producers_def node_list_def image_Un image_image)
  have orphans: "(\<forall>p \<in> set (cfg_processors c). succs (consumers_of c) (proc_name p) \<noteq> [])
      \<and> (\<forall>s \<in> set (cfg_sources c). succs (consumers_of c) (src_name s) \<noteq> [])
      \<longleftrightarrow> producers c \<subseteq> fst ` set (edge_list c)"
    unfolding succs_consumers by (auto simp: producers_def)
  have acy: "check_acyclic kinds (consumers_of c) = Inr () \<longleftrightarrow> acyclic (set (edge_list c))"
    if "\<forall>(n, ins) \<in> set (consumer_list c). ins \<noteq> [] \<and> set ins \<subseteq> producers c - {n}"
  proof -
    have "a \<in> fst ` set kinds" if "(a, b) \<in> edges (consumers_of c)" for a b
      using that \<open>\<forall>(n, ins) \<in> _. _\<close> names
      by (auto simp: edges_consumers edge_list_set subset_iff)
    then show ?thesis using check_acyclic_Inr [of "consumers_of c" kinds] edges_consumers by metis
  qed
  have mods: "(\<forall>nm \<in> set (module_list c). check_module nm = Inr ()) \<longleftrightarrow>
      (\<forall>(n, m) \<in> set (module_list c). \<forall>s. m = Builtin s \<longrightarrow> parse_builtin_ref s \<noteq> None)"
    using check_module_Inr by auto
  have conns: "(\<forall>nc \<in> set (cfg_connections c). check_connection nc = Inr ()) \<longleftrightarrow>
      (\<forall>(n, conn) \<in> set (cfg_connections c). conn_type conn = Postgres \<longrightarrow> conn_dsn conn \<noteq> None)"
    using check_connection_Inr by auto
  have "validate c = Inr c' \<longleftrightarrow> cfg_sources c \<noteq> [] \<and> cfg_sinks c \<noteq> []
      \<and> (\<forall>s \<in> set (cfg_sources c). source_ok s)
      \<and> (\<forall>ni \<in> set (consumer_list c). check_inputs kinds ni = Inr ())
      \<and> (\<forall>p \<in> set (cfg_processors c). succs (consumers_of c) (proc_name p) \<noteq> [])
      \<and> (\<forall>s \<in> set (cfg_sources c). succs (consumers_of c) (src_name s) \<noteq> [])
      \<and> check_acyclic kinds (consumers_of c) = Inr ()
      \<and> (\<forall>nm \<in> set (module_list c). check_module nm = Inr ())
      \<and> (\<forall>s \<in> set (cfg_sinks c). sink_ok c s)
      \<and> (\<forall>nc \<in> set (cfg_connections c). check_connection nc = Inr ())
      \<and> c' = with_endpoints c"
    unfolding validate_def
    by (auto simp: un map_res_check_source check_grants_Inr with_endpoints_def)
  note v = this [unfolded ins mods conns]
  show ?thesis
    unfolding config_ok_def by (rule regroup_checks [OF v orphans acy True])
qed

section \<open>Properties\<close>

text \<open>
  C24: validation accepts exactly the well-formed pipelines (distinct node names, every
  input a source or processor, nothing orphaned, no cycle, modes, ranges and reorg stance
  sane, module references and connection grants valid) and changes nothing but the
  resolved endpoints.
\<close>

theorem validate_exact: "validate c = Inr c' \<longleftrightarrow> config_ok c \<and> c' = with_endpoints c"
  by (rule validate_Inr)

text \<open>
  C25: cycle detection always finishes within its depth; it accepts exactly the acyclic
  graphs, and the path it reports for another one is a cycle of the graph.
\<close>

theorem detect_cycle_correct:
  assumes "\<And>a b. (a, b) \<in> edges g \<Longrightarrow> a \<in> set vs"
  shows "(acyclic (edges g) \<longrightarrow> detect_cycle vs g = Some (Inr ()))
    \<and> (\<not> acyclic (edges g) \<longrightarrow>
         (\<exists>c. detect_cycle vs g = Some (Inl (CycleInDag c)) \<and> is_cycle g c))"
  using assms by (rule detect_cycle_exact)

theorem detect_cycle_correct_witness:
  "\<exists>c. detect_cycle [''a'', ''b''] [(''a'', [''b'']), (''b'', [''a''])] = Some (Inl (CycleInDag c))
     \<and> is_cycle [(''a'', [''b'']), (''b'', [''a''])] c"
proof -
  let ?g = "[(''a'', [''b'']), (''b'', [''a''])] :: graph"
  have e: "edges ?g = {(''a'', ''b''), (''b'', ''a'')}"
    by (auto simp: edges_def succs_def split: if_splits)
  have "(''a'', ''a'') \<in> (edges ?g)\<^sup>+"
    by (rule trancl_into_trancl [of _ "''b''"]) (auto simp: e)
  then have "\<not> acyclic (edges ?g)" by (auto simp: acyclic_def)
  then show ?thesis using detect_cycle_correct [of ?g "[''a'', ''b'']"] by (auto simp: e)
qed

lemma missing_add_refs_Nil:
  "missing (add_refs src names resolution_empty) = [] \<longleftrightarrow> {n \<in> set names. src n = None} = {}"
proof -
  have "b = [] \<longleftrightarrow> bts_set b = {}" for b :: "string bts" by (simp add: bts_set_def)
  moreover have "bts_set (missing (add_refs src names resolution_empty)) = {n \<in> set names. src n = None}"
    by (simp add: bts_set_add_refs) (simp add: resolution_empty_def)
  ultimately show ?thesis by metis
qed

lemma btm_ok_missing: "btm_ok (missing res) \<Longrightarrow> btm_ok (missing (add_refs src names res))"
  by (induction names arbitrary: res)
    (auto simp: add_refs_def substitute_def bts_insert_def split: option.splits)

text \<open>
  Loading succeeds exactly when the text parses, the document has the right shape both
  before and after substitution, every secret it references resolves and the pipeline is
  well-formed; the result is that pipeline with its endpoints.
\<close>

theorem load_exact:
  "load_str yaml show_de secrets text = Inr c \<longleftrightarrow>
     (\<exists>doc shape cfg. yaml text = Inr doc \<and> config_from_value doc = Inr shape
        \<and> set (refs_json doc) \<subseteq> dom secrets
        \<and> config_from_value (subst_json secrets doc) = Inr cfg
        \<and> config_ok cfg \<and> c = with_endpoints cfg)"
  by (auto simp: load_str_def resolve_in_place_report_def walk_spec missing_add_refs_Nil
      validate_Inr split: sum.splits if_splits)

text \<open>
  A document whose secrets do not all resolve is refused with all the missing names at
  once, sorted, and no others.
\<close>

theorem load_missing_exact:
  assumes "yaml text = Inr doc" "config_from_value doc = Inr shape"
    and "\<not> set (refs_json doc) \<subseteq> dom secrets"
  shows "\<exists>names. load_str yaml show_de secrets text = Inl (MissingSecrets names)
     \<and> set names = set (refs_json doc) - dom secrets \<and> sorted_wrt (<) names"
proof -
  let ?res = "add_refs secrets (refs_json doc) resolution_empty"
  have "bts_set (missing ?res) = set (refs_json doc) - dom secrets"
    by (auto simp: bts_set_add_refs resolution_empty_def)
  moreover have "btm_ok (missing ?res)"
    by (rule btm_ok_missing) (simp add: resolution_empty_def)
  moreover have "missing ?res \<noteq> []"
    using assms(3) by (auto simp: missing_add_refs_Nil)
  ultimately show ?thesis
    using assms(1,2)
    by (simp add: load_str_def resolve_in_place_report_def walk_spec bts_set_def btm_ok_def)
qed

definition minimal_doc :: json where
  "minimal_doc = JObj [(''name'', JStr ''${secret:X}''), (''sinks'', JArr []), (''sources'', JArr [])]"

lemma minimal_shape: "\<exists>c. config_from_value minimal_doc = Inr c"
  by (simp add: minimal_doc_def config_from_value_def de_struct_def config_keys_def de_req_def
      de_default_def de_str_def de_vec_def)

lemma minimal_refs: "refs_json minimal_doc = [''X'']"
  by code_simp

theorem load_missing_exact_witness:
  "\<exists>names. load_str (\<lambda>_. Inr minimal_doc) (\<lambda>_. []) (\<lambda>_. None) ''t'' = Inl (MissingSecrets names)
     \<and> set names = {''X''}"
proof -
  obtain c where "config_from_value minimal_doc = Inr c" using minimal_shape by blast
  then show ?thesis
    using load_missing_exact [of "\<lambda>_. Inr minimal_doc" "''t''" minimal_doc c "\<lambda>_. None" "\<lambda>_. []"]
    by (auto simp: minimal_refs)
qed

text \<open>Validation reports no parse errors.\<close>

lemma fail_if_Inl [simp]: "fail_if b e = Inl e' \<longleftrightarrow> b \<and> e' = e"
  by (auto simp: fail_if_def)

lemma check_each_Inl: "check_each f xs = Inl e \<Longrightarrow> \<exists>x \<in> set xs. f x = Inl e"
  by (induction xs) (auto simp: and_then_Inl)

lemma map_res_Inl: "map_res f xs = Inl e \<Longrightarrow> \<exists>x \<in> set xs. f x = Inl e"
  by (induction xs) (auto simp: and_then_Inl)

lemma unique_nodes_Inl: "unique_nodes xs m = Inl e \<Longrightarrow> \<exists>n. e = DuplicateNode n"
  by (induction xs m rule: unique_nodes.induct) (auto split: if_splits)

lemma dfs_error:
  "dfs n g node col stack = Some (Inl e) \<Longrightarrow> \<exists>c. e = CycleInDag c"
  "dfs_each n g cs col stack = Some (Inl e) \<Longrightarrow> \<exists>c. e = CycleInDag c"
  by (induction n g node col stack and n g cs col stack rule: dfs_dfs_each.induct)
    (auto split: color.splits option.splits sum.splits)

lemma detect_loop_cycle: "detect_loop fuel g ns col = Some (Inl e) \<Longrightarrow> \<exists>c. e = CycleInDag c"
  by (induction ns arbitrary: col) (auto dest: dfs_error split: if_splits option.splits sum.splits)

lemma check_acyclic_Inl: "check_acyclic kinds g = Inl e \<Longrightarrow> \<exists>c. e = CycleInDag c"
  by (cases "detect_cycle (map fst kinds) g")
    (auto simp: check_acyclic_def detect_cycle_def dest: detect_loop_cycle)

definition shape_error :: "config_error \<Rightarrow> bool" where
  "shape_error e = (\<exists>m. e = ParseError m)"

lemma check_source_error: "check_source s = Inl e \<Longrightarrow> \<not> shape_error e"
  by (auto simp: check_source_def and_then_Inl resolve_endpoint_def check_mode_def check_range_def
      check_reorg_def shape_error_def split: option.splits source_mode.splits if_splits)

lemma check_inputs_error: "check_inputs kinds ni = Inl e \<Longrightarrow> \<not> shape_error e"
  by (auto simp: check_inputs_def check_input_def shape_error_def dest!: check_each_Inl
      split: prod.splits option.splits node_kind.splits if_splits)

lemma check_grants_error: "check_grants c s = Inl e \<Longrightarrow> \<not> shape_error e"
  by (auto simp: check_grants_def and_then_Inl shape_error_def dest!: check_each_Inl
      split: prod.splits option.splits if_splits)

lemma check_module_error: "check_module nm = Inl e \<Longrightarrow> \<not> shape_error e"
  by (auto simp: check_module_def shape_error_def split: module_ref.splits)

lemma validate_error: "validate c = Inl e \<Longrightarrow> \<not> shape_error e"
  unfolding validate_def and_then_Inl
  by (elim disjE exE conjE)
    (auto simp: shape_error_def check_connection_def dest!: check_each_Inl unique_nodes_Inl
      map_res_Inl check_acyclic_Inl
      dest: check_source_error check_inputs_error check_grants_error check_module_error)



end
