(* ===== verification/Startup.thy ===== *)
theory Startup
  imports Failures ConfigProps
begin

text \<open>
  From the configuration to the running modules: what a node can reach once the connections
  are open and its store is built, and which configuration its module is started with.
\<close>

section \<open>The store of a node\<close>

text \<open>Only the keys of the pools and the prefixes of the stores matter to a store.\<close>

definition node_store ::
  "(string \<times> 'pool) list \<Rightarrow> (string \<times> 'st blob_conn) list \<Rightarrow> 'bytes node_ctx \<Rightarrow> host_state" where
  "node_store sql blob node =
     new_store (map fst sql) (map (\<lambda>(n, b). (n, blob_prefix b)) blob) node"

lemma map_res_with_keys:
  assumes "map_res (\<lambda>(n, x). case f n x of Inl e \<Rightarrow> Inl (err n e) | Inr y \<Rightarrow> Inr (n, y)) xs = Inr ys"
    and "(n, y) \<in> set ys"
  shows "\<exists>x. (n, x) \<in> set xs \<and> f n x = Inr y"
proof -
  obtain i where i: "i < length ys" "ys ! i = (n, y)" using assms(2) by (auto simp: in_set_conv_nth)
  have "list_all2 (\<lambda>z w. (\<lambda>(n, x). case f n x of Inl e \<Rightarrow> Inl (err n e) | Inr y \<Rightarrow> Inr (n, y)) z = Inr w) xs ys"
    using assms(1) by (simp add: map_res_Inr_iff)
  then have l: "i < length xs" "(case xs ! i of (n, x) \<Rightarrow> case f n x of Inl e \<Rightarrow> Inl (err n e) | Inr y \<Rightarrow> Inr (n, y)) = Inr (n, y)"
    using i by (auto simp: list_all2_conv_all_nth)
  then show ?thesis using nth_mem [OF l(1)]
    by (cases "xs ! i") (auto split: sum.splits)
qed

lemma services_from_config:
  assumes "build_services connect (build_blob local s3) (pg_conns c) (blob_conns c) = Inr (sql, blob)"
  shows "conn \<in> set (map fst sql) \<Longrightarrow> \<exists>cn. (conn, cn) \<in> set (cfg_connections c) \<and> conn_type cn = Postgres"
    and "(conn, b) \<in> set blob \<Longrightarrow>
      \<exists>cn. (conn, cn) \<in> set (cfg_connections c) \<and> conn_type cn = S3 \<and> blob_prefix b = unwrap_or [] (conn_prefix cn)"
proof -
  let ?f = "\<lambda>n (dsn, mx). connect dsn mx" and ?e = "\<lambda>n e. ''connect postgres `'' @ n @ ''`: '' @ e"
  have sql: "map_res (\<lambda>(n, x). case ?f n x of Inl e \<Rightarrow> Inl (?e n e) | Inr y \<Rightarrow> Inr (n, y)) (pg_conns c) = Inr sql"
    and blob: "map_res (\<lambda>(n, x). case build_blob local s3 x of Inl e \<Rightarrow> Inl (''open object store `'' @ n @ ''`: '' @ e)
        | Inr y \<Rightarrow> Inr (n, y)) (blob_conns c) = Inr blob"
    using assms by (auto simp: build_services_def case_prod_unfold split: sum.splits)
  {
    assume "conn \<in> set (map fst sql)"
    then obtain p where "(conn, p) \<in> set sql" by auto
    from map_res_with_keys [where f = ?f and err = ?e, OF sql this] obtain x where "(conn, x) \<in> set (pg_conns c)" by blast
    then show "\<exists>cn. (conn, cn) \<in> set (cfg_connections c) \<and> conn_type cn = Postgres"
      by (auto simp: pg_conns_def split: connection_kind.splits option.splits)
  next
    assume "(conn, b) \<in> set blob"
    from map_res_with_keys [where f = "\<lambda>n. build_blob local s3" and err = "\<lambda>n e. ''open object store `'' @ n @ ''`: '' @ e",
        OF blob this]
    obtain x where x: "(conn, x) \<in> set (blob_conns c)" "build_blob local s3 x = Inr b" by blast
    have "blob_prefix b = unwrap_or [] (bc_prefix x)"
      using x(2) by (auto simp: build_blob_def Let_def and_then_Inr split: option.splits)
    then show "\<exists>cn. (conn, cn) \<in> set (cfg_connections c) \<and> conn_type cn = S3 \<and> blob_prefix b = unwrap_or [] (conn_prefix cn)"
      using x(1) by (auto simp: blob_conns_def blob_cfg_of_def split: if_splits)
  }
qed

section \<open>What a node can reach\<close>

text \<open>
  What a node with a name, an HTTP allowlist and a list of connections may do under a
  configuration: requests to listed hosts, SQL and objects over listed connections that the
  configuration declares with the right kind, objects below the declared prefix, keys and log
  lines under its own name.
\<close>

fun configured :: "host_lib \<Rightarrow> config \<Rightarrow> string \<Rightarrow> string list \<Rightarrow> string list \<Rightarrow> effect \<Rightarrow> bool" where
  "configured L c name http conns (HttpSent req) =
     (\<exists>scheme host allow. lib_parse_url L (rq_url req) = Some (scheme, Some host)
        \<and> (scheme = ''http'' \<or> scheme = ''https'') \<and> allow \<in> set http
        \<and> map to_ascii_lower allow = map to_ascii_lower host)"
| "configured L c name http conns (SqlTransaction conn stmts) =
     (conn \<in> set conns \<and> (\<exists>cn. (conn, cn) \<in> set (cfg_connections c) \<and> conn_type cn = Postgres))"
| "configured L c name http conns (BlobWritten conn path data) =
     (conn \<in> set conns \<and> (\<exists>cn key. (conn, cn) \<in> set (cfg_connections c) \<and> conn_type cn = S3
        \<and> path = lib_to_path L (unwrap_or [] (conn_prefix cn) @ key)))"
| "configured L c name http conns (KvWritten m key v) = (m = name)"
| "configured L c name http conns (Logged m msg) = (m = name)"

lemma permitted_configured:
  assumes "build_services connect (build_blob local s3) (pg_conns c) (blob_conns c) = Inr (sql, blob)"
    and "permitted L (node_store sql blob node) e"
  shows "configured L c (n_module_name node) (n_http_allow node) (n_granted_conns node) e"
proof (cases e)
  case (SqlTransaction conn stmts)
  then show ?thesis using assms(2) services_from_config(1) [OF assms(1)]
    by (simp add: node_store_def new_store_def)
next
  case (BlobWritten conn path data)
  then obtain prefix key where k: "conn \<in> set (n_granted_conns node)"
    "map_of (map (\<lambda>(n, b). (n, blob_prefix b)) blob) conn = Some prefix" "path = lib_to_path L (prefix @ key)"
    using assms(2) by (auto simp: node_store_def new_store_def)
  obtain b where "(conn, b) \<in> set blob" "prefix = blob_prefix b" using map_of_SomeD [OF k(2)] by auto
  then show ?thesis using k(1,3) services_from_config(2) [OF assms(1)] BlobWritten by fastforce
qed (use assms(2) in \<open>auto simp: node_store_def new_store_def\<close>)

lemma node_runs_configured:
  assumes "build_services connect (build_blob local s3) (pg_conns c) (blob_conns c) = Inr (sql, blob)"
  shows "\<exists>new. hw_effects (run_guest n L out (node_store sql blob node) g [] w) = hw_effects w @ new
     \<and> list_all (configured L c (n_module_name node) (n_http_allow node) (n_granted_conns node)) new"
proof -
  obtain new where n: "hw_effects (run_guest n L out (node_store sql blob node) g [] w) = hw_effects w @ new"
    "list_all (permitted L (node_store sql blob node)) new"
    using run_guest_permitted by blast
  have "list_all (configured L c (n_module_name node) (n_http_allow node) (n_granted_conns node)) new"
    by (rule list.pred_mono_strong [OF n(2) permitted_configured [OF assms]])
  then show ?thesis using n(1) by blast
qed

text \<open>
  C17: the configuration is the whole capability list.  Once the connections are open, a processor
  module, whatever it computes, runs no SQL and writes no object, and sends requests only to
  the hosts its own \<open>permissions.http\<close> names; a sink reaches in addition exactly the
  declared connections that it lists, each through its own kind of call and an object store
  only below its prefix.
\<close>

theorem modules_reach_only_configured:
  assumes "build_services connect (build_blob local s3) (pg_conns c) (blob_conns c) = Inr (sql, blob)"
    and "processor_node fs base_dir dir c p = Inr (wasm1, node1)"
    and "sink_node fs base_dir dir c s = Inr (wasm2, node2)"
  shows "(\<exists>new. hw_effects (run_guest n L out (node_store sql blob node1) g [] w) = hw_effects w @ new
        \<and> list_all (configured L c (proc_name p) (perm_http (proc_permissions p)) []) new)
    \<and> (\<exists>new. hw_effects (run_guest n L out (node_store sql blob node2) g [] w) = hw_effects w @ new
        \<and> list_all (configured L c (sink_name s) (perm_http (sink_permissions s)) (sink_connections s)) new)"
proof -
  have "n_module_name node1 = proc_name p" "n_http_allow node1 = perm_http (proc_permissions p)" "n_granted_conns node1 = []"
    using assms(2) by (auto simp: processor_node_def)
  moreover have "n_module_name node2 = sink_name s" "n_http_allow node2 = perm_http (sink_permissions s)"
    "n_granted_conns node2 = sink_connections s"
    using assms(3) by (auto simp: sink_node_def)
  ultimately show ?thesis
    using node_runs_configured [OF assms(1), of n L out node1 g w] node_runs_configured [OF assms(1), of n L out node2 g w]
    by simp
qed

text \<open>The sink of the demo configuration with a database and a store, listing the store only.\<close>

definition demo_conn :: "connection_kind \<Rightarrow> connection" where
  "demo_conn k = \<lparr> conn_type = k, conn_dsn = Some ''dsn'', conn_pool_max = 4, conn_bucket = Some ''b'', conn_region = None,
     conn_endpoint = None, conn_prefix = Some ''raw/'', conn_local_path = None \<rparr>"

definition two_conns :: config where
  "two_conns = demo_dag \<lparr> cfg_connections := [(''db'', demo_conn Postgres), (''store'', demo_conn S3)],
     cfg_processors := map (\<lambda>p. p \<lparr> proc_module := File ''keep.wasm'' \<rparr>) (cfg_processors demo_dag),
     cfg_sinks := map (\<lambda>s. s \<lparr> sink_module := File ''lake.wasm'', sink_connections := [''store''] \<rparr>) (cfg_sinks demo_dag) \<rparr>"

definition demo_files :: "string files" where
  "demo_files = \<lparr> f_module = (\<lambda>p. Inr p), f_text = (\<lambda>p. Inr p), f_parse = (\<lambda>t. Inr (JStr t)), f_to_vec = (\<lambda>v. ''v'') \<rparr>"

definition demo_lib :: host_lib where
  "demo_lib = \<lparr> lib_parse_url = (\<lambda>u. None), lib_method_ok = (\<lambda>m. True), lib_parse_params = (\<lambda>s. Inr []),
     lib_to_text = (\<lambda>v. []), lib_to_path = (\<lambda>p. p) \<rparr>"

text \<open>A guest that writes an object to a connection and stops.\<close>

definition one_put :: "string \<Rightarrow> guest" where
  "one_put conn replies = (if replies = [] then Some (CallBlobPut conn ''k'' ''data'') else None)"

theorem modules_reach_only_configured_witness:
  "\<exists>sql blob wasm node. build_services (\<lambda>dsn mx. Inr ()) (build_blob Inr (\<lambda>b r e. Inr b)) (pg_conns two_conns) (blob_conns two_conns)
        = Inr (sql, blob)
     \<and> sink_node demo_files ''/etc'' ''/mods'' two_conns (hd (cfg_sinks two_conns)) = Inr (wasm, node)
     \<and> (\<exists>new. hw_effects (run_guest 2 demo_lib demo_out (node_store sql blob node) (one_put ''store'') [] \<lparr> hw_effects = [], hw_metrics = [] \<rparr>) = new
          \<and> new = [BlobWritten ''store'' ''raw/k'' ''data'']
          \<and> list_all (configured demo_lib two_conns ''lake'' [] [''store'']) new)"
proof -
  have b: "build_services (\<lambda>dsn mx. Inr ()) (build_blob Inr (\<lambda>b r e. Inr b)) (pg_conns two_conns) (blob_conns two_conns)
      = Inr ([(''db'', ())], [(''store'', \<lparr> blob_store = ''b'', blob_prefix = ''raw/'' \<rparr>)])" (is "_ = Inr (?sql, ?blob)")
    by (simp add: build_services_def pg_conns_def blob_conns_def two_conns_def demo_conn_def blob_cfg_of_def build_blob_def)
  obtain wasm1 node1 where p: "processor_node demo_files ''/etc'' ''/mods'' two_conns (hd (cfg_processors two_conns)) = Inr (wasm1, node1)"
    by (simp add: processor_node_def two_conns_def demo_dag_def resolve_module_def demo_files_def preprocess_config_def
        is_decoder_def with_context_def)
  obtain wasm2 node2 where k: "sink_node demo_files ''/etc'' ''/mods'' two_conns (hd (cfg_sinks two_conns)) = Inr (wasm2, node2)"
    "n_granted_conns node2 = [''store'']"
    by (simp add: sink_node_def two_conns_def demo_dag_def resolve_module_def demo_files_def with_context_def)
  have put: "hw_effects (run_guest 2 demo_lib demo_out (node_store ?sql ?blob node2) (one_put ''store'') [] \<lparr> hw_effects = [], hw_metrics = [] \<rparr>)
      = [BlobWritten ''store'' ''raw/k'' ''data'']"
    using k(2) by (simp add: numeral_2_eq_2 one_put_def node_store_def new_store_def host_blob_put_def demo_lib_def
        demo_out_def emit_def Let_def)
  have "sink_name (hd (cfg_sinks two_conns)) = ''lake''" "perm_http (sink_permissions (hd (cfg_sinks two_conns))) = []"
    "sink_connections (hd (cfg_sinks two_conns)) = [''store'']"
    by (simp_all add: two_conns_def demo_dag_def permissions_default_def)
  then have "\<exists>new. [BlobWritten ''store'' ''raw/k'' ''data''] = new
      \<and> list_all (configured demo_lib two_conns ''lake'' [] [''store'']) new"
    using modules_reach_only_configured [where n = 2 and L = demo_lib and out = demo_out and g = "one_put ''store''"
        and w = "\<lparr> hw_effects = [], hw_metrics = [] \<rparr>", OF b p k(1)] by (simp add: put)
  then show ?thesis using b k(1) put by blast
qed

section \<open>The configuration of the decoder\<close>

lemma substitute_abi_entry:
  assumes "substitute_abi read_text parse base_dir entry = Inr e" "json_ok entry"
  shows "case jget_str ''file'' entry of
      None \<Rightarrow> e = entry
    | Some file \<Rightarrow> \<exists>text abi. read_text (path_join base_dir file) = Inr text \<and> parse text = Inr abi
        \<and> jget ''abi'' e = Some abi \<and> (\<forall>k. k \<noteq> ''abi'' \<longrightarrow> jget k e = jget k entry)"
proof (cases "jget_str ''file'' entry")
  case None
  then show ?thesis using assms(1) by (simp add: substitute_abi_def)
next
  case (Some f)
  then obtain m where m: "entry = JObj m" by (cases entry) (auto simp: jget_str_def)
  obtain t abi where "read_text (path_join base_dir f) = Inr t" "parse t = Inr abi" "e = set_field ''abi'' abi entry"
    using assms(1) Some by (auto simp: substitute_abi_def)
  then show ?thesis using Some assms(2) m by simp
qed

text \<open>
  Modules have no file system, so the decoder gets the contents.  When the start succeeds,
  the decoder is started with its own configuration in which every entry of \<open>abis\<close> that names
  a file has the parsed content of that file, resolved against the pipeline's directory, under
  \<open>abi\<close>; every other field and every other entry is as it was written, in the same order.
\<close>

theorem abi_files_reach_decoder:
  assumes "is_decoder m" "jget_array ''abis'' config = Some entries" "json_ok config"
    and "preprocess_config read_text parse to_vec m config base_dir = Inr bytes"
  shows "\<exists>config'. bytes = to_vec config' \<and> (\<forall>k. k \<noteq> ''abis'' \<longrightarrow> jget k config' = jget k config)
     \<and> (\<exists>es. jget_array ''abis'' config' = Some es \<and> length es = length entries
        \<and> (\<forall>i < length entries. case jget_str ''file'' (entries ! i) of
              None \<Rightarrow> es ! i = entries ! i
            | Some file \<Rightarrow> \<exists>text abi. read_text (path_join base_dir file) = Inr text \<and> parse text = Inr abi
                \<and> jget ''abi'' (es ! i) = Some abi
                \<and> (\<forall>k. k \<noteq> ''abi'' \<longrightarrow> jget k (es ! i) = jget k (entries ! i))))"
proof -
  obtain es where es: "map_res (substitute_abi read_text parse base_dir) entries = Inr es"
    "bytes = to_vec (set_field ''abis'' (JArr es) config)"
    using assms(1,2,4) by (auto simp: preprocess_config_def)
  obtain obj1 where c: "config = JObj obj1" using assms(2) by (cases config) (auto simp: jget_array_def)
  have "map_of obj1 ''abis'' = Some (JArr entries)" using assms(2)
    by (cases "map_of obj1 ''abis''"; cases "the (map_of obj1 ''abis'')") (auto simp: jget_array_def c)
  then have "json_ok (JArr entries)" using assms(3) by (auto simp: c list_all_iff dest!: map_of_SomeD)
  then have ok: "i < length entries \<Longrightarrow> json_ok (entries ! i)" for i by (simp add: list_all_length)
  have all: "list_all2 (\<lambda>x y. substitute_abi read_text parse base_dir x = Inr y) entries es"
    using es(1) by (simp add: map_res_Inr_iff)
  have "length es = length entries" using all by (simp add: list_all2_lengthD)
  moreover have "substitute_abi read_text parse base_dir (entries ! i) = Inr (es ! i)" if "i < length entries" for i
    using list_all2_nthD [OF all that] .
  ultimately have e: "length es = length entries \<and> (\<forall>i < length entries. case jget_str ''file'' (entries ! i) of
              None \<Rightarrow> es ! i = entries ! i
            | Some file \<Rightarrow> \<exists>text abi. read_text (path_join base_dir file) = Inr text \<and> parse text = Inr abi
                \<and> jget ''abi'' (es ! i) = Some abi
                \<and> (\<forall>k. k \<noteq> ''abi'' \<longrightarrow> jget k (es ! i) = jget k (entries ! i)))"
    using substitute_abi_entry ok by blast
  have b: "btm_ok obj1" using assms(3) by (simp add: c)
  then have "jget_array ''abis'' (set_field ''abis'' (JArr es) config) = Some es"
    "\<forall>k. k \<noteq> ''abis'' \<longrightarrow> jget k (set_field ''abis'' (JArr es) config) = jget k config"
    by (simp_all add: c jget_array_def)
  then show ?thesis using es(2) e by blast
qed

definition decoder_ref :: module_ref where
  "decoder_ref = Builtin ''builtin/evm-abi-decoder@1''"

definition decoder_conf :: json where
  "decoder_conf = JObj [(''abis'', JArr [JObj [(''file'', JStr ''erc20.json'')], JNull])]"

theorem abi_files_reach_decoder_witness:
  "\<exists>config' es. preprocess_config (\<lambda>p. Inr p) (\<lambda>t. Inr (JStr t)) id decoder_ref decoder_conf ''/etc'' = Inr config'
     \<and> jget_array ''abis'' config' = Some es \<and> jget ''abi'' (es ! 0) = Some (JStr ''/etc/erc20.json'')
     \<and> es ! 1 = JNull"
proof -
  have d: "is_decoder decoder_ref"
    by (simp add: is_decoder_def decoder_ref_def parse_builtin_ref_def strip_prefix_def parse_u32_def parse_nat_below_def
        drop_plus_def is_ascii_digit_def dec_val_def digit_val_def)
  have a: "jget_array ''abis'' decoder_conf = Some [JObj [(''file'', JStr ''erc20.json'')], JNull]" "json_ok decoder_conf"
    by (simp_all add: decoder_conf_def jget_array_def btm_ok_def)
  have f: "jget_str ''file'' (JObj [(''file'', JStr ''erc20.json'')]) = Some ''erc20.json''" "jget_str ''file'' JNull = None"
    "path_join ''/etc'' ''erc20.json'' = ''/etc/erc20.json''"
    by (simp_all add: jget_str_def path_join_def strip_prefix_def)
  have "\<exists>config'. preprocess_config (\<lambda>p. Inr p) (\<lambda>t. Inr (JStr t)) id decoder_ref decoder_conf ''/etc'' = Inr config'"
    using d a by (simp add: preprocess_config_def substitute_abi_def with_context_def f)
  then obtain config' where c: "preprocess_config (\<lambda>p. Inr p) (\<lambda>t. Inr (JStr t)) id decoder_ref decoder_conf ''/etc'' = Inr config'"
    by blast
  from abi_files_reach_decoder [OF d a c] show ?thesis using c f by (auto simp: less_Suc_eq All_less_Suc)
qed

section \<open>Wiring the tasks\<close>

text \<open>
  One input channel per consumer.  Each task removes its own from the map, and a name that is
  not there any more is a panic (no value).
\<close>

definition consumer_names :: "config \<Rightarrow> string list" where
  "consumer_names c = map proc_name (cfg_processors c) @ map sink_name (cfg_sinks c)"

fun take_inputs :: "string list \<Rightarrow> string list \<Rightarrow> string list option" where
  "take_inputs [] channels = Some channels"
| "take_inputs (n # ns) channels = (if n \<in> set channels then take_inputs ns (removeAll n channels) else None)"

definition wire_inputs :: "config \<Rightarrow> string list option" where
  "wire_inputs c =
     take_inputs (map sink_name (cfg_sinks c) @ map proc_name (cfg_processors c)) (remdups (consumer_names c))"

definition senders_for :: "config \<Rightarrow> string \<Rightarrow> string list" where
  "senders_for c producer = filter (\<lambda>n. n \<in> set (consumer_names c)) (succs (build_consumer_map c) producer)"

definition spawn_sources :: "string option \<Rightarrow> config \<Rightarrow> hs_source list option" where
  "spawn_sources token c =
     those (map (\<lambda>src. from_config token src (default_max_records (cfg_profile c))) (cfg_sources c))"

lemma take_inputs_all:
  "distinct ns \<Longrightarrow> set ns \<subseteq> set channels \<Longrightarrow>
   \<exists>left. take_inputs ns channels = Some left \<and> set left = set channels - set ns"
proof (induction ns arbitrary: channels)
  case (Cons n ns)
  then have "set ns \<subseteq> set (removeAll n channels)" by auto
  with Cons obtain left where "take_inputs ns (removeAll n channels) = Some left"
    "set left = set (removeAll n channels) - set ns" by (metis distinct.simps(2))
  then show ?case using Cons.prems by auto
qed simp

lemma those_Some: "\<forall>x \<in> set xs. \<exists>y. f x = Some y \<and> g y = h x \<Longrightarrow> \<exists>ys. those (map f xs) = Some ys \<and> map g ys = map h xs"
  by (induction xs) auto

lemma consumer_names_fst: "consumer_names c = map fst (consumer_list c)"
  by (simp add: consumer_names_def consumer_list_def)

text \<open>
  A configuration that passes validation starts without a panic: every task finds its input
  channel and uses each exactly once, every source has its endpoint, and every source and
  processor has at least one consumer, all of which get a sender.
\<close>

theorem validated_start_never_panics:
  assumes "validate c = Inr c'"
  shows "wire_inputs c' = Some []
     \<and> (\<exists>srcs. spawn_sources token c' = Some srcs \<and> map s_name srcs = map src_name (cfg_sources c))
     \<and> (\<forall>n \<in> producers c. senders_for c' n \<noteq> [] \<and> set (senders_for c' n) = {k. (n, k) \<in> feeds c})"
proof -
  have ok: "config_ok c" and c': "c' = with_endpoints c" using assms by (simp_all add: validate_Inr)
  have same: "consumer_names c' = consumer_names c" "feeds c' = feeds c" "cfg_sinks c' = cfg_sinks c"
    "cfg_processors c' = cfg_processors c"
    by (simp_all add: c' with_endpoints_def consumer_names_def feeds_def consumer_list_def)
  have d: "distinct (map sink_name (cfg_sinks c) @ map proc_name (cfg_processors c))"
    using ok by (auto simp: config_ok_def node_list_def o_def)
  obtain left where l: "wire_inputs c' = Some left" "set left = set (consumer_names c) - set (consumer_names c)"
    using take_inputs_all [OF d, of "remdups (consumer_names c)"] unfolding wire_inputs_def same
    by (auto simp: consumer_names_def Un_commute)
  then have "wire_inputs c' = Some []" by simp
  moreover have "\<exists>srcs. spawn_sources token c' = Some srcs \<and> map s_name srcs = map src_name (cfg_sources c')"
    unfolding spawn_sources_def
  proof (rule those_Some, rule ballI)
    fix src assume "src \<in> set (cfg_sources c')"
    then obtain s where s: "s \<in> set (cfg_sources c)" "src = s \<lparr> src_resolved := endpoint_of s \<rparr>"
      by (auto simp: c' with_endpoints_def)
    then obtain ep where "endpoint_of s = Some ep" using ok by (auto simp: config_ok_def source_ok_def endpoint_of_def)
    then show "\<exists>y. from_config token src (default_max_records (cfg_profile c')) = Some y \<and> s_name y = src_name src"
      using s(2) by (simp add: from_config_def endpoint_def)
  qed
  moreover have "map src_name (cfg_sources c') = map src_name (cfg_sources c)" by (simp add: c' with_endpoints_def)
  moreover have "senders_for c' n \<noteq> [] \<and> set (senders_for c' n) = {k. (n, k) \<in> feeds c}" if "n \<in> producers c" for n
  proof -
    have e: "set (succs (build_consumer_map c') n) = {k. (n, k) \<in> feeds c}"
      using consumer_map_edges [of c'] same(2) by (auto simp: edges_def)
    moreover have "k \<in> set (consumer_names c)" if "(n, k) \<in> feeds c" for k
      using that by (force simp: feeds_def consumer_names_fst)
    ultimately have "set (senders_for c' n) = {k. (n, k) \<in> feeds c}" by (auto simp: senders_for_def same)
    moreover have "n \<in> fst ` set (edge_list c)" using ok that by (auto simp: config_ok_def)
    then obtain k ins where "(k, ins) \<in> set (consumer_list c)" "n \<in> set ins" by (auto simp: edge_list_def)
    then have "\<exists>k. (n, k) \<in> feeds c" by (auto simp: feeds_def)
    ultimately show ?thesis by (metis empty_Collect_eq set_empty)
  qed
  ultimately show ?thesis by auto
qed

lemma demo_dag_ok: "config_ok demo_dag"
proof -
  have e: "set (edge_list demo_dag) = {(''eth'', ''keep''), (''keep'', ''lake'')}"
    by (simp add: edge_list_def consumer_list_def demo_dag_def insert_commute)
  have "set (edge_list demo_dag) \<subseteq> measure (\<lambda>n. if n = ''eth'' then 0 else if n = ''keep'' then 1 else 2)"
    unfolding e by auto
  then have "acyclic (set (edge_list demo_dag))" using wf_acyclic [OF wf_measure] acyclic_subset by blast
  moreover have "parse_builtin_ref ''builtin/filter@1'' \<noteq> None" "parse_builtin_ref ''builtin/s3@1'' = Some (''s3'', 1)"
    by (simp_all add: parse_builtin_ref_def strip_prefix_def parse_u32_def parse_nat_below_def
        drop_plus_def is_ascii_digit_def dec_val_def digit_val_def)
  moreover have "source_ok (hd (cfg_sources demo_dag))"
    by (simp add: source_ok_def demo_dag_def resolve_endpoint_def reorg_default_def default_reorg_window_def word_le_nat_alt word_less_nat_alt)
  ultimately show ?thesis unfolding config_ok_def e
    by (auto simp: demo_dag_def node_list_def consumer_list_def producers_def module_list_def sink_ok_def)
qed

theorem validated_start_never_panics_witness:
  "\<exists>c'. validate demo_dag = Inr c' \<and> wire_inputs c' = Some [] \<and> set (senders_for c' ''eth'') = {''keep''}"
proof -
  have v: "validate demo_dag = Inr (with_endpoints demo_dag)" using demo_dag_ok by (simp add: validate_Inr)
  have "''eth'' \<in> producers demo_dag" by (simp add: producers_def demo_dag_def)
  moreover have "{k. (''eth'', k) \<in> feeds demo_dag} = {''keep''}" by (auto simp: demo_dag_feeds)
  ultimately show ?thesis using v validated_start_never_panics [OF v, of None] by auto
qed

end
