(* ===== verification/Cli.thy ===== *)
theory Cli
  imports Startup
begin

text \<open>
  The command line and the health server: \<open>crates/cli/src/main.rs\<close> and
  \<open>crates/cli/src/health.rs\<close>.  A probe's request is ASCII text; what the socket gives within
  the deadline is a parameter.  Log output is left out.
\<close>

section \<open>The health server\<close>

definition STARTING :: u8 where "STARTING = 0"
definition RUNNING :: u8 where "RUNNING = 1"
definition STOPPING :: u8 where "STOPPING = 2"

definition DEFAULT_BIND :: string where
  "DEFAULT_BIND = ''0.0.0.0''"

definition parse_u16 :: "string \<Rightarrow> u16 option" where
  "parse_u16 s = map_option of_nat (parse_nat_below (2 ^ 16) s)"

text \<open>\<open>maybe_spawn\<close>: where to listen, if at all; the arguments are the two variables.\<close>

definition health_listen :: "string option \<Rightarrow> string option \<Rightarrow> (string \<times> u16) option" where
  "health_listen port_var bind_var =
     (case port_var of
        None \<Rightarrow> None
      | Some raw \<Rightarrow> map_option (\<lambda>port. (unwrap_or DEFAULT_BIND bind_var, port)) (parse_u16 raw))"

definition is_ascii_space :: "char \<Rightarrow> bool" where
  "is_ascii_space c = (let n = (of_char c :: nat) in n = 32 \<or> (9 \<le> n \<and> n \<le> 13))"

function split_whitespace :: "string \<Rightarrow> string list" where
  "split_whitespace [] = []"
| "split_whitespace (c # s) =
     (if is_ascii_space c then split_whitespace s
      else (c # takeWhile (\<lambda>x. \<not> is_ascii_space x) s)
             # split_whitespace (dropWhile (\<lambda>x. \<not> is_ascii_space x) s))"
  by pat_completeness auto
termination by (relation "measure length") (auto simp: length_dropWhile_le le_imp_less_Suc)

definition request_path :: "string \<Rightarrow> string" where
  "request_path req = (case split_whitespace req of _ # p # _ \<Rightarrow> p | _ \<Rightarrow> ''/'')"

definition probe_answer :: "u8 \<Rightarrow> string \<Rightarrow> nat \<times> string" where
  "probe_answer state path =
     (if strip_prefix ''/readyz'' path \<noteq> None then
        (if state = RUNNING then (200, ''ready'') else (503, ''starting''))
      else (if state = STOPPING then (503, ''shutting down'') else (200, ''ok'')))"

definition crlf :: string where
  "crlf = [CHR 0x0D, CHR 0x0A]"

definition probe_response :: "nat \<times> string \<Rightarrow> string" where
  "probe_response answer =
     (case answer of (code, body) \<Rightarrow>
        ''HTTP/1.1 '' @ show_nat code @ '' '' @ (if code = 200 then ''OK'' else ''Service Unavailable'') @ crlf
        @ ''content-type: text/plain'' @ crlf @ ''content-length: '' @ show_nat (length body) @ crlf
        @ ''connection: close'' @ crlf @ crlf @ body)"

text \<open>One connection: no request within the deadline, or a failed read, gets no answer.\<close>

definition serve_connection :: "u8 \<Rightarrow> string option \<Rightarrow> string option" where
  "serve_connection state received =
     map_option (\<lambda>req. probe_response (probe_answer state (request_path (take 1024 req)))) received"

section \<open>Properties of the health server\<close>

lemma split_word:
  assumes "w \<noteq> []" "list_all (\<lambda>c. \<not> is_ascii_space c) w" "is_ascii_space c"
  shows "split_whitespace (w @ c # s) = w # split_whitespace s"
proof -
  obtain a v where w: "w = a # v" using assms(1) by (cases w) auto
  then have "takeWhile (\<lambda>x. \<not> is_ascii_space x) (v @ c # s) = v" "dropWhile (\<lambda>x. \<not> is_ascii_space x) (v @ c # s) = c # s"
    using assms(2,3) by (auto simp: takeWhile_append dropWhile_append list_all_iff)
  then show ?thesis using w assms(2,3) by simp
qed

text \<open>
  What a probe learns.  A request line with a path \<open>p\<close> that fits the read buffer is answered
  by a complete HTTP response whose content length is that of its body: 200 for a path below
  \<open>/readyz\<close> exactly while the pipeline runs, 200 for any other path exactly until it stops.
  A peer that sends nothing gets nothing.
\<close>

theorem probe_tracks_lifecycle:
  assumes "m \<noteq> []" "list_all (\<lambda>c. \<not> is_ascii_space c) m" "p \<noteq> []" "list_all (\<lambda>c. \<not> is_ascii_space c) p"
    and "length m + length p + 2 \<le> 1024"
  shows "\<exists>body. serve_connection state (Some (m @ '' '' @ p @ '' '' @ rest)) =
      Some (''HTTP/1.1 '' @ (if (if strip_prefix ''/readyz'' p \<noteq> None then state = RUNNING else state \<noteq> STOPPING)
               then ''200 OK'' else ''503 Service Unavailable'') @ crlf
            @ ''content-type: text/plain'' @ crlf @ ''content-length: '' @ show_nat (length body) @ crlf
            @ ''connection: close'' @ crlf @ crlf @ body)
    \<and> serve_connection state None = None"
proof -
  have "take 1024 (m @ '' '' @ p @ '' '' @ rest) = m @ CHR '' '' # p @ CHR '' '' # take (1024 - (length m + length p + 2)) rest"
    using assms(5) by (simp add: take_Cons')
  moreover have "is_ascii_space (CHR '' '')" by (simp add: is_ascii_space_def)
  ultimately have path: "request_path (take 1024 (m @ '' '' @ p @ '' '' @ rest)) = p"
    using split_word [OF assms(1,2)] split_word [OF assms(3,4)] by (simp add: request_path_def)
  have n: "show_nat 200 = ''200''" "show_nat 503 = ''503''"
    using char_of_char [of "CHR ''0''", where 'a = nat] char_of_char [of "CHR ''2''", where 'a = nat]
      char_of_char [of "CHR ''3''", where 'a = nat] char_of_char [of "CHR ''5''", where 'a = nat]
    by (simp_all add: show_nat.simps digit_char_def)
  let ?a = "probe_answer state p"
  have "serve_connection state (Some (m @ '' '' @ p @ '' '' @ rest)) = Some (probe_response ?a)"
    by (simp only: serve_connection_def path option.map)
  moreover have "fst ?a = (if (if strip_prefix ''/readyz'' p \<noteq> None then state = RUNNING else state \<noteq> STOPPING) then 200 else 503)"
    by (simp add: probe_answer_def)
  ultimately show ?thesis
    by (intro exI [of _ "snd ?a"]) (simp add: probe_response_def case_prod_beta n serve_connection_def)
qed

theorem probe_tracks_lifecycle_witness:
  "\<exists>body. serve_connection RUNNING (Some ''GET /readyz HTTP/1.1'') =
      Some (''HTTP/1.1 200 OK'' @ crlf @ ''content-type: text/plain'' @ crlf @ ''content-length: '' @ show_nat (length body) @ crlf
            @ ''connection: close'' @ crlf @ crlf @ body)"
  using probe_tracks_lifecycle [of "''GET''" "''/readyz''" RUNNING "''HTTP/1.1''"]
  by (simp add: is_ascii_space_def strip_prefix_def)

text \<open>A port variable that is not a port disables the server, and nothing else.\<close>

lemma junk_port_disables: "parse_u16 raw = None \<Longrightarrow> health_listen (Some raw) bind_var = None"
  by (simp add: health_listen_def)

lemma port_bounds: "parse_u16 (show_nat n) = (if n < 2 ^ 16 then Some (of_nat n) else None)"
proof (cases "n < 2 ^ 16")
  case True
  then show ?thesis by (simp add: parse_u16_def parse_nat_below_show)
next
  case False
  have "parse_nat_below (2 ^ 16) (show_nat n) = None"
    using False by (simp add: parse_nat_below_def drop_plus_digits show_nat_digits)
  then show ?thesis using False by (simp add: parse_u16_def)
qed

section \<open>The commands\<close>

text \<open>Standard output, standard error and the exit code; \<open>display\<close> renders an error.\<close>

definition cmd_validate :: "(config_error \<Rightarrow> string) \<Rightarrow> config cfg \<Rightarrow> string \<times> string \<times> nat" where
  "cmd_validate display loaded =
     (case loaded of
        Inr c \<Rightarrow> (summary c, [], 0)
      | Inl e \<Rightarrow> ([], ''invalid pipeline: '' @ display e, 1))"

end
