(* ===== verification/MockServer.thy ===== *)
theory MockServer
  imports Cli
begin

text \<open>
  The scripted HTTP server of the test suites: \<open>crates/testutil/src/lib.rs\<close>.  A socket is the
  list of what its reads return (a failed read is no value; no more reads are the end of the
  stream); headers are ASCII text.  The JSON text layer is a parameter, and connections are
  served one after the other.
\<close>

section \<open>Replies\<close>

datatype framing = FrameLength | FrameDeclared u64 | FrameUntilEof

record reply =
  rp_status :: nat
  rp_body :: string
  rp_framing :: framing
  rp_headers :: "(string \<times> string) list"

definition reply_raw :: "string \<Rightarrow> reply" where
  "reply_raw body = \<lparr> rp_status = 200, rp_body = body, rp_framing = FrameLength, rp_headers = [] \<rparr>"

definition reply_json :: "(json \<Rightarrow> string) \<Rightarrow> json \<Rightarrow> reply" where
  "reply_json to_text v = reply_raw (to_text v)"

definition reply_status :: "(json \<Rightarrow> string) \<Rightarrow> nat \<Rightarrow> json \<Rightarrow> reply" where
  "reply_status to_text status v = reply_raw (to_text v) \<lparr> rp_status := status \<rparr>"

definition reply_declaring_length :: "u64 \<Rightarrow> reply" where
  "reply_declaring_length n = reply_raw [] \<lparr> rp_framing := FrameDeclared n \<rparr>"

definition reply_until_eof :: "string \<Rightarrow> reply" where
  "reply_until_eof body = reply_raw body \<lparr> rp_framing := FrameUntilEof \<rparr>"

definition with_header :: "string \<Rightarrow> string \<Rightarrow> reply \<Rightarrow> reply" where
  "with_header k v r = r \<lparr> rp_headers := rp_headers r @ [(k, v)] \<rparr>"

definition header_line :: "string \<Rightarrow> string \<Rightarrow> string" where
  "header_line k v = k @ '': '' @ v @ crlf"

definition response_head :: "reply \<Rightarrow> string" where
  "response_head r =
     ''HTTP/1.1 '' @ show_nat (rp_status r) @ '' '' @ (if rp_status r < 300 then ''OK'' else ''Error'') @ crlf
     @ header_line ''content-type'' ''application/json'' @ header_line ''connection'' ''close''
     @ (case rp_framing r of
          FrameLength \<Rightarrow> header_line ''content-length'' (show_nat (length (rp_body r)))
        | FrameDeclared n \<Rightarrow> header_line ''content-length'' (show_u64 n)
        | FrameUntilEof \<Rightarrow> [])
     @ concat (map (\<lambda>(k, v). header_line k v) (rp_headers r)) @ crlf"

section \<open>Reading a request\<close>

record recorded_request =
  rq_path :: string
  rq_body :: json
  rq_auth :: "string option"

type_synonym socket = "string option list"

fun find_subslice :: "string \<Rightarrow> string \<Rightarrow> nat option" where
  "find_subslice needle [] = (if needle = [] then Some 0 else None)"
| "find_subslice needle (c # cs) =
     (if take (length needle) (c # cs) = needle then Some 0 else map_option Suc (find_subslice needle cs))"

definition head_end :: string where
  "head_end = crlf @ crlf"

text \<open>Until the blank line: the bytes read so far and the end of the head.\<close>

fun read_head :: "string \<Rightarrow> socket \<Rightarrow> (string \<times> nat \<times> socket) option" where
  "read_head buf [] = None"
| "read_head buf (None # sock) = None"
| "read_head buf (Some chunk # sock) =
     (if chunk = [] then None
      else case find_subslice head_end (buf @ chunk) of
             Some pos \<Rightarrow> Some (buf @ chunk, pos + 4, sock)
           | None \<Rightarrow> read_head (buf @ chunk) sock)"

fun read_content :: "nat \<Rightarrow> string \<Rightarrow> socket \<Rightarrow> string option" where
  "read_content len body [] = Some body"
| "read_content len body (r # sock) =
     (if length body < len then
        (case r of
           None \<Rightarrow> None
         | Some chunk \<Rightarrow> if chunk = [] then Some body else read_content len (body @ chunk) sock)
      else Some body)"

text \<open>\<open>str::lines\<close>: a line ends with a newline, which a carriage return may precede.\<close>

definition chomp :: "string \<Rightarrow> string" where
  "chomp l = (if l \<noteq> [] \<and> last l = CHR 0x0D then butlast l else l)"

definition lines_of :: "string \<Rightarrow> string list" where
  "lines_of s =
     (let ps = split_char (CHR 0x0A) s
      in map chomp (butlast ps) @ (if last ps = [] then [] else [last ps]))"

definition trim_spaces :: "string \<Rightarrow> string" where
  "trim_spaces s = rev (dropWhile is_ascii_space (rev (dropWhile is_ascii_space s)))"

definition header_of :: "string \<Rightarrow> string \<Rightarrow> string option" where
  "header_of head name =
     map_option (\<lambda>l. trim_spaces (drop (length name + 1) l))
       (find (\<lambda>l. strip_prefix (name @ '':'') (map to_ascii_lower l) \<noteq> None) (lines_of head))"

definition path_of :: "string \<Rightarrow> string option" where
  "path_of head =
     (case lines_of head of
        [] \<Rightarrow> None
      | l # _ \<Rightarrow> (case split_whitespace l of _ # p # _ \<Rightarrow> Some p | _ \<Rightarrow> None))"

definition body_length :: "string \<Rightarrow> nat" where
  "body_length head =
     unwrap_or 0 (Option.bind (header_of head ''content-length'') (parse_nat_below (2 ^ 64)))"

definition read_request :: "(string \<Rightarrow> json res) \<Rightarrow> socket \<Rightarrow> recorded_request option" where
  "read_request from_slice sock =
     Option.bind (read_head [] sock) (\<lambda>(buf, pos, rest).
       let head = take pos buf
       in Option.bind (path_of head) (\<lambda>path.
          Option.bind (read_content (body_length head) (drop pos buf) rest) (\<lambda>body.
            Some \<lparr> rq_path = path,
                   rq_body = (case from_slice body of Inr v \<Rightarrow> v | Inl _ \<Rightarrow> JNull),
                   rq_auth = header_of head ''authorization'' \<rparr>)))"

section \<open>The server\<close>

record mock_server =
  ms_requests :: "recorded_request list"
  ms_calls :: nat

definition mock_start :: mock_server where
  "mock_start = \<lparr> ms_requests = [], ms_calls = 0 \<rparr>"

text \<open>One connection; the handler sees how many requests came before.\<close>

definition serve ::
  "(string \<Rightarrow> json res) \<Rightarrow> (string \<Rightarrow> json \<Rightarrow> nat \<Rightarrow> reply) \<Rightarrow> socket \<Rightarrow> mock_server \<Rightarrow> string \<times> mock_server" where
  "serve from_slice handler sock m =
     (case read_request from_slice sock of
        None \<Rightarrow> ([], m)
      | Some req \<Rightarrow>
          let reply = handler (rq_path req) (rq_body req) (ms_calls m)
          in (response_head reply @ rp_body reply,
              m \<lparr> ms_calls := ms_calls m + 1, ms_requests := ms_requests m @ [req] \<rparr>))"

definition call_count :: "mock_server \<Rightarrow> nat" where
  "call_count m = ms_calls m"

definition query_bodies :: "mock_server \<Rightarrow> json list" where
  "query_bodies m = map rq_body (filter (\<lambda>r. rq_path r = ''/query'') (ms_requests m))"

section \<open>Reading does not depend on the chunks\<close>

lemma find_subslice_bound: "find_subslice n xs = Some k \<Longrightarrow> k + length n \<le> length xs"
proof (induction xs arbitrary: k)
  case (Cons x xs)
  show ?case
  proof (cases "take (length n) (x # xs) = n")
    case True
    then have "length n \<le> length (x # xs)" by (metis length_take min.cobounded1)
    then show ?thesis using Cons.prems True by simp
  next
    case False
    then show ?thesis using Cons by auto
  qed
qed (simp split: if_splits)

lemma find_subslice_append: "find_subslice n xs = Some k \<Longrightarrow> find_subslice n (xs @ ys) = Some k"
proof (induction xs arbitrary: k)
  case Nil
  then show ?case by (cases ys) (auto split: if_splits)
next
  case (Cons x xs)
  show ?case
  proof (cases "take (length n) (x # xs) = n")
    case True
    then have "length n \<le> length (x # xs)" by (metis length_take min.cobounded1)
    then have "take (length n) (x # xs @ ys) = n" using True by (metis append_Cons append_Nil2 diff_is_0_eq take0 take_append)
    then show ?thesis using Cons.prems True by simp
  next
    case False
    then obtain j where j: "find_subslice n xs = Some j" "k = Suc j" using Cons.prems by auto
    have "j + length n \<le> length xs" using j(1) by (rule find_subslice_bound)
    then have "length n \<le> length (x # xs)" by simp
    then have "take (length n) (x # xs @ ys) \<noteq> n" using False by (metis append_Cons append_Nil2 diff_is_0_eq take0 take_append)
    then show ?thesis using Cons.IH [OF j(1)] j(2) by simp
  qed
qed

lemma read_head_chunks:
  "find_subslice head_end (buf @ concat cs) = Some k \<Longrightarrow> find_subslice head_end buf = None \<Longrightarrow> [] \<notin> set cs
   \<Longrightarrow> \<exists>buf' cs'. read_head buf (map Some cs @ later) = Some (buf', k + 4, map Some cs' @ later)
         \<and> buf' @ concat cs' = buf @ concat cs \<and> [] \<notin> set cs' \<and> k + 4 \<le> length buf'"
proof (induction cs arbitrary: buf)
  case (Cons c cs)
  have c: "c \<noteq> []" using Cons.prems(3) by auto
  show ?case
  proof (cases "find_subslice head_end (buf @ c)")
    case None
    then show ?thesis using Cons.IH [of "buf @ c"] Cons.prems c by simp
  next
    case (Some j)
    then have "j = k" using Cons.prems(1) find_subslice_append [of head_end "buf @ c" j "concat cs"] by simp
    moreover have "k + 4 \<le> length (buf @ c)" using Some \<open>j = k\<close> find_subslice_bound [OF Some] by (simp add: head_end_def crlf_def)
    ultimately show ?thesis using Some c Cons.prems(3)
      by (intro exI [of _ "buf @ c"] exI [of _ cs]) auto
  qed
qed simp

lemma read_content_chunks:
  "[] \<notin> set cs \<Longrightarrow> length (body @ concat cs) = len \<Longrightarrow> read_content len body (map Some cs @ later) = Some (body @ concat cs)"
proof (induction cs arbitrary: body)
  case (Cons c cs)
  then show ?case by auto
next
  case Nil
  then show ?case by (cases later) auto
qed

text \<open>
  A request whose head ends at its first blank line and whose body has the declared length is
  recorded whole, with its path, its body and its authorization, however the network cuts it
  into reads, and nothing that arrives later is read.
\<close>

theorem request_read_in_any_chunks:
  assumes "concat cs = head @ body" "[] \<notin> set cs"
    and "find_subslice head_end head = Some k" "length head = k + 4"
    and "path_of head = Some p" "body_length head = length body"
  shows "serve from_slice handler (map Some cs @ later) m =
    (let v = (case from_slice body of Inr v \<Rightarrow> v | Inl _ \<Rightarrow> JNull); r = handler p v (call_count m)
     in (response_head r @ rp_body r,
         \<lparr> ms_requests = ms_requests m @ [\<lparr> rq_path = p, rq_body = v, rq_auth = header_of head ''authorization'' \<rparr>],
           ms_calls = call_count m + 1 \<rparr>))"
proof -
  have "find_subslice head_end ([] @ concat cs) = Some k"
    using assms(1,3) find_subslice_append by simp
  moreover have "find_subslice head_end [] = None" by (simp add: head_end_def crlf_def)
  ultimately obtain buf cs' where h: "read_head [] (map Some cs @ later) = Some (buf, k + 4, map Some cs' @ later)"
      "buf @ concat cs' = concat cs" "[] \<notin> set cs'" "k + 4 \<le> length buf"
    using read_head_chunks [of "[]" cs k later] assms(2) by auto
  have eq: "buf @ concat cs' = head @ body" using h(2) assms(1) by simp
  have "take (k + 4) (buf @ concat cs') = take (k + 4) buf" using h(4) by simp
  then have head: "take (k + 4) buf = head" using assms(4) unfolding eq by simp
  have "drop (k + 4) (buf @ concat cs') = drop (k + 4) buf @ concat cs'" using h(4) by simp
  then have body: "drop (k + 4) buf @ concat cs' = body" using assms(4) unfolding eq by simp
  have "read_content (length body) (drop (k + 4) buf) (map Some cs' @ later) = Some body"
    using read_content_chunks [OF h(3), of "drop (k + 4) buf" "length body" later] body by simp
  then have "read_request from_slice (map Some cs @ later) = Some
      \<lparr> rq_path = p, rq_body = (case from_slice body of Inr v \<Rightarrow> v | Inl _ \<Rightarrow> JNull),
        rq_auth = header_of head ''authorization'' \<rparr>"
    using assms(5,6) h(1) by (simp add: read_request_def head Let_def)
  then show ?thesis by (simp add: serve_def call_count_def Let_def)
qed

definition sample_head :: string where
  "sample_head = ''POST /query HTTP/1.1'' @ crlf @ ''authorization: Bearer t'' @ crlf @ ''content-length: 2'' @ crlf @ crlf"

lemma lines_of_crlf: "CHR 0x0A \<notin> set l \<Longrightarrow> lines_of (l @ crlf @ s) = l # lines_of s"
proof -
  assume "CHR 0x0A \<notin> set l"
  then have "split_char (CHR 0x0A) ((l @ [CHR 0x0D]) @ CHR 0x0A # s) = (l @ [CHR 0x0D]) # split_char (CHR 0x0A) s"
    by (intro split_char_append) auto
  then show ?thesis by (simp add: lines_of_def crlf_def chomp_def Let_def)
qed

lemma sample_lines: "lines_of sample_head = [''POST /query HTTP/1.1'', ''authorization: Bearer t'', ''content-length: 2'', []]"
proof -
  have "lines_of crlf = [[]]" by (simp add: lines_of_def crlf_def chomp_def)
  then show ?thesis unfolding sample_head_def by (simp add: lines_of_crlf del: append_Cons)
qed

lemma sample_head_parts:
  "find_subslice head_end sample_head = Some (length sample_head - 4)" "4 \<le> length sample_head"
  "path_of sample_head = Some ''/query''" "body_length sample_head = 2"
  "header_of sample_head ''authorization'' = Some ''Bearer t''"
proof -
  have h: "header_of sample_head ''content-length'' = Some ''2''"
    "header_of sample_head ''authorization'' = Some ''Bearer t''"
    by (simp_all add: header_of_def sample_lines to_ascii_lower_def strip_prefix_def trim_spaces_def is_ascii_space_def)
  have "parse_nat_below (2 ^ 64) ''2'' = Some 2"
    using parse_nat_below_show [of 2 "2 ^ 64"] char_of_char [of "CHR ''2''", where 'a = nat]
    by (simp add: show_nat.simps digit_char_def)
  then show "body_length sample_head = 2" "header_of sample_head ''authorization'' = Some ''Bearer t''"
    using h by (simp_all add: body_length_def)
  show "path_of sample_head = Some ''/query''"
    by (simp add: path_of_def sample_lines is_ascii_space_def)
  show "find_subslice head_end sample_head = Some (length sample_head - 4)" "4 \<le> length sample_head"
    by (simp_all add: sample_head_def head_end_def crlf_def)
qed

theorem request_read_in_any_chunks_witness:
  "serve (\<lambda>t. Inr (JStr t)) (\<lambda>p v i. reply_raw []) (map Some (map (\<lambda>c. [c]) (sample_head @ ''{}''))) mock_start =
     (response_head (reply_raw []),
      \<lparr> ms_requests = [\<lparr> rq_path = ''/query'', rq_body = JStr ''{}'', rq_auth = Some ''Bearer t'' \<rparr>], ms_calls = 1 \<rparr>)"
proof -
  have "concat (map (\<lambda>c. [c]) (sample_head @ ''{}'')) = sample_head @ ''{}''"
    by (induction "sample_head @ ''{}''") simp_all
  moreover have "[] \<notin> set (map (\<lambda>c. [c]) (sample_head @ ''{}''))" by auto
  ultimately show ?thesis
    using request_read_in_any_chunks [of "map (\<lambda>c. [c]) (sample_head @ ''{}'')" sample_head "''{}''"
        "length sample_head - 4" "''/query''" "\<lambda>t. Inr (JStr t)" "\<lambda>p v i. reply_raw []" "[]" mock_start]
      sample_head_parts
    by (simp add: Let_def mock_start_def call_count_def reply_raw_def)
qed

text \<open>What a reply announces about its body; only \<open>declaring_length\<close> announces what it does not send.\<close>

lemma announced_lengths:
  "rp_framing (reply_json to_text v) = FrameLength" "rp_framing (reply_status to_text n v) = FrameLength"
  "rp_framing (reply_until_eof b) = FrameUntilEof" "rp_framing (reply_declaring_length k) = FrameDeclared k"
  "rp_framing (with_header h x r) = rp_framing r" "rp_body (with_header h x r) = rp_body r"
  by (simp_all add: reply_json_def reply_status_def reply_until_eof_def reply_declaring_length_def
      with_header_def reply_raw_def)

text \<open>A body beyond the declared length that arrives with the head is taken for part of the body.\<close>

lemma surplus_is_kept: "length body \<ge> n \<Longrightarrow> read_content n body sock = Some body"
  by (cases sock) simp_all

end
