(* ===== verification/Run.thy ===== *)
theory Run
  imports Cli
begin

text \<open>
  The life of a process: \<open>run\<close> of \<open>crates/cli/src/pipeline.rs\<close> from the configuration file to
  the spawned tasks, and from the end of the run to the last checkpoint.  What happens in
  between is the step relation of \<open>System\<close>.
\<close>

section \<open>The start\<close>

text \<open>Why a start fails; a failed \<open>expect\<close> would be \<open>StartPanic\<close>.\<close>

datatype start_error = InvalidPipeline config_error | StartFailed string | StartPanic

text \<open>What the start asks of its surroundings.\<close>

record ('bytes, 'pool, 'st, 'h, 'b) run_env =
  re_read :: "string \<Rightarrow> string res"
  re_yaml :: "string \<Rightarrow> string + json"
  re_show_de :: "de_error \<Rightarrow> string"
  re_secrets :: secret_source
  re_store :: "string \<Rightarrow> 'b ckpt_db option res"
  re_connect :: "string \<Rightarrow> u32 \<Rightarrow> 'pool res"
  re_blob :: "blob_conn_cfg \<Rightarrow> 'st blob_conn res"
  re_runtime :: "runtime_config \<Rightarrow> unit res"
  re_files :: "'bytes files"
  re_load :: "(string \<times> 'pool) list \<times> (string \<times> 'st blob_conn) list \<Rightarrow> 'bytes \<Rightarrow> 'bytes node_ctx \<Rightarrow> 'h res"
  re_home :: "string option"
  re_module_dir :: "string option"
  re_token :: "string option"

record ('pool, 'st, 'h, 'b) running =
  ru_config :: config
  ru_services :: "(string \<times> 'pool) list \<times> (string \<times> 'st blob_conn) list"
  ru_processors :: "(string \<times> 'h) list"
  ru_sinks :: "(string \<times> 'h sink_impl) list"
  ru_store :: "'b ckpt"
  ru_sources :: "(hs_source \<times> u64) list"
  ru_state :: u8

text \<open>\<open>Path::parent\<close> of a path without \<open>.\<close> components, and the directory of a configuration.\<close>

definition path_parent :: "string \<Rightarrow> string option" where
  "path_parent p =
     (let t = trim_end_char (CHR ''/'') p
      in if t = [] then None
         else (case dropWhile (\<lambda>c. c \<noteq> CHR ''/'') (rev t) of
                 [] \<Rightarrow> Some []
               | r \<Rightarrow> let d = trim_end_char (CHR ''/'') (rev r) in Some (if d = [] then ''/'' else d)))"

definition base_dir_of :: "string \<Rightarrow> string" where
  "base_dir_of path = unwrap_or ''.'' (path_parent path)"

fun start_res :: "'a res \<Rightarrow> start_error + 'a" where
  "start_res (Inl e) = Inl (StartFailed e)"
| "start_res (Inr x) = Inr x"

fun valid_pipeline :: "config cfg \<Rightarrow> start_error + config" where
  "valid_pipeline (Inl e) = Inl (InvalidPipeline e)"
| "valid_pipeline (Inr c) = Inr c"

text \<open>\<open>--debug-stdout\<close> opens no connection.\<close>

definition open_services ::
  "('bytes, 'pool, 'st, 'h, 'b) run_env \<Rightarrow> bool \<Rightarrow> config \<Rightarrow> ((string \<times> 'pool) list \<times> (string \<times> 'st blob_conn) list) res" where
  "open_services E debug_stdout c =
     (if debug_stdout then Inr ([], [])
      else with_context ''open connections''
             (build_services (re_connect E) (re_blob E) (pg_conns c) (blob_conns c)))"

text \<open>Wiring and spawning; the health state is set last.\<close>

definition spawn_tasks ::
  "string option \<Rightarrow> config \<Rightarrow> 'b ckpt \<Rightarrow> (hs_source \<times> u64) list option" where
  "spawn_tasks token c st =
     (case (wire_inputs c, spawn_sources token c) of
        (Some _, Some srcs) \<Rightarrow> Some (map (\<lambda>s. (s, start_cursor st (reachable_sinks_per_source c) s)) srcs)
      | _ \<Rightarrow> None)"

definition run_start ::
  "('bytes, 'pool, 'st, 'h, 'b) run_env \<Rightarrow> string \<Rightarrow> bool \<Rightarrow> start_error + ('pool, 'st, 'h, 'b) running" where
  "run_start E path debug_stdout =
     and_then (start_res (with_context (''read '' @ path) (re_read E path))) (\<lambda>text.
     and_then (valid_pipeline (load_str (re_yaml E) (re_show_de E) (re_secrets E) text)) (\<lambda>c.
     and_then (start_res (with_context ''open checkpoint store'' (re_store E (ck_path (rt_checkpoint (cfg_runtime c)))))) (\<lambda>file.
     and_then (start_res (open_services E debug_stdout c)) (\<lambda>services.
     and_then (start_res (re_runtime E (runtime_config_of (re_home E) c))) (\<lambda>_.
     and_then (start_res (load_processors (re_files E) (re_load E services) (base_dir_of path)
                 (module_dir (re_module_dir E)) c)) (\<lambda>procs.
     and_then (start_res (load_sinks (re_files E) (re_load E services) debug_stdout (base_dir_of path)
                 (module_dir (re_module_dir E)) c)) (\<lambda>sinks.
       case spawn_tasks (re_token E) c (ckpt_open file) of
         None \<Rightarrow> Inl StartPanic
       | Some srcs \<Rightarrow>
           Inr \<lparr> ru_config = c, ru_services = services, ru_processors = procs, ru_sinks = sinks,
                 ru_store = ckpt_open file, ru_sources = srcs, ru_state = RUNNING \<rparr>)))))))"

section \<open>The end\<close>

text \<open>
  On a signal or when every task has ended: the state is set, the ticking task is aborted and
  one last tick runs on the store and the sinks as they are; tasks that still run are not
  awaited.
\<close>

definition shutdown ::
  "('s \<Rightarrow> 'w \<Rightarrow> unit res spawned \<times> 'w) \<Rightarrow> bool \<Rightarrow> 's list \<Rightarrow> 'b ckpt \<Rightarrow> 'w \<Rightarrow> u8 \<times> 'b ckpt \<times> 'w" where
  "shutdown flush txn_ok sinks st w = (STOPPING, checkpoint_once flush txn_ok sinks st w)"

section \<open>Properties of the start\<close>

lemma start_res_Inr [simp]: "start_res r = Inr x \<longleftrightarrow> r = Inr x"
  by (cases r) simp_all

lemma start_res_Inl [simp]: "start_res r = Inl e \<longleftrightarrow> (\<exists>m. r = Inl m \<and> e = StartFailed m)"
  by (cases r) auto

lemma valid_pipeline_Inr [simp]: "valid_pipeline r = Inr c \<longleftrightarrow> r = Inr c"
  by (cases r) simp_all

lemma load_str_validated: "load_str yaml show_de secrets text = Inr c \<Longrightarrow> \<exists>c0. validate c0 = Inr c"
  by (auto simp: load_str_def split: sum.splits prod.splits if_splits)

lemma spawn_tasks_validated:
  assumes "validate c0 = Inr c"
  shows "\<exists>srcs. spawn_sources token c = Some srcs \<and> map s_name srcs = map src_name (cfg_sources c)
    \<and> spawn_tasks token c st = Some (map (\<lambda>s. (s, start_cursor st (reachable_sinks_per_source c) s)) srcs)"
  using validated_start_never_panics [OF assms, of token] assms
  by (auto simp: spawn_tasks_def validate_Inr with_endpoints_def)

lemma load_processors_names:
  assumes "load_processors fs load base_dir dir c = Inr ps"
  shows "map fst ps = map proc_name (cfg_processors c)"
proof -
  have "list_all2 (\<lambda>p x. fst x = proc_name p) (cfg_processors c) ps"
    using assms unfolding load_processors_def map_res_Inr_iff
    by (rule list_all2_mono) (auto split: prod.splits)
  then show ?thesis by (induction rule: list_all2_induct) auto
qed

lemma load_sinks_shape:
  assumes "load_sinks fs load debug base_dir dir c = Inr ss"
  shows "map fst ss = map sink_name (cfg_sinks c)" "debug \<Longrightarrow> (n, i) \<in> set ss \<Longrightarrow> i = StdoutTap"
proof -
  have "list_all2 (\<lambda>s x. fst x = sink_name s \<and> (debug \<longrightarrow> snd x = StdoutTap)) (cfg_sinks c) ss"
    using assms unfolding load_sinks_def map_res_Inr_iff
    by (rule list_all2_mono) (auto split: if_splits prod.splits)
  then show "map fst ss = map sink_name (cfg_sinks c)" "debug \<Longrightarrow> (n, i) \<in> set ss \<Longrightarrow> i = StdoutTap"
    by (induction rule: list_all2_induct) auto
qed

lemma start_at_least_default: "default_start s \<le> start_cursor st reachable s"
  by (simp add: start_cursor_def split: option.split)

lemma start_no_panic:
  fixes E :: "('bytes, 'pool, 'st, 'h, 'b) run_env"
  shows "run_start E path debug_stdout \<noteq> Inl StartPanic"
proof
  assume "run_start E path debug_stdout = Inl StartPanic"
  then obtain doc c and db :: "'b ckpt_db option" where
    l: "load_str (re_yaml E) (re_show_de E) (re_secrets E) doc = Inr c" "spawn_tasks (re_token E) c (ckpt_open db) = None"
    by (auto simp: run_start_def and_then_Inl split: option.splits elim!: valid_pipeline.elims)
  obtain c0 where "validate c0 = Inr c" using load_str_validated [OF l(1)] by blast
  from spawn_tasks_validated [OF this, of "re_token E" "ckpt_open db"] show False using l(2) by auto
qed

text \<open>What the parts of a running pipeline owe its configuration.\<close>

definition resumes_ok :: "config \<Rightarrow> 'b ckpt \<Rightarrow> hs_source \<Rightarrow> u64 \<Rightarrow> bool" where
  "resumes_ok c st s start =
     (default_start s \<le> start
      \<and> (\<forall>k \<in> set (cfg_sinks c). (s_name s, sink_name k) \<in> (feeds c)\<^sup>+ \<longrightarrow>
           (case mem_cursor st (s_name s, sink_name k) of
              None \<Rightarrow> start = default_start s | Some v \<Rightarrow> start \<le> max v (default_start s))))"


section \<open>Properties of the end\<close>

lemma flush_sinks_ok:
  "\<forall>s \<in> set sinks. \<forall>w. flush_ok (fst (flush s w)) \<Longrightarrow> \<exists>w'. flush_sinks flush sinks w = (True, w')"
proof (induction sinks arbitrary: w)
  case (Cons s sinks)
  obtain r w1 where r: "flush s w = (r, w1)" by (cases "flush s w")
  have "flush_ok (fst (flush s w))" using Cons.prems by simp
  then show ?case using r Cons.IH [of w1] Cons.prems by simp
qed simp

lemma restore_cong: "(\<And>k. map_of c (src, k) = map_of d (src, k)) \<Longrightarrow> restore_min c src ks m = restore_min d src ks m"
  by (induction ks arbitrary: m) (auto split: option.split)

lemma start_cursor_cong: "mem_cursor st = mem_cursor st' \<Longrightarrow> start_cursor st reachable s = start_cursor st' reachable s"
  using restore_cong [of "ck_cursors st" "s_name s" "ck_cursors st'"]
  by (simp add: start_cursor_def ckpt_restore_def mem_cursor_def fun_eq_iff)

lemma full_persist_reopens:
  assumes "ck_reach st p"
  shows "mem_cursor (ckpt_open (Some (ck_db (snd (persist_snapshot True (ckpt_snapshot st) st))))) = mem_cursor st"
proof
  fix k
  let ?st = "snd (persist_snapshot True (ckpt_snapshot st) st)"
  have inv: "ckpt_inv st p" by (rule ckpt_inv_reach [OF assms])
  then have ok: "maps_ok st" "btm_ok (db_cursors (ck_db ?st))"
    by (auto simp: ckpt_inv_def intro: maps_okD maps_ok_persist)
  have "mem_cursor (ckpt_open (Some (ck_db ?st))) k = durable_cursor ?st k"
    using ok(2) by (simp add: mem_cursor_open durable_cursor_def)
  also have "\<dots> = mem_cursor st k"
  proof (cases "mem_cursor st k")
    case None
    then have "durable_cursor st k = None" using inv unfolding ckpt_inv_def cursors_inv_def
      by (metis not_None_eq)
    moreover have "map_of (rev (ckpt_snapshot st)) k = None"
      using None maps_okD(1) [OF ok(1)] by (simp add: ckpt_snapshot_def map_of_rev_btm mem_cursor_def)
    ultimately show ?thesis using None durable_persist [OF ok(1)] by simp
  next
    case (Some n)
    then show ?thesis using live_floor [OF ok(1)] by simp
  qed
  finally show "mem_cursor (ckpt_open (Some (ck_db ?st))) k = mem_cursor st k" .
qed



section \<open>A start\<close>

definition run_doc :: json where
  "run_doc = JObj
     [(''name'', JStr ''p''),
      (''sinks'', JArr [JObj [(''inputs'', JArr [JStr ''eth'']), (''module'', JObj [(''file'', JStr ''lake.wasm'')]),
                               (''name'', JStr ''lake'')]]),
      (''sources'', JArr [JObj [(''chain_id'', jnat 1), (''name'', JStr ''eth''), (''query'', JObj []),
                                 (''url'', JStr ''http://h'')]])]"

definition run_demo :: "(string, unit, unit, string, string) run_env" where
  "run_demo = \<lparr> re_read = (\<lambda>p. Inr p), re_yaml = (\<lambda>t. Inr run_doc), re_show_de = (\<lambda>e. []), re_secrets = (\<lambda>n. None),
     re_store = (\<lambda>p. Inr None), re_connect = (\<lambda>d n. Inr ()), re_blob = (\<lambda>b. Inl ''none''), re_runtime = (\<lambda>r. Inr ()),
     re_files = demo_files, re_load = (\<lambda>s b n. Inr b), re_home = None, re_module_dir = None, re_token = None \<rparr>"

lemma run_demo_loads:
  "(case load_str (\<lambda>t. Inr run_doc) (\<lambda>e. []) (\<lambda>n. None) t of
      Inl e \<Rightarrow> False
    | Inr c \<Rightarrow> cfg_processors c = [] \<and> cfg_connections c = [] \<and> map src_name (cfg_sources c) = [''eth'']
        \<and> map sink_name (cfg_sinks c) = [''lake''] \<and> map sink_module (cfg_sinks c) = [File ''lake.wasm''])"
  by code_simp

lemma run_demo_starts:
  "\<exists>R. run_start run_demo ''/etc/p.yaml'' False = Inr R
     \<and> map src_name (cfg_sources (ru_config R)) = [''eth''] \<and> map sink_name (cfg_sinks (ru_config R)) = [''lake'']"
proof -
  obtain c where l: "load_str (\<lambda>t. Inr run_doc) (\<lambda>e. []) (\<lambda>n. None) ''/etc/p.yaml'' = Inr c"
    and c: "cfg_processors c = []" "cfg_connections c = []" "map src_name (cfg_sources c) = [''eth'']"
      "map sink_name (cfg_sinks c) = [''lake'']" "map sink_module (cfg_sinks c) = [File ''lake.wasm'']"
    using run_demo_loads [of "''/etc/p.yaml''"]
    by (cases "load_str (\<lambda>t. Inr run_doc) (\<lambda>e. []) (\<lambda>n. None) ''/etc/p.yaml''") auto
  obtain k where k: "cfg_sinks c = [k]" "sink_module k = File ''lake.wasm''" using c(4,5) by auto
  obtain c0 where "validate c0 = Inr c" using load_str_validated [OF l] by blast
  then obtain srcs where srcs: "spawn_tasks None c (ckpt_open (None :: string ckpt_db option)) = Some srcs"
    using spawn_tasks_validated by blast
  have "\<exists>R. run_start run_demo ''/etc/p.yaml'' False = Inr R \<and> ru_config R = c"
    using l c(1,2) k srcs
    by (simp add: run_start_def run_demo_def open_services_def build_services_def pg_conns_def blob_conns_def
        load_processors_def load_sinks_def sink_node_def resolve_module_def demo_files_def with_context_def)
  then show ?thesis using c(3,4) by auto
qed


text \<open>Where the module of the sink is read: next to the configuration.\<close>

lemma base_dir_examples:
  "base_dir_of ''/etc/hp/p.yaml'' = ''/etc/hp''" "base_dir_of ''p.yaml'' = []" "base_dir_of ''/p.yaml'' = ''/''"
  by (simp_all add: base_dir_of_def path_parent_def trim_end_char_def Let_def)

end
