(* ===== verification/Commands.thy ===== *)
theory Commands
  imports Run
begin

text \<open>
  The program: \<open>crates/cli/src/main.rs\<close>.  The two commands, what they print and the code with
  which the process ends.  Parsing the arguments (the enum is what it yields), the setup of the
  log and the rendering of errors are parameters.
\<close>

section \<open>Commands\<close>

datatype command = Validate string | RunPipeline string bool

text \<open>\<open>Config::load\<close>: the file, with secrets from the environment.\<close>

definition config_load ::
  "(string \<Rightarrow> string res) \<Rightarrow> (string \<Rightarrow> string + json) \<Rightarrow> (de_error \<Rightarrow> string) \<Rightarrow> (string \<Rightarrow> string option)
   \<Rightarrow> string \<Rightarrow> config cfg" where
  "config_load read yaml show_de env path =
     (case read path of
        Inl e \<Rightarrow> Inl (IoError path e)
      | Inr text \<Rightarrow> load_str yaml show_de (env_secrets env) text)"

text \<open>Standard output, standard error and the exit code.\<close>

record outcome =
  oc_stdout :: string
  oc_stderr :: string
  oc_code :: nat

fun to_outcome :: "string \<times> string \<times> nat \<Rightarrow> outcome" where
  "to_outcome (out, err, code) = \<lparr> oc_stdout = out, oc_stderr = err, oc_code = code \<rparr>"

text \<open>
  An error that \<open>main\<close> returns is reported and ends the process with 1, a panic with 101.  Once
  a pipeline has started, \<open>run\<close> ends well; its tasks print nothing here.
\<close>

fun cmd_run :: "(start_error \<Rightarrow> string) \<Rightarrow> start_error + 'r \<Rightarrow> outcome" where
  "cmd_run report (Inl StartPanic) = \<lparr> oc_stdout = [], oc_stderr = report StartPanic, oc_code = 101 \<rparr>"
| "cmd_run report (Inl e) = \<lparr> oc_stdout = [], oc_stderr = ''Error: '' @ report e, oc_code = 1 \<rparr>"
| "cmd_run report (Inr r) = \<lparr> oc_stdout = [], oc_stderr = [], oc_code = 0 \<rparr>"

fun main_command ::
  "(config_error \<Rightarrow> string) \<Rightarrow> (start_error \<Rightarrow> string) \<Rightarrow> (string \<Rightarrow> string option)
   \<Rightarrow> ('bytes, 'pool, 'st, 'h, 'b) run_env \<Rightarrow> command \<Rightarrow> outcome" where
  "main_command display report env E (Validate path) =
     to_outcome (cmd_validate display (config_load (re_read E) (re_yaml E) (re_show_de E) env path))"
| "main_command display report env E (RunPipeline path debug_stdout) =
     cmd_run report (run_start E path debug_stdout)"

section \<open>What validate says about run\<close>

lemma run_start_rejects:
  "run_start E path debug_stdout = Inl (InvalidPipeline e)
   \<longleftrightarrow> (\<exists>text. re_read E path = Inr text \<and> load_str (re_yaml E) (re_show_de E) (re_secrets E) text = Inl e)"
proof (cases "re_read E path")
  case (Inr doc)
  show ?thesis
  proof (cases "load_str (re_yaml E) (re_show_de E) (re_secrets E) doc")
    case (Inl e')
    then show ?thesis using Inr by (auto simp: run_start_def with_context_def)
  next
    case ok: (Inr c)
    have "run_start E path debug_stdout \<noteq> Inl (InvalidPipeline e)"
      using Inr ok by (auto simp: run_start_def with_context_def and_then_Inl split: option.splits)
    then show ?thesis using Inr ok by simp
  qed
qed (simp add: run_start_def with_context_def)

lemma run_start_config:
  "run_start E path debug_stdout = Inr R
   \<Longrightarrow> \<exists>text. re_read E path = Inr text \<and> load_str (re_yaml E) (re_show_de E) (re_secrets E) text = Inr (ru_config R)"
  by (auto simp: run_start_def with_context_def split: option.splits sum.splits)



end
