(* ===== verification/PgSink.thy ===== *)
theory PgSink
  imports Sdk
begin

text \<open>
  The Postgres sink: \<open>modules/postgres-sink/src/sql.rs\<close> (configuration and SQL generation) and
  \<open>lib.rs\<close> (write and rollback).  The host import \<open>sql-batch\<close> is a parameter: it takes the
  connection and the statements with their bound values, and runs them in one transaction.
\<close>

section \<open>Configuration\<close>

record pg_config =
  pg_connection :: string
  pg_table :: string
  pg_upsert :: bool
  pg_unique_key :: "string list"
  pg_create_table :: bool
  pg_column_map :: "(string, string) btm"
  pg_rollback_block_column :: "string option"
  pg_rollback_chain_column :: "string option"

definition pg_str_field :: "string \<Rightarrow> string \<Rightarrow> (string \<times> json) list \<Rightarrow> string res" where
  "pg_str_field k dflt m =
     (case map_of m k of
        None \<Rightarrow> Inr dflt
      | Some v \<Rightarrow> ok_or (''postgres: rollback.'' @ k @ '' must be a string'') (as_str v))"

definition pg_chain_column :: "(string \<times> json) list \<Rightarrow> string option res" where
  "pg_chain_column m =
     (case map_of m ''chain_id_column'' of
        None \<Rightarrow> Inr (Some ''chain_id'')
      | Some JNull \<Rightarrow> Inr None
      | Some v \<Rightarrow>
          and_then (ok_or ''postgres: rollback.chain_id_column must be a string or null'' (as_str v))
            (\<lambda>s. Inr (Some s)))"

definition pg_rollback_columns :: "json option \<Rightarrow> (string option \<times> string option) res" where
  "pg_rollback_columns v =
     (case v of
        None \<Rightarrow> Inr (None, None)
      | Some (JBool False) \<Rightarrow> Inr (None, None)
      | Some (JBool True) \<Rightarrow> Inr (Some ''block_number'', Some ''chain_id'')
      | Some (JObj m) \<Rightarrow>
          and_then (pg_str_field ''block_number_column'' ''block_number'' m) (\<lambda>block.
          and_then (pg_chain_column m) (\<lambda>chain. Inr (Some block, chain)))
      | Some _ \<Rightarrow> Inl ''postgres: config.rollback must be a bool or an object'')"

definition pg_column_map_of :: "json \<Rightarrow> (string, string) btm" where
  "pg_column_map_of config =
     (case Option.bind (jget ''column_map'' config) as_object of
        None \<Rightarrow> []
      | Some m \<Rightarrow>
          btm_of_list (List.map_filter (\<lambda>(path, col). map_option (\<lambda>c. (path, c)) (as_str col)) m))"

definition pg_from_json :: "json \<Rightarrow> pg_config res" where
  "pg_from_json config =
     and_then (ok_or ''postgres: config.connection required'' (jget_str ''connection'' config)) (\<lambda>conn.
     and_then (ok_or ''postgres: config.table required'' (jget_str ''table'' config)) (\<lambda>tbl.
       let upsert = (jget_str ''mode'' config = Some ''upsert'');
           unique_key = (case jget_array ''unique_key'' config of
                           None \<Rightarrow> [] | Some a \<Rightarrow> List.map_filter as_str a)
       in if upsert \<and> unique_key = [] then Inl ''postgres: mode upsert requires unique_key''
          else
            and_then (pg_rollback_columns (jget ''rollback'' config)) (\<lambda>(block, chain).
              Inr \<lparr> pg_connection = conn, pg_table = tbl, pg_upsert = upsert,
                    pg_unique_key = unique_key,
                    pg_create_table = unwrap_or False (jget_bool ''create_table'' config),
                    pg_column_map = pg_column_map_of config,
                    pg_rollback_block_column = block, pg_rollback_chain_column = chain \<rparr>)))"

section \<open>Rows\<close>

type_synonym row = "(string \<times> json) list"

definition pg_resolve_path :: "json \<Rightarrow> string \<Rightarrow> json option" where
  "pg_resolve_path r path = walk_path r (split_char (CHR ''.'') path)"

definition scalar_columns :: "json \<Rightarrow> row" where
  "scalar_columns r =
     (case as_object r of None \<Rightarrow> [] | Some m \<Rightarrow> filter (\<lambda>(k, v). \<not> is_nested v) m)"

text \<open>Overwrite the first column of that name, or append it.\<close>

fun set_column :: "string \<Rightarrow> json \<Rightarrow> row \<Rightarrow> row" where
  "set_column c v [] = [(c, v)]"
| "set_column c v ((d, w) # cols) = (if d = c then (d, v) # cols else (d, w) # set_column c v cols)"

definition map_columns :: "json \<Rightarrow> (string, string) btm \<Rightarrow> row \<Rightarrow> row" where
  "map_columns r cm cols =
     fold (\<lambda>(path, col) cols. case pg_resolve_path r path of
                               None \<Rightarrow> cols | Some v \<Rightarrow> set_column col v cols) cm cols"

definition resolve_columns :: "json \<Rightarrow> (string, string) btm \<Rightarrow> row" where
  "resolve_columns r cm = sort_key fst (map_columns r cm (scalar_columns r))"

definition union_columns :: "row list \<Rightarrow> (string, json) btm" where
  "union_columns rows =
     fold (\<lambda>(c, v) u. if map_of u c = None then btm_insert c v u else u) (concat rows) []"

definition add_to_group :: "row \<Rightarrow> (string list, row list) btm \<Rightarrow> (string list, row list) btm" where
  "add_to_group r gs =
     (let sig = map fst r in btm_insert sig (unwrap_or [] (map_of gs sig) @ [r]) gs)"

definition group_by_signature :: "row list \<Rightarrow> row list list" where
  "group_by_signature rows = map snd (fold add_to_group rows [])"

section \<open>Statements\<close>

definition dquote :: char where
  "dquote = CHR 0x22"

definition quote_ident :: "string \<Rightarrow> string" where
  "quote_ident s = [dquote] @ concat (map (\<lambda>c. if c = dquote then [dquote, dquote] else [c]) s) @ [dquote]"

fun col_type :: "json \<Rightarrow> string" where
  "col_type (JBool _) = ''boolean''"
| "col_type (JNum (NPos _)) = ''bigint''"
| "col_type (JNum (NNeg _)) = ''bigint''"
| "col_type (JNum (NFloat _)) = ''double precision''"
| "col_type (JStr s) = (if is_decimal_str s then ''numeric'' else ''text'')"
| "col_type _ = ''jsonb''"

definition casts_numeric :: "json \<Rightarrow> bool" where
  "casts_numeric v = (case v of JStr s \<Rightarrow> is_decimal_str s | _ \<Rightarrow> False)"

definition placeholder :: "nat \<Rightarrow> json \<Rightarrow> string" where
  "placeholder i v = ''$'' @ show_nat i @ (if casts_numeric v then ''::numeric'' else [])"

definition idents :: "string list \<Rightarrow> string" where
  "idents cs = join '', '' (map quote_ident cs)"

definition rollback_delete_stmt :: "string \<Rightarrow> string \<Rightarrow> string option \<Rightarrow> string" where
  "rollback_delete_stmt table block_col chain_col =
     (case chain_col of
        Some c \<Rightarrow>
          ''DELETE FROM '' @ quote_ident table @ '' WHERE '' @ quote_ident block_col @ '' > $1 AND ''
            @ quote_ident c @ '' = $2''
      | None \<Rightarrow> ''DELETE FROM '' @ quote_ident table @ '' WHERE '' @ quote_ident block_col @ '' > $1'')"

definition ddl :: "string \<Rightarrow> row \<Rightarrow> string list \<Rightarrow> string" where
  "ddl table sample unique_key =
     (let parts = map (\<lambda>(c, v). quote_ident c @ '' '' @ col_type v) sample
                  @ (if unique_key = [] then [] else [''PRIMARY KEY ('' @ idents unique_key @ '')''])
      in ''CREATE TABLE IF NOT EXISTS '' @ quote_ident table @ '' ('' @ join '', '' parts @ '')'')"

definition upsert_stmt :: "string \<Rightarrow> row \<Rightarrow> string list \<Rightarrow> bool \<Rightarrow> string" where
  "upsert_stmt table r unique_key upsert =
     (let columns = map fst r;
          placeholders = map (\<lambda>(i, c, v). placeholder (i + 1) v) (List.enumerate 0 r);
          insert1 = ''INSERT INTO '' @ quote_ident table @ '' ('' @ idents columns @ '') VALUES (''
                    @ join '', '' placeholders @ '')'';
          updates = map (\<lambda>c. quote_ident c @ '' = EXCLUDED.'' @ quote_ident c)
                      (filter (\<lambda>c. c \<notin> set unique_key) columns)
      in if upsert \<and> unique_key \<noteq> [] then
           (if updates = [] then
              insert1 @ '' ON CONFLICT ('' @ idents unique_key @ '') DO NOTHING''
            else
              insert1 @ '' ON CONFLICT ('' @ idents unique_key @ '') DO UPDATE SET '' @ join '', '' updates)
         else insert1)"

section \<open>The sink\<close>

text \<open>A statement with the values bound to its placeholders; the DDL carries none.\<close>

type_synonym statement = "string \<times> json list option"

type_synonym 'w sql_import = "string \<Rightarrow> statement list \<Rightarrow> 'w \<Rightarrow> u64 res \<times> 'w"

record pg_sink =
  pg_cfg :: pg_config
  pg_created :: bool

definition pg_init :: "json \<Rightarrow> pg_sink res" where
  "pg_init config = and_then (pg_from_json config) (\<lambda>c. Inr \<lparr> pg_cfg = c, pg_created = False \<rparr>)"

definition pg_rows :: "pg_config \<Rightarrow> batch \<Rightarrow> row list" where
  "pg_rows c b = filter (\<lambda>r. r \<noteq> []) (map (\<lambda>r. resolve_columns r (pg_column_map c)) (b_records b))"

definition group_statements :: "pg_config \<Rightarrow> row list \<Rightarrow> statement list" where
  "group_statements c g =
     (let stmt = upsert_stmt (pg_table c) (hd g) (pg_unique_key c) (pg_upsert c)
      in map (\<lambda>r. (stmt, Some (map snd r))) g)"

definition row_statements :: "pg_config \<Rightarrow> row list \<Rightarrow> statement list" where
  "row_statements c rows = concat (map (group_statements c) (group_by_signature rows))"

definition pg_write :: "'w sql_import \<Rightarrow> pg_sink \<Rightarrow> batch \<Rightarrow> 'w \<Rightarrow> unit res \<times> pg_sink \<times> 'w" where
  "pg_write sql p b w =
     (let c = pg_cfg p; rows = pg_rows c b
      in if rows = [] then (Inr (), p, w)
         else
           let ddl_stmts = (if pg_create_table c \<and> \<not> pg_created p
                            then [(ddl (pg_table c) (union_columns rows) (pg_unique_key c), None)] else [])
           in case sql (pg_connection c) (ddl_stmts @ row_statements c rows) w of
                (Inl e, w') \<Rightarrow> (Inl e, p, w')
              | (Inr n, w') \<Rightarrow> (Inr (), p \<lparr> pg_created := True \<rparr>, w'))"

definition pg_on_control ::
  "'w sql_import \<Rightarrow> pg_sink \<Rightarrow> control_record \<Rightarrow> 'w \<Rightarrow> unit res \<times> pg_sink \<times> 'w" where
  "pg_on_control sql p ctrl w =
     (case ctrl of
        Eof _ _ \<Rightarrow> (Inr (), p, w)
      | Rollback chain after \<Rightarrow>
          (case pg_rollback_block_column (pg_cfg p) of
             None \<Rightarrow> (Inr (), p, w)
           | Some block_col \<Rightarrow>
               let chain_col = pg_rollback_chain_column (pg_cfg p);
                   stmt = rollback_delete_stmt (pg_table (pg_cfg p)) block_col chain_col;
                   params = (case chain_col of Some _ \<Rightarrow> [jnat after, jnat chain] | None \<Rightarrow> [jnat after])
               in case sql (pg_connection (pg_cfg p)) [(stmt, Some params)] w of
                    (Inr n, w') \<Rightarrow> (Inr (), p, w')
                  | (Inl e, w') \<Rightarrow>
                      if pg_create_table (pg_cfg p) \<and> \<not> pg_created p then (Inr (), p, w')
                      else (Inl e, p, w')))"

end
