(* ===== verification/PgProps.thy ===== *)
theory PgProps
  imports PgSink
begin

text \<open>
  Properties of the Postgres sink: which columns a record becomes, what the statements of a
  write bind, what identifiers a statement contains, and what a failed rollback reports.
\<close>

section \<open>Columns of a record\<close>

lemma map_of_set_column: "map_of (set_column c v cols) = (map_of cols)(c \<mapsto> v)"
  by (induction c v cols rule: set_column.induct) (auto simp: fun_eq_iff)

lemma set_column_keys: "set (map fst (set_column c v cols)) = insert c (set (map fst cols))"
  by (induction c v cols rule: set_column.induct) auto

lemma distinct_set_column: "distinct (map fst cols) \<Longrightarrow> distinct (map fst (set_column c v cols))"
proof (induction c v cols rule: set_column.induct)
  case (2 c v d w cols)
  then show ?case using set_column_keys [of c v cols] by auto
qed simp

text \<open>The values that the column map assigns to a column, in the order of the paths.\<close>

definition mapped_values :: "json \<Rightarrow> (string, string) btm \<Rightarrow> string \<Rightarrow> json list" where
  "mapped_values r cm c =
     List.map_filter (\<lambda>(path, col). if col = c then pg_resolve_path r path else None) cm"

definition column_value :: "json \<Rightarrow> (string, string) btm \<Rightarrow> string \<Rightarrow> json option" where
  "column_value r cm c =
     (let vs = mapped_values r cm c
      in if vs = [] then map_of (scalar_columns r) c else Some (last vs))"

lemma map_columns_Cons:
  "map_columns r ((path, col) # cm) cols =
     map_columns r cm (case pg_resolve_path r path of None \<Rightarrow> cols | Some v \<Rightarrow> set_column col v cols)"
  by (simp add: map_columns_def)

lemma map_columns_Nil [simp]: "map_columns r [] cols = cols"
  by (simp add: map_columns_def)

lemma mapped_values_Cons:
  "mapped_values r ((path, col) # cm) c =
     (if col = c then (case pg_resolve_path r path of None \<Rightarrow> [] | Some v \<Rightarrow> [v]) else [])
     @ mapped_values r cm c"
  by (simp add: mapped_values_def map_filter_simps split: option.split)

lemma map_of_map_columns:
  "map_of (map_columns r cm cols) c =
     (let vs = mapped_values r cm c in if vs = [] then map_of cols c else Some (last vs))"
proof (induction cm arbitrary: cols)
  case Nil
  then show ?case by (simp add: mapped_values_def map_filter_simps)
next
  case (Cons pc cm)
  obtain path col where pc: "pc = (path, col)" by (cases pc)
  show ?case
    using Cons.IH [of "case pg_resolve_path r path of None \<Rightarrow> cols | Some v \<Rightarrow> set_column col v cols"]
    by (simp add: pc map_columns_Cons mapped_values_Cons Let_def map_of_set_column split: option.split)
qed

lemma distinct_map_columns:
  "distinct (map fst cols) \<Longrightarrow> distinct (map fst (map_columns r cm cols))"
proof (induction cm arbitrary: cols)
  case (Cons pc cm)
  obtain path col where pc: "pc = (path, col)" by (cases pc)
  show ?case using Cons.prems
    by (auto simp: pc map_columns_Cons intro!: Cons.IH distinct_set_column split: option.split)
qed simp

lemma btm_ok_scalar: "json_ok r \<Longrightarrow> btm_ok (scalar_columns r)"
  by (cases r) (simp_all add: scalar_columns_def)

lemma map_of_sort_key:
  "distinct (map fst cols) \<Longrightarrow> map_of (sort_key fst cols) = map_of cols"
proof -
  assume d: "distinct (map fst cols)"
  have "mset (map fst (sort_key fst cols)) = mset (map fst cols)" by simp
  then have "distinct (map fst (sort_key fst cols))" using d mset_eq_imp_distinct_iff by blast
  then show ?thesis using d by (intro map_of_eqI) (auto simp: dest: map_of_is_SomeI)
qed

lemma resolve_columns_ok:
  assumes "json_ok r"
  shows "btm_ok (resolve_columns r cm)" "map_of (resolve_columns r cm) c = column_value r cm c"
proof -
  have d: "distinct (map fst (map_columns r cm (scalar_columns r)))"
    using btm_ok_scalar [OF assms] by (intro distinct_map_columns btm_ok_distinct)
  have "mset (map fst (resolve_columns r cm)) = mset (map fst (map_columns r cm (scalar_columns r)))"
    by (simp add: resolve_columns_def)
  then have "distinct (map fst (resolve_columns r cm))" using d mset_eq_imp_distinct_iff by blast
  moreover have "sorted (map fst (resolve_columns r cm))"
    by (simp add: resolve_columns_def)
  ultimately show "btm_ok (resolve_columns r cm)" by (simp add: btm_ok_def strict_sorted_iff)
  show "map_of (resolve_columns r cm) c = column_value r cm c"
    by (simp add: resolve_columns_def map_of_sort_key [OF d] map_of_map_columns column_value_def)
qed

section \<open>Groups\<close>

definition groups_ok :: "(string list, row list) btm \<Rightarrow> bool" where
  "groups_ok gs = (btm_ok gs \<and> (\<forall>(sig, g) \<in> set gs. g \<noteq> [] \<and> (\<forall>r \<in> set g. map fst r = sig)))"

lemma mset_btm_insert:
  "btm_ok gs \<Longrightarrow> mset (concat (map snd (btm_insert k (unwrap_or [] (map_of gs k) @ [r]) gs)))
     = mset (concat (map snd gs)) + {#r#}"
proof (induction gs)
  case (Cons x gs)
  obtain a g where x: "x = (a, g)" by (cases x)
  show ?case
  proof (cases "k < a")
    case True
    then have "map_of (x # gs) k = None"
      using Cons.prems by (intro map_of_btm_None) (auto simp: x btm_ok_Cons)
    then show ?thesis using True by (simp add: x)
  next
    case False
    have "btm_ok gs" using Cons.prems by (simp add: x btm_ok_Cons)
    then show ?thesis using Cons.IH False by (auto simp: x)
  qed
qed simp

lemma add_to_group_ok:
  assumes "groups_ok gs"
  shows "groups_ok (add_to_group r gs)"
    "mset (concat (map snd (add_to_group r gs))) = mset (concat (map snd gs)) + {#r#}"
proof -
  have b: "btm_ok gs" using assms by (simp add: groups_ok_def)
  have "\<forall>(sig, g) \<in> set (add_to_group r gs). g \<noteq> [] \<and> (\<forall>r \<in> set g. map fst r = sig)"
  proof clarify
    fix sig g
    assume "(sig, g) \<in> set (add_to_group r gs)"
    then consider "sig = map fst r" "g = unwrap_or [] (map_of gs sig) @ [r]" | "(sig, g) \<in> set gs"
      unfolding add_to_group_def Let_def by (auto dest!: set_btm_insert [THEN subsetD])
    then show "g \<noteq> [] \<and> (\<forall>r \<in> set g. map fst r = sig)"
    proof cases
      case 1
      then show ?thesis using assms
        by (auto simp: groups_ok_def unwrap_or_def split: option.splits dest!: map_of_SomeD)
    next
      case 2
      then show ?thesis using assms by (auto simp: groups_ok_def)
    qed
  qed
  then show "groups_ok (add_to_group r gs)"
    using b by (simp add: groups_ok_def add_to_group_def Let_def)
  show "mset (concat (map snd (add_to_group r gs))) = mset (concat (map snd gs)) + {#r#}"
    unfolding add_to_group_def Let_def by (rule mset_btm_insert [OF b])
qed

lemma fold_groups_ok:
  "groups_ok gs \<Longrightarrow> groups_ok (fold add_to_group rows gs)
     \<and> mset (concat (map snd (fold add_to_group rows gs))) = mset (concat (map snd gs)) + mset rows"
proof (induction rows arbitrary: gs)
  case (Cons r rows)
  have g: "groups_ok (add_to_group r gs)"
    "mset (concat (map snd (add_to_group r gs))) = mset (concat (map snd gs)) + {#r#}"
    using Cons.prems by (rule add_to_group_ok)+
  show ?case using Cons.IH [OF g(1)] g(2) by simp
qed simp

lemma group_by_signature_ok:
  "mset (concat (group_by_signature rows)) = mset rows"
  "g \<in> set (group_by_signature rows) \<Longrightarrow> g \<noteq> [] \<and> (\<forall>r \<in> set g. map fst r = map fst (hd g))"
proof -
  have "groups_ok []" by (simp add: groups_ok_def)
  then have f: "groups_ok (fold add_to_group rows [])"
    "mset (concat (map snd (fold add_to_group rows []))) = mset rows"
    using fold_groups_ok [of "[]" rows] by simp_all
  then show "mset (concat (group_by_signature rows)) = mset rows"
    by (simp add: group_by_signature_def)
  assume "g \<in> set (group_by_signature rows)"
  then obtain sig where "(sig, g) \<in> set (fold add_to_group rows [])"
    by (auto simp: group_by_signature_def)
  then have "g \<noteq> []" "\<forall>r \<in> set g. map fst r = sig" using f(1) by (auto simp: groups_ok_def)
  then show "g \<noteq> [] \<and> (\<forall>r \<in> set g. map fst r = map fst (hd g))" by (cases g) auto
qed

section \<open>Identifiers of a statement\<close>

text \<open>
  How Postgres reads the quoted identifiers of a statement: between two double quotes, where
  two double quotes stand for one.
\<close>

fun sql_idents :: "string option \<Rightarrow> string \<Rightarrow> string list" where
  "sql_idents None [] = []"
| "sql_idents None (c # cs) = (if c = dquote then sql_idents (Some []) cs else sql_idents None cs)"
| "sql_idents (Some acc) [] = []"
| "sql_idents (Some acc) [c] = (if c = dquote then [acc] else [])"
| "sql_idents (Some acc) (c # d # cs) =
     (if c = dquote then
        (if d = dquote then sql_idents (Some (acc @ [dquote])) cs else acc # sql_idents None (d # cs))
      else sql_idents (Some (acc @ [c])) (d # cs))"

definition unquoted :: "string \<Rightarrow> bool" where
  "unquoted s = (dquote \<notin> set s)"

lemma unquoted_simps [simp]: "unquoted []" "unquoted (c # s) \<longleftrightarrow> c \<noteq> dquote \<and> unquoted s"
  "unquoted (s @ t) \<longleftrightarrow> unquoted s \<and> unquoted t"
  by (auto simp: unquoted_def)

lemma idents_unquoted: "unquoted t \<Longrightarrow> sql_idents None (t @ rest) = sql_idents None rest"
  by (induction t) auto

lemma idents_unquoted_end: "unquoted t \<Longrightarrow> sql_idents None t = []"
  using idents_unquoted [of t "[]"] by simp

lemma idents_inside:
  "rest = [] \<or> hd rest \<noteq> dquote
   \<Longrightarrow> sql_idents (Some acc) (concat (map (\<lambda>c. if c = dquote then [dquote, dquote] else [c]) s) @ dquote # rest)
       = (acc @ s) # sql_idents None rest"
proof (induction s arbitrary: acc)
  case Nil
  then show ?case by (cases rest) auto
next
  case (Cons c s)
  let ?esc = "concat (map (\<lambda>c. if c = dquote then [dquote, dquote] else [c]) s)"
  obtain d ds where d: "?esc @ dquote # rest = d # ds" by (cases "?esc @ dquote # rest") auto
  then show ?case using Cons.IH [OF Cons.prems] by auto
qed

lemma idents_quote:
  "rest = [] \<or> hd rest \<noteq> dquote \<Longrightarrow> sql_idents None (quote_ident s @ rest) = s # sql_idents None rest"
  using idents_inside [of rest "[]" s] by (simp add: quote_ident_def)

lemma idents_quote_end: "sql_idents None (quote_ident s) = [s]"
  using idents_quote [of "[]" s] by simp

lemma join_Cons: "join sep (x # xs) = x @ (if xs = [] then [] else sep @ join sep xs)"
  by (cases xs) simp_all

text \<open>A list of pieces that each hold some identifiers, separated by commas.\<close>

lemma idents_join:
  "(\<And>x rest. x \<in> set xs \<Longrightarrow> rest = [] \<or> hd rest \<noteq> dquote
      \<Longrightarrow> sql_idents None (f x @ rest) = g x @ sql_idents None rest)
   \<Longrightarrow> rest = [] \<or> hd rest \<noteq> dquote
   \<Longrightarrow> sql_idents None (join '', '' (map f xs) @ rest) = concat (map g xs) @ sql_idents None rest"
proof (induction xs)
  case (Cons x xs)
  show ?case
  proof (cases "xs = []")
    case True
    then show ?thesis using Cons.prems by simp
  next
    case False
    have "sql_idents None (f x @ '', '' @ join '', '' (map f xs) @ rest)
        = g x @ sql_idents None ('', '' @ join '', '' (map f xs) @ rest)"
      by (rule Cons.prems(1)) (simp_all add: dquote_def)
    also have "sql_idents None ('', '' @ join '', '' (map f xs) @ rest)
        = sql_idents None (join '', '' (map f xs) @ rest)"
      by (rule idents_unquoted) (simp add: dquote_def)
    also have "\<dots> = concat (map g xs) @ sql_idents None rest"
      using Cons.prems by (intro Cons.IH) simp_all
    finally show ?thesis using False by (simp add: join_Cons)
  qed
qed simp

lemma idents_idents:
  "rest = [] \<or> hd rest \<noteq> dquote \<Longrightarrow> sql_idents None (idents cs @ rest) = cs @ sql_idents None rest"
  unfolding idents_def using idents_join [of cs quote_ident "\<lambda>c. [c]" rest]
  by (simp add: idents_quote)

lemma unquoted_digits: "unquoted (show_nat n)"
  using show_nat_digits [of n] by (auto simp: unquoted_def list_all_iff dquote_def is_ascii_digit_def)

lemma unquoted_placeholder: "unquoted (placeholder i v)"
  by (simp add: placeholder_def unquoted_digits) (simp add: dquote_def)

lemma unquoted_join: "unquoted sep \<Longrightarrow> (\<forall>x \<in> set xs. unquoted x) \<Longrightarrow> unquoted (join sep xs)"
  by (induction xs) (auto simp: join_Cons)

lemma unquoted_placeholders:
  "unquoted (join '', '' (map (\<lambda>(i, c, v). placeholder (i + 1) v) xs))"
  by (rule unquoted_join) (auto simp: unquoted_placeholder dquote_def)

text \<open>The identifiers of the conflict clause.\<close>

definition update_columns :: "string list \<Rightarrow> string list \<Rightarrow> string list" where
  "update_columns unique_key cols = filter (\<lambda>c. c \<notin> set unique_key) cols"

definition conflict_idents :: "string list \<Rightarrow> bool \<Rightarrow> string list \<Rightarrow> string list" where
  "conflict_idents unique_key upsert cols =
     (if upsert \<and> unique_key \<noteq> []
      then unique_key @ concat (map (\<lambda>c. [c, c]) (update_columns unique_key cols)) else [])"

lemma idents_update:
  "rest = [] \<or> hd rest \<noteq> dquote
   \<Longrightarrow> sql_idents None ((quote_ident c @ '' = EXCLUDED.'' @ quote_ident c) @ rest) = [c, c] @ sql_idents None rest"
proof -
  assume r: "rest = [] \<or> hd rest \<noteq> dquote"
  have "sql_idents None (quote_ident c @ '' = EXCLUDED.'' @ quote_ident c @ rest)
      = c # sql_idents None ('' = EXCLUDED.'' @ quote_ident c @ rest)"
    by (rule idents_quote) (simp add: dquote_def)
  also have "sql_idents None ('' = EXCLUDED.'' @ quote_ident c @ rest) = sql_idents None (quote_ident c @ rest)"
    by (rule idents_unquoted) (simp add: dquote_def)
  finally show ?thesis using idents_quote [OF r] by simp
qed

lemma idents_updates:
  "sql_idents None (join '', '' (map (\<lambda>c. quote_ident c @ '' = EXCLUDED.'' @ quote_ident c) cs))
     = concat (map (\<lambda>c. [c, c]) cs)"
  using idents_join [of cs "\<lambda>c. quote_ident c @ '' = EXCLUDED.'' @ quote_ident c" "\<lambda>c. [c, c]" "[]"]
    idents_update by simp

definition sql_keywords :: "string list" where
  "sql_keywords = [''INSERT INTO '', '' ('', '') VALUES ('', '')'', '' ON CONFLICT ('', '') DO NOTHING'',
     '') DO UPDATE SET '', ''DELETE FROM '', '' WHERE '', '' > $1 AND '', '' = $2'', '' > $1'']"

lemma keyword_unquoted: "k \<in> set sql_keywords \<Longrightarrow> unquoted k \<and> k \<noteq> [] \<and> hd k \<noteq> dquote"
  unfolding sql_keywords_def by (auto simp: dquote_def)

lemma idents_keyword:
  "k \<in> set sql_keywords \<Longrightarrow> sql_idents None (k @ rest) = sql_idents None rest"
  using keyword_unquoted idents_unquoted by blast

lemma idents_keyword_end: "k \<in> set sql_keywords \<Longrightarrow> sql_idents None k = []"
  using keyword_unquoted idents_unquoted_end by blast

lemma idents_quote_keyword:
  "k \<in> set sql_keywords \<Longrightarrow> sql_idents None (quote_ident s @ k @ rest) = s # sql_idents None (k @ rest)"
  using keyword_unquoted [of k] by (intro idents_quote) (cases k; auto)

lemma idents_idents_keyword:
  "k \<in> set sql_keywords \<Longrightarrow> sql_idents None (idents cs @ k @ rest) = cs @ sql_idents None (k @ rest)"
  using keyword_unquoted [of k] by (intro idents_idents) (cases k; auto)

lemma insert_shape:
  "k1 \<in> set sql_keywords \<Longrightarrow> k2 \<in> set sql_keywords \<Longrightarrow> k3 \<in> set sql_keywords \<Longrightarrow> k4 \<in> set sql_keywords
   \<Longrightarrow> unquoted ph
   \<Longrightarrow> sql_idents None ((k1 @ quote_ident t @ k2 @ idents cs @ k3 @ ph @ k4) @ rest)
       = t # cs @ sql_idents None rest"
  by (simp add: idents_keyword idents_quote_keyword idents_idents_keyword idents_unquoted)

lemma conflict_shape:
  "k1 \<in> set sql_keywords \<Longrightarrow> k2 \<in> set sql_keywords
   \<Longrightarrow> sql_idents None (k1 @ idents cs @ k2 @ rest) = cs @ sql_idents None rest"
  by (simp add: idents_keyword idents_idents_keyword)

lemma conflict_shape_end:
  "k1 \<in> set sql_keywords \<Longrightarrow> k2 \<in> set sql_keywords
   \<Longrightarrow> sql_idents None (k1 @ idents cs @ k2) = cs"
  using conflict_shape [of k1 k2 cs "[]"] by simp

lemma upsert_idents:
  "sql_idents None (upsert_stmt table r uk upsert) = table # map fst r @ conflict_idents uk upsert (map fst r)"
proof -
  define ph where "ph = join '', '' (map (\<lambda>(i, c, v). placeholder (i + 1) v) (List.enumerate 0 r))"
  define ins where "ins = ''INSERT INTO '' @ quote_ident table @ '' ('' @ idents (map fst r) @ '') VALUES (''
      @ ph @ '')''"
  define ups where "ups = update_columns uk (map fst r)"
  have ph: "unquoted ph" unfolding ph_def by (rule unquoted_placeholders)
  have ins: "sql_idents None (ins @ rest) = table # map fst r @ sql_idents None rest" for rest
    unfolding ins_def by (rule insert_shape [OF _ _ _ _ ph]) (simp_all add: sql_keywords_def)
  have end1: "sql_idents None ins = table # map fst r" using ins [of "[]"] by simp
  define nothing where "nothing = '' ON CONFLICT ('' @ idents uk @ '') DO NOTHING''"
  define updates where "updates = '' ON CONFLICT ('' @ idents uk @ '') DO UPDATE SET ''
      @ join '', '' (map (\<lambda>c. quote_ident c @ '' = EXCLUDED.'' @ quote_ident c) ups)"
  have n: "sql_idents None nothing = uk"
    unfolding nothing_def by (rule conflict_shape_end) (simp_all add: sql_keywords_def)
  have u: "sql_idents None updates = uk @ concat (map (\<lambda>c. [c, c]) ups)"
    unfolding updates_def idents_updates [of ups, symmetric]
    by (rule conflict_shape) (simp_all add: sql_keywords_def)
  have "upsert_stmt table r uk upsert =
      (if upsert \<and> uk \<noteq> [] then (if ups = [] then ins @ nothing else ins @ updates) else ins)"
    unfolding upsert_stmt_def Let_def ins_def ph_def ups_def update_columns_def nothing_def updates_def
    by simp
  then show ?thesis
    by (simp add: conflict_idents_def ups_def [symmetric] ins n u end1)
qed

lemma delete_shape:
  "k1 \<in> set sql_keywords \<Longrightarrow> k2 \<in> set sql_keywords \<Longrightarrow> k3 \<in> set sql_keywords \<Longrightarrow> k4 \<in> set sql_keywords
   \<Longrightarrow> sql_idents None (k1 @ quote_ident t @ k2 @ quote_ident b @ k3 @ quote_ident c @ k4) = [t, b, c]"
  "k1 \<in> set sql_keywords \<Longrightarrow> k2 \<in> set sql_keywords \<Longrightarrow> k3 \<in> set sql_keywords
   \<Longrightarrow> sql_idents None (k1 @ quote_ident t @ k2 @ quote_ident b @ k3) = [t, b]"
  using idents_quote_keyword [of k3 b "[]"] idents_quote_keyword [of k4 c "[]"]
  by (simp_all add: idents_keyword idents_keyword_end idents_quote_keyword)

lemma delete_idents:
  "sql_idents None (rollback_delete_stmt table b c) = table # b # (case c of None \<Rightarrow> [] | Some x \<Rightarrow> [x])"
proof (cases c)
  case None
  have "sql_idents None (''DELETE FROM '' @ quote_ident table @ '' WHERE '' @ quote_ident b @ '' > $1'') = [table, b]"
    by (rule delete_shape) (simp_all add: sql_keywords_def)
  then show ?thesis using None unfolding rollback_delete_stmt_def by simp
next
  case (Some x)
  have "sql_idents None (''DELETE FROM '' @ quote_ident table @ '' WHERE '' @ quote_ident b @ '' > $1 AND ''
      @ quote_ident x @ '' = $2'') = [table, b, x]"
    by (rule delete_shape) (simp_all add: sql_keywords_def)
  then show ?thesis using Some unfolding rollback_delete_stmt_def by simp
qed

section \<open>Properties\<close>

text \<open>
  C21: no name breaks out of its quotes: read the way Postgres reads quoted identifiers, an
  insert names exactly the table, the row's columns and the conflict columns, and a rollback
  delete exactly the table and the configured columns, whatever characters the names (record
  keys of incoming data among them) contain.
\<close>

theorem statements_name_only_configured:
  "sql_idents None (upsert_stmt table r uk upsert) = table # map fst r @ conflict_idents uk upsert (map fst r)
   \<and> sql_idents None (rollback_delete_stmt table b c) = table # b # (case c of None \<Rightarrow> [] | Some x \<Rightarrow> [x])"
  using upsert_idents delete_idents by blast

lemma row_statements_bind:
  assumes "st \<in> set (row_statements c rows)"
  shows "\<exists>r sample. r \<in> set rows \<and> map fst sample = map fst r
    \<and> st = (upsert_stmt (pg_table c) sample (pg_unique_key c) (pg_upsert c), Some (map snd r))"
proof -
  obtain g r where g: "g \<in> set (group_by_signature rows)" "r \<in> set g"
    "st = (upsert_stmt (pg_table c) (hd g) (pg_unique_key c) (pg_upsert c), Some (map snd r))"
    using assms by (auto simp: row_statements_def group_statements_def)
  have "map fst (hd g) = map fst r" using group_by_signature_ok(2) [OF g(1)] g(2) by metis
  moreover have "r \<in> set rows"
    using g(1,2) mset_eq_setD [OF group_by_signature_ok(1) [of rows]] by auto
  ultimately show ?thesis using g(3) by blast
qed

lemma row_statements_values:
  "mset (map snd (row_statements c rows)) = mset (map (\<lambda>r. Some (map snd r)) rows)"
proof -
  have "map snd (row_statements c rows) = map (\<lambda>r. Some (map snd r)) (concat (group_by_signature rows))"
    by (simp add: row_statements_def group_statements_def map_concat comp_def)
  then show ?thesis using arg_cong [OF group_by_signature_ok(1) [of rows], of "image_mset (\<lambda>r. Some (map snd r))"]
    by (simp del: map_map)
qed

text \<open>
  A write binds every nonempty row of the batch exactly once, in one host call, and always
  against a statement whose columns are the row's own, in the row's order; the row of a
  record has its columns sorted and distinct, and each column's value is the last mapped path
  that resolves, else the record's own scalar field.
\<close>

theorem pg_write_binds_rows:
  assumes "\<forall>r \<in> set (b_records b). json_ok r" "pg_rows (pg_cfg p) b \<noteq> []"
  shows "\<exists>ddl_stmts data. length ddl_stmts \<le> 1
    \<and> pg_write sql p b w =
        (case sql (pg_connection (pg_cfg p)) (ddl_stmts @ data) w of
           (Inl e, w') \<Rightarrow> (Inl e, p, w') | (Inr n, w') \<Rightarrow> (Inr (), p \<lparr> pg_created := True \<rparr>, w'))
    \<and> mset (map snd data) = mset (map (\<lambda>r. Some (map snd r)) (pg_rows (pg_cfg p) b))
    \<and> (\<forall>st \<in> set data. \<exists>rec \<in> set (b_records b). \<exists>sample.
          let r = resolve_columns rec (pg_column_map (pg_cfg p))
          in map fst sample = map fst r
             \<and> st = (upsert_stmt (pg_table (pg_cfg p)) sample (pg_unique_key (pg_cfg p)) (pg_upsert (pg_cfg p)),
                     Some (map snd r))
             \<and> sorted_wrt (<) (map fst r)
             \<and> (\<forall>c. map_of r c = column_value rec (pg_column_map (pg_cfg p)) c))"
proof -
  let ?c = "pg_cfg p"
  let ?rows = "pg_rows ?c b"
  let ?ddl = "if pg_create_table ?c \<and> \<not> pg_created p
      then [(ddl (pg_table ?c) (union_columns ?rows) (pg_unique_key ?c), None)] else []"
  have w: "pg_write sql p b w =
      (case sql (pg_connection ?c) (?ddl @ row_statements ?c ?rows) w of
         (Inl e, w') \<Rightarrow> (Inl e, p, w') | (Inr n, w') \<Rightarrow> (Inr (), p \<lparr> pg_created := True \<rparr>, w'))"
    using assms(2) by (simp add: pg_write_def Let_def)
  have "\<exists>rec \<in> set (b_records b). \<exists>sample. let r = resolve_columns rec (pg_column_map ?c)
      in map fst sample = map fst r
         \<and> st = (upsert_stmt (pg_table ?c) sample (pg_unique_key ?c) (pg_upsert ?c), Some (map snd r))
         \<and> sorted_wrt (<) (map fst r) \<and> (\<forall>x. map_of r x = column_value rec (pg_column_map ?c) x)"
    if st: "st \<in> set (row_statements ?c ?rows)" for st
  proof -
    obtain r sample where r: "r \<in> set ?rows" "map fst sample = map fst r"
      "st = (upsert_stmt (pg_table ?c) sample (pg_unique_key ?c) (pg_upsert ?c), Some (map snd r))"
      using row_statements_bind [OF st] by blast
    obtain rec1 where rec1: "rec1 \<in> set (b_records b)" "r = resolve_columns rec1 (pg_column_map ?c)"
      using r(1) by (auto simp: pg_rows_def)
    have "json_ok rec1" using assms(1) rec1(1) by blast
    then have "sorted_wrt (<) (map fst r)" "\<forall>x. map_of r x = column_value rec1 (pg_column_map ?c) x"
      using resolve_columns_ok [of rec1 "pg_column_map ?c"] rec1(2) by (simp_all add: btm_ok_def)
    then show ?thesis using r rec1 unfolding Let_def by blast
  qed
  moreover have "length ?ddl \<le> 1" by simp
  ultimately show ?thesis using w row_statements_values [of ?c ?rows] by blast
qed

definition demo_pg :: pg_sink where
  "demo_pg = \<lparr> pg_cfg = \<lparr> pg_connection = ''db'', pg_table = ''t'', pg_upsert = True,
       pg_unique_key = [''id''], pg_create_table = True, pg_column_map = [],
       pg_rollback_block_column = Some ''block_number'', pg_rollback_chain_column = None \<rparr>,
     pg_created = False \<rparr>"

definition demo_rows :: batch where
  "demo_rows = batch_new ''eth'' 1 (BlockRange 1 2) 0 Decoded [JObj [(''id'', JBool True)], JNull]"

text \<open>A database that records the batches of statements and accepts them.\<close>

definition recording_sql :: "statement list list sql_import" where
  "recording_sql conn stmts w = (Inr (of_nat (length stmts)), w @ [stmts])"

lemma resolve_one: "\<not> is_nested v \<Longrightarrow> resolve_columns (JObj [(c, v)]) [] = [(c, v)]"
  by (simp add: resolve_columns_def scalar_columns_def)

lemma resolve_null: "resolve_columns JNull [] = []"
  by (simp add: resolve_columns_def scalar_columns_def)

theorem pg_write_binds_rows_witness:
  "\<exists>ddl_stmts data. length ddl_stmts \<le> 1
    \<and> pg_write recording_sql demo_pg demo_rows [] = (Inr (), demo_pg \<lparr> pg_created := True \<rparr>, [ddl_stmts @ data])
    \<and> mset (map snd data) = {#Some [JBool True]#}"
proof -
  have r: "pg_rows (pg_cfg demo_pg) demo_rows = [[(''id'', JBool True)]]"
    by (simp add: pg_rows_def demo_pg_def demo_rows_def resolve_one resolve_null)
  have ok: "\<forall>r \<in> set (b_records demo_rows). json_ok r" by (simp add: demo_rows_def btm_ok_def)
  have ne: "pg_rows (pg_cfg demo_pg) demo_rows \<noteq> []" by (simp add: r)
  obtain ddl_stmts data where "length ddl_stmts \<le> 1"
    "pg_write recording_sql demo_pg demo_rows [] =
        (case recording_sql (pg_connection (pg_cfg demo_pg)) (ddl_stmts @ data) [] of
           (Inl e, w') \<Rightarrow> (Inl e, demo_pg, w')
         | (Inr n, w') \<Rightarrow> (Inr (), demo_pg \<lparr> pg_created := True \<rparr>, w'))"
    "mset (map snd data) = mset (map (\<lambda>r. Some (map snd r)) (pg_rows (pg_cfg demo_pg) demo_rows))"
    using pg_write_binds_rows [OF ok ne, of recording_sql "[]"] by blast
  then show ?thesis by (auto simp: r recording_sql_def)
qed

text \<open>
  A failed rollback is reported as done.  A sink instance that was just created (a restart,
  a recycled instance) takes every failure of the rollback's delete for a missing table, so
  with \<open>create_table\<close> it answers that the rollback succeeded although the stale rows of an
  existing table are still there.
\<close>

theorem failed_rollback_reported_done:
  assumes "pg_init config = Inr p" "pg_create_table (pg_cfg p)"
    and "pg_rollback_block_column (pg_cfg p) = Some col"
    and "\<And>conn stmts. sql conn stmts w = (Inl e, w)"
  shows "pg_on_control sql p (Rollback chain after) w = (Inr (), p, w)"
proof -
  have "\<not> pg_created p" using assms(1) by (auto simp: pg_init_def)
  then show ?thesis using assms(2-4) by (simp add: pg_on_control_def Let_def)
qed

definition demo_pg_config :: json where
  "demo_pg_config = JObj [(''connection'', JStr ''db''), (''create_table'', JBool True),
     (''rollback'', JBool True), (''table'', JStr ''t'')]"

theorem failed_rollback_reported_done_witness:
  "\<exists>p. pg_init demo_pg_config = Inr p
    \<and> pg_on_control (\<lambda>conn stmts w. (Inl ''connection lost'', w)) p (Rollback 1 99) () = (Inr (), p, ())"
proof -
  obtain p where p: "pg_init demo_pg_config = Inr p" "pg_create_table (pg_cfg p)"
    "pg_rollback_block_column (pg_cfg p) = Some ''block_number''"
    by (simp add: pg_init_def pg_from_json_def demo_pg_config_def jget_str_def jget_array_def
        jget_bool_def pg_rollback_columns_def Let_def)
  have "pg_on_control (\<lambda>conn stmts w. (Inl ''connection lost'', w)) p (Rollback 1 99) () = (Inr (), p, ())"
    using p by (rule failed_rollback_reported_done) simp
  then show ?thesis using p(1) by blast
qed

text \<open>
  Upserts of one batch are not applied in batch order: rows are grouped by their column
  names, so of two rows of one key the earlier row is applied last, and wins, whenever its
  list of columns is the greater one.
\<close>

theorem older_row_applied_last:
  assumes "pg_rows (pg_cfg p) b = [older, newer]" "map fst newer < map fst older"
    and "pg_created p"
  shows "pg_write sql p b w =
    (case sql (pg_connection (pg_cfg p))
            (group_statements (pg_cfg p) [newer] @ group_statements (pg_cfg p) [older]) w of
       (Inl e, w') \<Rightarrow> (Inl e, p, w') | (Inr n, w') \<Rightarrow> (Inr (), p \<lparr> pg_created := True \<rparr>, w'))"
proof -
  have "\<not> map fst older < map fst newer" "map fst newer \<noteq> map fst older" using assms(2) by auto
  then have "group_by_signature [older, newer] = [[newer], [older]]"
    using assms(2) by (auto simp: group_by_signature_def add_to_group_def Let_def)
  then show ?thesis using assms(1,3) by (simp add: pg_write_def Let_def row_statements_def)
qed

definition demo_updates :: batch where
  "demo_updates = batch_new ''eth'' 1 (BlockRange 1 2) 0 Decoded
     [JObj [(''id'', JNull), (''z'', JBool True)], JObj [(''a'', JBool False), (''id'', JNull)]]"

theorem older_row_applied_last_witness:
  "pg_write recording_sql (demo_pg \<lparr> pg_created := True \<rparr>) demo_updates []
    = (Inr (), demo_pg \<lparr> pg_created := True \<rparr>,
       [group_statements (pg_cfg demo_pg) [[(''a'', JBool False), (''id'', JNull)]]
          @ group_statements (pg_cfg demo_pg) [[(''id'', JNull), (''z'', JBool True)]]])"
proof -
  have r: "pg_rows (pg_cfg (demo_pg \<lparr> pg_created := True \<rparr>)) demo_updates
      = [[(''id'', JNull), (''z'', JBool True)], [(''a'', JBool False), (''id'', JNull)]]"
    by (simp add: pg_rows_def demo_pg_def demo_updates_def resolve_columns_def scalar_columns_def
        less_char_def less_eq_char_def)
  have l: "map fst [(''a'', JBool False), (''id'', JNull)] < map fst [(''id'', JNull), (''z'', JBool True)]"
    by (simp add: less_char_def)
  show ?thesis
    using older_row_applied_last [OF r l, of recording_sql "[]"]
    by (simp add: recording_sql_def demo_pg_def)
qed

end
