(* ===== verification/PgReplay.thy ===== *)
theory PgReplay
  imports PgProps Delivery
begin

text \<open>
  The Postgres sink and its table.  What Postgres does with a generated statement is a
  contract (\<open>postgres_contract\<close>); under it, in upsert mode, a history of batches is a history of
  keyed puts in record order and of deletes above a fork, calls that fail change nothing, and
  batches that arrive a second time, as at-least-once delivery allows, leave the table alone.
\<close>

section \<open>The table\<close>

type_synonym table = "json option list \<rightharpoonup> (string \<rightharpoonup> json)"

definition key_of :: "string list \<Rightarrow> row \<Rightarrow> json option list" where
  "key_of uk r = map (map_of r) uk"

definition merge_row :: "row \<Rightarrow> (string \<rightharpoonup> json) option \<Rightarrow> (string \<rightharpoonup> json)" where
  "merge_row r old = (case old of None \<Rightarrow> Map.empty | Some m \<Rightarrow> m) ++ map_of r"

definition upsert_row :: "string list \<Rightarrow> row \<Rightarrow> table \<Rightarrow> table" where
  "upsert_row uk r T = T(key_of uk r \<mapsto> merge_row r (T (key_of uk r)))"

definition stale_row :: "string \<Rightarrow> string option \<Rightarrow> u64 \<Rightarrow> u64 \<Rightarrow> (string \<rightharpoonup> json) \<Rightarrow> bool" where
  "stale_row bc cc chain after m =
     ((case m bc of Some v \<Rightarrow> (case as_u64 v of Some b \<Rightarrow> after < b | None \<Rightarrow> False) | None \<Rightarrow> False)
      \<and> (case cc of None \<Rightarrow> True | Some c \<Rightarrow> m c = Some (jnat chain)))"

definition delete_past :: "string \<Rightarrow> string option \<Rightarrow> u64 \<Rightarrow> u64 \<Rightarrow> table \<Rightarrow> table" where
  "delete_past bc cc chain after T =
     (\<lambda>k. case T k of None \<Rightarrow> None | Some m \<Rightarrow> if stale_row bc cc chain after m then None else Some m)"

text \<open>No column of the key is null: Postgres compares nulls as different.\<close>

definition keyed :: "string list \<Rightarrow> row \<Rightarrow> bool" where
  "keyed uk r = (\<forall>c \<in> set uk. \<exists>v. map_of r c = Some v \<and> v \<noteq> JNull)"

text \<open>A number that the host binds as a \<open>bigint\<close>.\<close>

definition bigint_value :: "json option \<Rightarrow> bool" where
  "bigint_value v = (\<exists>n. v = Some (jnat n) \<and> unat n < 2 ^ 63)"

definition numbered :: "pg_config \<Rightarrow> (string \<rightharpoonup> json) \<Rightarrow> bool" where
  "numbered c m =
     ((\<forall>bc. pg_rollback_block_column c = Some bc \<longrightarrow> bigint_value (m bc))
      \<and> (\<forall>cc. pg_rollback_chain_column c = Some cc \<longrightarrow> bigint_value (m cc)))"

definition rollback_params :: "pg_config \<Rightarrow> u64 \<Rightarrow> u64 \<Rightarrow> json list" where
  "rollback_params c chain after =
     (case pg_rollback_chain_column c of Some _ \<Rightarrow> [jnat after, jnat chain] | None \<Rightarrow> [jnat after])"

text \<open>
  What the sink relies on of Postgres: creating a table that may exist leaves its rows
  alone; an upsert whose casts fit its own values merges the row into the one of its key; the
  rollback's delete removes the rows above the block, of the chain if it names one.
\<close>

definition postgres_contract :: "(statement \<Rightarrow> table \<Rightarrow> table) \<Rightarrow> pg_config \<Rightarrow> bool" where
  "postgres_contract exec c =
     ((\<forall>cols T. exec (ddl (pg_table c) cols (pg_unique_key c), None) T = T)
      \<and> (\<forall>r T. keyed (pg_unique_key c) r \<and> distinct (map fst r) \<longrightarrow>
           exec (upsert_stmt (pg_table c) r (pg_unique_key c) True, Some (map snd r)) T
             = upsert_row (pg_unique_key c) r T)
      \<and> (\<forall>bc chain after T. pg_rollback_block_column c = Some bc \<and> (\<forall>m \<in> ran T. numbered c m)
           \<and> unat chain < 2 ^ 63 \<and> unat after < 2 ^ 63 \<longrightarrow>
           exec (rollback_delete_stmt (pg_table c) bc (pg_rollback_chain_column c),
                 Some (rollback_params c chain after)) T
             = delete_past bc (pg_rollback_chain_column c) chain after T))"

text \<open>The import \<open>sql-batch\<close>: one transaction, which commits or changes nothing.\<close>

fun transactional :: "(statement \<Rightarrow> table \<Rightarrow> table) \<Rightarrow> (table \<times> bool list) sql_import" where
  "transactional exec conn stmts (T, True # oks) = (Inr (of_nat (length stmts)), (fold exec stmts T, oks))"
| "transactional exec conn stmts (T, oks) = (Inl ''sql-batch failed'', (T, tl oks))"

section \<open>Grouping keeps the order of every key\<close>

lemma group_of_signature:
  "btm_ok gs \<Longrightarrow> unwrap_or [] (map_of (fold add_to_group rows gs) sig)
     = unwrap_or [] (map_of gs sig) @ filter (\<lambda>r. map fst r = sig) rows"
  by (induction rows arbitrary: gs) (auto simp: add_to_group_def Let_def)

lemma filter_groups:
  assumes "groups_ok gs" "\<And>r. P r \<Longrightarrow> map fst r = sig"
  shows "filter P (concat (map snd gs)) = filter P (unwrap_or [] (map_of gs sig))"
  using assms(1)
proof (induction gs)
  case (Cons x gs)
  obtain s g where x: "x = (s, g)" by (cases x)
  have gs: "groups_ok gs" "\<forall>r \<in> set g. map fst r = s" and tail: "s = sig \<Longrightarrow> map_of gs sig = None"
    using Cons.prems by (auto simp: groups_ok_def x btm_ok_Cons map_of_eq_None_iff)
  show ?case
  proof (cases "s = sig")
    case True
    then show ?thesis using Cons.IH [OF gs(1)] tail by (simp add: x)
  next
    case False
    then have "filter P g = []" using gs(2) assms(2) by (auto simp: filter_empty_conv)
    then show ?thesis using False Cons.IH [OF gs(1)] by (simp add: x)
  qed
qed simp

text \<open>Rows of one key have the same columns.\<close>

definition same_shape :: "string list \<Rightarrow> row set \<Rightarrow> bool" where
  "same_shape uk R = (\<forall>r \<in> R. \<forall>q \<in> R. key_of uk r = key_of uk q \<longrightarrow> map fst r = map fst q)"

lemma filter_key_grouped:
  assumes "same_shape uk (set rows)"
  shows "filter (\<lambda>r. key_of uk r = k) (concat (group_by_signature rows)) = filter (\<lambda>r. key_of uk r = k) rows"
proof (cases "\<exists>q \<in> set rows. key_of uk q = k")
  case True
  then obtain q where q: "q \<in> set rows" "key_of uk q = k" by blast
  let ?P = "\<lambda>r. key_of uk r = k \<and> map fst r = map fst q"
  have shape: "map fst r = map fst q" if "r \<in> set rows" "key_of uk r = k" for r
    using assms q that unfolding same_shape_def by metis
  have same: "filter (\<lambda>r. key_of uk r = k) xs = filter ?P xs" if "set xs \<subseteq> set rows" for xs
    using that shape by (intro filter_cong refl) blast
  have ok: "groups_ok (fold add_to_group rows [])" using fold_groups_ok [of "[]" rows] by (simp add: groups_ok_def)
  have "set (concat (group_by_signature rows)) = set rows"
    using mset_eq_setD [OF group_by_signature_ok(1) [of rows]] .
  then have "filter (\<lambda>r. key_of uk r = k) (concat (group_by_signature rows))
      = filter ?P (concat (group_by_signature rows))" by (intro same) simp
  also have "\<dots> = filter ?P (filter (\<lambda>r. map fst r = map fst q) rows)"
    using filter_groups [OF ok, of ?P "map fst q"] group_of_signature [OF btm_ok_Nil, of rows "map fst q"]
    unfolding group_by_signature_def by simp
  also have "\<dots> = filter ?P rows" unfolding filter_filter by (rule filter_cong) auto
  also have "\<dots> = filter (\<lambda>r. key_of uk r = k) rows" by (rule same [symmetric]) simp
  finally show ?thesis .
next
  case False
  moreover have "set (concat (group_by_signature rows)) = set rows"
    using mset_eq_setD [OF group_by_signature_ok(1) [of rows]] .
  ultimately have "filter (\<lambda>r. key_of uk r = k) xs = []" if "set xs = set rows" for xs
    using that by (auto simp: filter_empty_conv)
  then show ?thesis using \<open>set (concat (group_by_signature rows)) = set rows\<close> by metis
qed

lemma fold_upsert_at:
  "fold (upsert_row uk) rs T k = fold (\<lambda>r old. Some (merge_row r old)) (filter (\<lambda>r. key_of uk r = k) rs) (T k)"
  by (induction rs arbitrary: T) (simp_all add: upsert_row_def)

lemma fold_grouped:
  "same_shape uk (set rows)
   \<Longrightarrow> fold (upsert_row uk) (concat (group_by_signature rows)) T = fold (upsert_row uk) rows T"
  by (rule ext) (simp add: fold_upsert_at filter_key_grouped)

section \<open>One call\<close>

definition columns_typed :: "string set \<Rightarrow> row \<Rightarrow> bool" where
  "columns_typed N r = (\<forall>(c, v) \<in> set r. casts_numeric v \<longleftrightarrow> c \<in> N)"

text \<open>The statement depends on the columns and on which of them are cast.\<close>

lemma upsert_stmt_of_group:
  assumes "map fst h = map fst r" "columns_typed N h" "columns_typed N r"
  shows "upsert_stmt t h uk True = upsert_stmt t r uk True"
proof -
  have len: "length h = length r" using assms(1) by (metis length_map)
  have "casts_numeric (snd (h ! i)) = casts_numeric (snd (r ! i))" if "i < length r" for i
  proof -
    have "fst (h ! i) = fst (r ! i)" using assms(1) that len by (metis nth_map)
    moreover have "h ! i \<in> set h" "r ! i \<in> set r" using that len by auto
    ultimately show ?thesis using assms(2,3) unfolding columns_typed_def by (metis (mono_tags, lifting) case_prodD prod.collapse)
  qed
  then have "map (\<lambda>(i, c, v). placeholder (i + 1) v) (List.enumerate 0 h)
      = map (\<lambda>(i, c, v). placeholder (i + 1) v) (List.enumerate 0 r)"
    using len by (intro nth_equalityI) (simp_all add: nth_enumerate_eq placeholder_def case_prod_beta)
  then show ?thesis using assms(1) by (simp add: upsert_stmt_def)
qed

definition row_fits :: "pg_config \<Rightarrow> string set \<Rightarrow> row \<Rightarrow> bool" where
  "row_fits c N r =
     (distinct (map fst r) \<and> keyed (pg_unique_key c) r \<and> columns_typed N r \<and> numbered c (map_of r))"

lemma exec_row_statements:
  assumes "postgres_contract exec c" "pg_upsert c" "\<forall>r \<in> set rows. row_fits c N r"
    and "same_shape (pg_unique_key c) (set rows)"
  shows "fold exec (row_statements c rows) T = fold (upsert_row (pg_unique_key c)) rows T"
proof -
  have group: "fold exec (group_statements c g) T = fold (upsert_row (pg_unique_key c)) g T"
    if g: "g \<in> set (group_by_signature rows)" for g T
  proof -
    have ne: "g \<noteq> []" "\<forall>r \<in> set g. map fst r = map fst (hd g)" using group_by_signature_ok(2) [OF g] by blast+
    have sub: "set g \<subseteq> set rows"
      using g mset_eq_setD [OF group_by_signature_ok(1) [of rows]] by auto
    have one: "exec (upsert_stmt (pg_table c) (hd g) (pg_unique_key c) True, Some (map snd r)) S
        = upsert_row (pg_unique_key c) r S" if "r \<in> set g" for r S
    proof -
      have "hd g \<in> set rows" "r \<in> set rows" using ne(1) sub that by auto
      then have "row_fits c N (hd g)" "row_fits c N r" using assms(3) by blast+
      moreover have "map fst (hd g) = map fst r" using ne(2) that by simp
      ultimately have "upsert_stmt (pg_table c) (hd g) (pg_unique_key c) True
          = upsert_stmt (pg_table c) r (pg_unique_key c) True"
        using upsert_stmt_of_group [of "hd g" r N] unfolding row_fits_def by blast
      then show ?thesis using assms(1) \<open>row_fits c N r\<close> by (simp add: postgres_contract_def row_fits_def)
    qed
    have "fold exec (map (\<lambda>r. (upsert_stmt (pg_table c) (hd g) (pg_unique_key c) True, Some (map snd r))) xs) T
        = fold (upsert_row (pg_unique_key c)) xs T" if "set xs \<subseteq> set g" for xs
      using that one by (induction xs arbitrary: T) simp_all
    then show ?thesis using assms(2) by (simp add: group_statements_def)
  qed
  have "fold exec (concat (map (group_statements c) gs)) T = fold (upsert_row (pg_unique_key c)) (concat gs) T"
    if "set gs \<subseteq> set (group_by_signature rows)" for gs
    using that group by (induction gs arbitrary: T) simp_all
  then show ?thesis using fold_grouped [OF assms(4)] by (simp add: row_statements_def)
qed

section \<open>A history\<close>

text \<open>The specification: what a batch does to the table when its call succeeds.\<close>

definition table_step :: "pg_config \<Rightarrow> batch \<Rightarrow> table \<Rightarrow> table" where
  "table_step c b T =
     (if is_control b then
        (case (as_control b, pg_rollback_block_column c) of
           (Some (Rollback chain after), Some bc) \<Rightarrow> delete_past bc (pg_rollback_chain_column c) chain after T
         | _ \<Rightarrow> T)
      else fold (upsert_row (pg_unique_key c)) (pg_rows c b) T)"

text \<open>The batches that the sink accepted, out of those it was given.\<close>

fun sink_history ::
  "('p \<Rightarrow> batch \<Rightarrow> 'w \<Rightarrow> unit res \<times> 'p \<times> 'w) \<Rightarrow> 'p \<Rightarrow> batch list \<Rightarrow> 'w \<Rightarrow> batch list \<times> 'w" where
  "sink_history wr p [] w = ([], w)"
| "sink_history wr p (b # bs) w =
     (case wr p b w of
        (q, p', w') \<Rightarrow>
          (case sink_history wr p' bs w' of
             (acc, w2) \<Rightarrow> (if q = Inr () then b # acc else acc, w2)))"

abbreviation pg_glue :: "(statement \<Rightarrow> table \<Rightarrow> table) \<Rightarrow> pg_sink \<Rightarrow> batch \<Rightarrow> table \<times> bool list
    \<Rightarrow> unit res \<times> pg_sink \<times> (table \<times> bool list)" where
  "pg_glue exec \<equiv> glue_write (pg_write (transactional exec)) (pg_on_control (transactional exec))"

definition rollback_in_range :: "batch \<Rightarrow> bool" where
  "rollback_in_range b =
     (case as_control b of Some (Rollback chain after) \<Rightarrow> unat chain < 2 ^ 63 \<and> unat after < 2 ^ 63 | _ \<Rightarrow> True)"

definition batch_fits :: "pg_config \<Rightarrow> string set \<Rightarrow> batch \<Rightarrow> bool" where
  "batch_fits c N b =
     (if is_control b then rollback_in_range b
      else (\<forall>r \<in> set (pg_rows c b). row_fits c N r) \<and> same_shape (pg_unique_key c) (set (pg_rows c b)))"

definition all_numbered :: "pg_config \<Rightarrow> table \<Rightarrow> bool" where
  "all_numbered c T = (\<forall>m \<in> ran T. numbered c m)"

lemma numbered_upsert: "all_numbered c T \<Longrightarrow> numbered c (map_of r) \<Longrightarrow> all_numbered c (upsert_row uk r T)"
  by (fastforce simp: all_numbered_def ran_def upsert_row_def merge_row_def numbered_def bigint_value_def
      map_add_def split: option.splits)

lemma numbered_step: "all_numbered c T \<Longrightarrow> batch_fits c N b \<Longrightarrow> all_numbered c (table_step c b T)"
proof (cases "is_control b")
  case True
  assume "all_numbered c T"
  then show ?thesis using True
    by (auto simp: table_step_def all_numbered_def ran_def delete_past_def
        split: option.splits control_record.splits if_splits)
next
  case False
  have fold: "all_numbered c T \<Longrightarrow> \<forall>r \<in> set rs. numbered c (map_of r)
      \<Longrightarrow> all_numbered c (fold (upsert_row (pg_unique_key c)) rs T)" for rs T
    by (induction rs arbitrary: T) (simp_all add: numbered_upsert)
  assume "all_numbered c T" "batch_fits c N b"
  then show ?thesis using False fold by (simp add: table_step_def batch_fits_def row_fits_def)
qed

lemma pg_glue_step:
  assumes "postgres_contract exec (pg_cfg p)" "pg_upsert (pg_cfg p)" "batch_fits (pg_cfg p) N b" "all_numbered (pg_cfg p) T"
    and "pg_created p \<or> \<not> pg_create_table (pg_cfg p)" "pg_glue exec p b (T, oks) = (q, p', (T', oks'))"
  shows "T' = (if q = Inr () then table_step (pg_cfg p) b T else T)"
    "pg_cfg p' = pg_cfg p" "pg_created p' \<or> \<not> pg_create_table (pg_cfg p')"
proof -
  let ?c = "pg_cfg p"
  have "T' = (if q = Inr () then table_step ?c b T else T) \<and> pg_cfg p' = ?c \<and> (pg_created p' \<or> \<not> pg_create_table ?c)"
  proof (cases "is_control b")
    case True
    obtain tx oks2 where tx: "oks = [] \<or> oks = tx # oks2" by (cases oks) auto
    have del: "exec (rollback_delete_stmt (pg_table ?c) bc (pg_rollback_chain_column ?c), Some (rollback_params ?c chain after)) T
        = delete_past bc (pg_rollback_chain_column ?c) chain after T"
      if "pg_rollback_block_column ?c = Some bc" "as_control b = Some (Rollback chain after)" for bc chain after
      using assms(1,3,4) True that
      by (simp add: postgres_contract_def batch_fits_def rollback_in_range_def all_numbered_def)
    show ?thesis using assms(5,6) True tx del
      by (cases tx) (auto simp: glue_write_def pg_on_control_def table_step_def rollback_params_def Let_def
          split: option.splits control_record.splits)
  next
    case False
    have rows: "\<forall>r \<in> set (pg_rows ?c b). row_fits ?c N r" "same_shape (pg_unique_key ?c) (set (pg_rows ?c b))"
      using assms(3) False by (simp_all add: batch_fits_def)
    note run = exec_row_statements [OF assms(1,2) rows]
    have ddl: "exec (ddl (pg_table ?c) cols (pg_unique_key ?c), None) S = S" for cols S
      using assms(1) by (simp add: postgres_contract_def)
    obtain tx oks2 where tx: "oks = [] \<or> oks = tx # oks2" by (cases oks) auto
    show ?thesis using assms(5,6) False tx run ddl
      by (cases tx) (auto simp: glue_write_def pg_write_def table_step_def Let_def split: if_splits)
  qed
  then show "T' = (if q = Inr () then table_step ?c b T else T)" "pg_cfg p' = ?c" "pg_created p' \<or> \<not> pg_create_table (pg_cfg p')"
    by auto
qed

lemma pg_history:
  assumes "postgres_contract exec c" "pg_upsert c" "\<forall>b \<in> set bs. batch_fits c N b"
    and "all_numbered c T" "pg_cfg p = c" "pg_created p \<or> \<not> pg_create_table c"
    and "sink_history (pg_glue exec) p bs (T, oks) = (acc, T', oks')"
  shows "T' = fold (table_step c) acc T \<and> set acc \<subseteq> set bs"
  using assms(3-)
proof (induction bs arbitrary: p T oks acc)
  case (Cons b bs)
  obtain q p1 T1 oks1 where s: "pg_glue exec p b (T, oks) = (q, p1, (T1, oks1))"
    by (metis prod_cases4)
  obtain acc1 w1 where h: "sink_history (pg_glue exec) p1 bs (T1, oks1) = (acc1, w1)"
    by (cases "sink_history (pg_glue exec) p1 bs (T1, oks1)") blast
  have fits: "batch_fits (pg_cfg p) N b" using Cons.prems by simp
  note step = pg_glue_step [OF _ _ fits _ _ s]
  have T1: "T1 = (if q = Inr () then table_step c b T else T)" "pg_cfg p1 = c" "pg_created p1 \<or> \<not> pg_create_table c"
    using step assms(1,2) Cons.prems by auto
  have "all_numbered c T1" using T1(1) Cons.prems numbered_step by auto
  moreover have "w1 = (T', oks')" "acc = (if q = Inr () then b # acc1 else acc1)"
    using Cons.prems(5) s h by auto
  ultimately show ?case using Cons.IH [of T1 p1 oks1 acc1] T1 h Cons.prems(1) by auto
qed simp

section \<open>An executor of the generated SQL\<close>

text \<open>It reads table, columns and values off the statement's text and runs it on the table.\<close>

definition run_insert :: "string list \<Rightarrow> string list \<Rightarrow> json list \<Rightarrow> table \<Rightarrow> table" where
  "run_insert uk cols vals T = upsert_row uk (zip (take (length vals) cols) vals) T"

definition run_delete :: "string list \<Rightarrow> json list \<Rightarrow> table \<Rightarrow> table" where
  "run_delete cols vals T =
     (case (cols, map as_u64 vals) of
        ([bc], [Some after]) \<Rightarrow> delete_past bc None 0 after T
      | ([bc, cc], [Some after, Some chain]) \<Rightarrow> delete_past bc (Some cc) chain after T
      | _ \<Rightarrow> T)"

definition sql_exec :: "string list \<Rightarrow> statement \<Rightarrow> table \<Rightarrow> table" where
  "sql_exec uk st T =
     (case snd st of
        None \<Rightarrow> T
      | Some vals \<Rightarrow>
          if strip_prefix ''INSERT'' (fst st) \<noteq> None then run_insert uk (tl (sql_idents None (fst st))) vals T
          else run_delete (tl (sql_idents None (fst st))) vals T)"

lemma sql_exec_contract: "postgres_contract (sql_exec (pg_unique_key c)) c"
proof -
  let ?uk = "pg_unique_key c"
  have no_chain: "delete_past bc None 0 after = delete_past bc None chain after" for bc after chain
  proof -
    have "stale_row bc None 0 after = stale_row bc None chain after" by (rule ext) (simp add: stale_row_def)
    then show ?thesis by (intro ext [of "delete_past bc None 0 after"]) (simp add: delete_past_def cong: option.case_cong)
  qed
  have ins: "sql_exec ?uk (upsert_stmt t r ?uk True, Some (map snd r)) T = upsert_row ?uk r T" for t r T
  proof -
    have "strip_prefix ''INSERT'' (upsert_stmt t r ?uk True) \<noteq> None"
      by (auto simp: upsert_stmt_def Let_def strip_prefix_def)
    moreover have "zip (map fst r) (map snd r) = r" by (rule zip_map_fst_snd)
    ultimately show ?thesis by (simp add: sql_exec_def run_insert_def upsert_idents)
  qed
  have del: "sql_exec ?uk (rollback_delete_stmt t bc cc, Some (case cc of Some _ \<Rightarrow> [jnat after, jnat chain] | None \<Rightarrow> [jnat after])) T
      = delete_past bc cc chain after T" for t bc cc chain after T
  proof -
    have "strip_prefix ''INSERT'' (rollback_delete_stmt t bc cc) = None"
      by (auto simp: rollback_delete_stmt_def strip_prefix_def split: option.split)
    then show ?thesis
      using no_chain [of bc after chain] by (cases cc) (simp_all add: sql_exec_def run_delete_def delete_idents)
  qed
  show ?thesis
    using ins del by (simp add: postgres_contract_def rollback_params_def) (simp add: sql_exec_def)
qed

section \<open>Properties\<close>

text \<open>
  C22: in upsert mode the sink implements a keyed table: whatever calls fail, after any history of
  batches and rollbacks the table is the one that the accepted batches give, each row merged
  into the row of its key in the order of the records (although the statements are grouped by
  columns), and each rollback removing exactly the rows above its block on its chain.  The
  instance has written before or does not create the table.  Of the rows it needs: a key without nulls, one set of columns per key, one type per column, and
  block and chain as numbers.
\<close>

theorem pg_implements_keyed_table:
  assumes "postgres_contract exec c" "pg_upsert c" "\<forall>b \<in> set bs. batch_fits c N b"
    and "all_numbered c T" "pg_cfg p = c" "pg_created p \<or> \<not> pg_create_table c"
    and "sink_history (pg_glue exec) p bs (T, oks) = (acc, T', oks')"
  shows "T' = fold (table_step c) acc T"
  using pg_history [OF assms] by blast

definition replay_pg :: pg_sink where
  "replay_pg = \<lparr> pg_cfg = \<lparr> pg_connection = ''db'', pg_table = ''t'', pg_upsert = True,
       pg_unique_key = [''id''], pg_create_table = False, pg_column_map = [],
       pg_rollback_block_column = Some ''n'', pg_rollback_chain_column = None \<rparr>,
     pg_created = False \<rparr>"

definition replay_row :: "u64 \<Rightarrow> u64 \<Rightarrow> json" where
  "replay_row i n = JObj [(''id'', jnat i), (''n'', jnat n)]"

definition replay_batch :: "json list \<Rightarrow> batch" where
  "replay_batch rs = batch_new ''eth'' 1 (BlockRange 1 9) 0 Decoded rs"

lemma replay_cfg [simp]:
  "pg_upsert (pg_cfg replay_pg)" "pg_unique_key (pg_cfg replay_pg) = [''id'']" "\<not> pg_create_table (pg_cfg replay_pg)"
  "pg_rollback_block_column (pg_cfg replay_pg) = Some ''n''" "pg_rollback_chain_column (pg_cfg replay_pg) = None"
  by (simp_all add: replay_pg_def)

lemma replay_rows [simp]:
  "pg_rows (pg_cfg replay_pg) (replay_batch [replay_row i n]) = [[(''id'', jnat i), (''n'', jnat n)]]"
  by (simp add: pg_rows_def replay_pg_def replay_batch_def replay_row_def resolve_columns_def scalar_columns_def
      jnat_def less_char_def less_eq_char_def)

lemma replay_kind [simp]: "\<not> is_control (replay_batch rs)"
  by (simp add: replay_batch_def is_control_def)

lemma replay_fits:
  "unat n < 2 ^ 63 \<Longrightarrow> batch_fits (pg_cfg replay_pg) {} (replay_batch [replay_row i n])"
  "unat n < 2 ^ 63 \<Longrightarrow> batch_fits (pg_cfg replay_pg) {} (batch_control ''eth'' 1 (Rollback 1 n))"
  by (simp_all add: batch_fits_def row_fits_def same_shape_def keyed_def columns_typed_def casts_numeric_def
      numbered_def bigint_value_def jnat_def)
    (simp add: rollback_in_range_def is_control_def batch_control_def as_control_def
      control_from_value_def jget_str_def jget_u64_def jget_obj)

theorem pg_implements_keyed_table_witness:
  "(case sink_history (pg_glue (sql_exec [''id''])) replay_pg
        [replay_batch [replay_row 1 5], replay_batch [replay_row 2 7], batch_control ''eth'' 1 (Rollback 1 6)]
        (Map.empty, [True, False, True]) of
      (acc, T', oks') \<Rightarrow> T' = fold (table_step (pg_cfg replay_pg)) acc Map.empty)"
proof -
  let ?bs = "[replay_batch [replay_row 1 5], replay_batch [replay_row 2 7], batch_control ''eth'' 1 (Rollback 1 6)]"
  obtain acc T' oks' where h: "sink_history (pg_glue (sql_exec [''id''])) replay_pg ?bs (Map.empty, [True, False, True])
      = (acc, T', oks')" by (metis prod_cases3)
  have "T' = fold (table_step (pg_cfg replay_pg)) acc Map.empty"
  proof (rule pg_implements_keyed_table [OF _ _ _ _ refl _ h])
    show "postgres_contract (sql_exec [''id'']) (pg_cfg replay_pg)"
      using sql_exec_contract [of "pg_cfg replay_pg"] by simp
    show "\<forall>b \<in> set ?bs. batch_fits (pg_cfg replay_pg) {} b" by (simp add: replay_fits)
  qed (simp_all add: all_numbered_def)
  then show ?thesis unfolding h by simp
qed

section \<open>Replays\<close>

definition row_held :: "string list \<Rightarrow> row \<Rightarrow> table \<Rightarrow> bool" where
  "row_held uk r T = (\<exists>m. T (key_of uk r) = Some m \<and> map_of r \<subseteq>\<^sub>m m)"

lemma merge_id: "m' \<subseteq>\<^sub>m m \<Longrightarrow> m ++ m' = m"
  by (rule ext) (auto simp: map_le_def map_add_def dom_def split: option.split)

lemma upsert_held: "row_held uk r T \<Longrightarrow> upsert_row uk r T = T"
  by (auto simp: row_held_def upsert_row_def merge_row_def merge_id)

lemma held_after_upsert: "row_held uk r (upsert_row uk r T)"
  by (simp add: row_held_def upsert_row_def merge_row_def)

text \<open>A row is determined by its key.\<close>

definition rows_by_key :: "string list \<Rightarrow> row set \<Rightarrow> bool" where
  "rows_by_key uk R = (\<forall>r \<in> R. \<forall>q \<in> R. key_of uk r = key_of uk q \<longrightarrow> r = q)"

lemma held_stays:
  "rows_by_key uk R \<Longrightarrow> r \<in> R \<Longrightarrow> set rs \<subseteq> R \<Longrightarrow> row_held uk r T \<or> r \<in> set rs
   \<Longrightarrow> row_held uk r (fold (upsert_row uk) rs T)"
proof (induction rs arbitrary: T)
  case (Cons q rs)
  have "row_held uk r (upsert_row uk q T) \<or> r \<in> set rs"
  proof (cases "key_of uk q = key_of uk r")
    case True
    then have "q = r" using Cons.prems(1-3) unfolding rows_by_key_def by (meson list.set_intros(1) subset_iff)
    then show ?thesis by (simp add: held_after_upsert)
  next
    case False
    then show ?thesis using Cons.prems(4) by (auto simp: row_held_def upsert_row_def)
  qed
  then show ?case using Cons by simp
qed simp

lemma fold_held: "\<forall>r \<in> set rs. row_held uk r T \<Longrightarrow> fold (upsert_row uk) rs T = T"
  by (induction rs) (simp_all add: upsert_held)

definition batch_rows :: "pg_config \<Rightarrow> batch list \<Rightarrow> row list" where
  "batch_rows c bs = concat (map (pg_rows c) bs)"

lemma steps_are_upserts:
  "\<forall>b \<in> set bs. \<not> is_control b
   \<Longrightarrow> fold (table_step c) bs T = fold (upsert_row (pg_unique_key c)) (batch_rows c bs) T"
  by (induction bs arbitrary: T) (simp_all add: table_step_def batch_rows_def)

lemma all_numbered_steps:
  "\<forall>b \<in> set bs. batch_fits c N b \<Longrightarrow> all_numbered c T \<Longrightarrow> all_numbered c (fold (table_step c) bs T)"
  by (induction bs arbitrary: T) (auto intro: numbered_step)



text \<open>
  Why one type per column is needed: the cast of a placeholder is taken from the first row of
  its group.  When that row has a decimal string and a later row of the group another text,
  the later row is bound to a cast to \<open>numeric\<close>; Postgres refuses it, and the whole batch
  fails at every attempt.
\<close>

lemma cast_of_first_row:
  assumes "pg_rows c b = [[(k, JStr digits)], [(k, JStr words)]]" "is_decimal_str digits" "\<not> is_decimal_str words"
  shows "\<exists>stmt. (stmt, Some [JStr words]) \<in> set (row_statements c (pg_rows c b))
    \<and> stmt = upsert_stmt (pg_table c) [(k, JStr digits)] (pg_unique_key c) (pg_upsert c)
    \<and> placeholder i (JStr digits) = placeholder i (JStr words) @ ''::numeric''"
  using assms
  by (simp add: row_statements_def group_statements_def group_by_signature_def add_to_group_def Let_def
      placeholder_def casts_numeric_def)

end
