(* ===== verification/Mirror.thy ===== *)
theory Mirror
  imports SourceProps PgReplay Failures FilterModule
begin

text \<open>
  From the chain to the table.  A source follows a chain through any number of
  reorganisations; what it sends passes a stage that works record by record (none, the
  filter, the ABI decoder) and is written by the upserting Postgres sink.  The table is then
  at every moment the image of the canonical chain: the rows of its logs below the cursor,
  and no other row.
\<close>

section \<open>Stages that work record by record\<close>

text \<open>
  The interface: control batches pass; of a data batch of the chain, whose records are all
  fit for the stage, the outputs are data and carry the images of its records in order.
\<close>

locale record_stage =
  fixes stage :: "batch \<Rightarrow> batch list"
    and image_of :: "json \<Rightarrow> json list"
    and fit :: "json \<Rightarrow> bool"
    and chain :: u64
  assumes control_passes: "is_control b \<Longrightarrow> stage b = [b]"
    and data_mapped: "\<not> is_control b \<Longrightarrow> b_chain_id b = chain \<Longrightarrow> \<forall>r \<in> set (b_records b). fit r
      \<Longrightarrow> concat (map b_records (stage b)) = concat (map image_of (b_records b))"
    and stays_data: "\<not> is_control b \<Longrightarrow> out \<in> set (stage b) \<Longrightarrow> \<not> is_control out"

text \<open>
  What the task of a stateless processor sends on for one batch: control bypasses the module,
  a batch of which nothing is left goes on empty, and a call that fails loses its batch.
\<close>

definition stage_of :: "('p \<Rightarrow> batch \<Rightarrow> batch list res call \<times> 'p) \<Rightarrow> 'p \<Rightarrow> batch \<Rightarrow> batch list" where
  "stage_of process p b =
     (if is_control b then [b]
      else case fst (process p b) of Returned (Inr outs) \<Rightarrow> propagate b outs | _ \<Rightarrow> [])"

definition stateless :: "('p \<Rightarrow> batch \<Rightarrow> batch list res call \<times> 'p) \<Rightarrow> 'p \<Rightarrow> bool" where
  "stateless process p = (\<forall>b. \<exists>r. process p b = (Returned r, p))"

lemma hosted_control: "is_control b \<Longrightarrow> hosted_stage process instantiate b [i] = (Joined (Inr [b]), [i])"
  using decode_outputs_wire [of "[b]"] by (simp add: hosted_stage_def host_process_def checkout_def guest_process_def)

lemma stage_outputs_stateless:
  "stateless process p
   \<Longrightarrow> stage_outputs (hosted_stage process instantiate) bs [Some p] = concat (map (stage_of process p) bs)"
proof (induction bs)
  case (Cons b bs)
  show ?case
  proof (cases "is_control b")
    case True
    then show ?thesis using Cons by (simp add: hosted_control stage_of_def propagate_def)
  next
    case False
    obtain r where r: "process p b = (Returned r, p)" using Cons.prems by (auto simp: stateless_def)
    show ?thesis using Cons hosted_stage_returns [OF False, of process p r p instantiate] r
      by (cases r) (simp_all add: stage_of_def r False)
  qed
qed simp

lemma stateless_decoder: "stateless (decoder_process A) d"
  by (simp add: stateless_def decoder_process_def)

lemma stateless_filter: "stateless filter_process f"
  by (simp add: stateless_def filter_process_def Let_def)

lemma propagate_records: "concat (map b_records (propagate b outs)) = concat (map b_records outs)"
  by (auto simp: propagate_def)

context processor
begin

lemma stage_stays_data:
  assumes "\<not> is_control b" "out \<in> set (stage_of process p b)"
  shows "\<not> is_control out"
proof -
  obtain outs p' where o: "process p b = (Returned (Inr outs), p')" "out \<in> set (propagate b outs)"
    using assms by (cases "process p b") (auto simp: stage_of_def split: call.splits sum.splits)
  then show ?thesis using stays_data [OF o(1)] assms(1) by (auto simp: propagate_def is_control_def split: if_splits)
qed

end

definition decoded_image :: "alloy \<Rightarrow> decoder \<Rightarrow> u64 \<Rightarrow> json \<Rightarrow> json list" where
  "decoded_image A d chain r = (case decode_record A d chain r of Inr (Some out) \<Rightarrow> [out] | _ \<Rightarrow> [])"

definition decodable :: "alloy \<Rightarrow> decoder \<Rightarrow> u64 \<Rightarrow> json \<Rightarrow> bool" where
  "decodable A d chain r = (case decode_record A d chain r of Inr _ \<Rightarrow> True | Inl _ \<Rightarrow> False)"

definition kept_image :: "filter_cfg \<Rightarrow> json \<Rightarrow> json list" where
  "kept_image f r = (if passes f r then [r] else [])"

lemma decode_all:
  "\<forall>r \<in> set rs. decodable A d chain r
   \<Longrightarrow> \<exists>outs. map_res (decode_record A d chain) rs = Inr outs
         \<and> List.map_filter id outs = concat (map (decoded_image A d chain) rs)"
proof (induction rs)
  case (Cons r rs)
  then have "\<forall>r \<in> set rs. decodable A d chain r" by simp
  from Cons.IH [OF this] obtain outs where "map_res (decode_record A d chain) rs = Inr outs"
      "List.map_filter id outs = concat (map (decoded_image A d chain) rs)" by blast
  moreover obtain x where "decode_record A d chain r = Inr x"
    using Cons.prems by (auto simp: decodable_def split: sum.splits)
  ultimately show ?case by (cases x) (simp_all add: id_def decoded_image_def [of A d chain r] List.map_filter_simps)
qed (simp add: List.map_filter_simps)

lemma kept_images: "concat (map (kept_image f) rs) = filter (passes f) rs"
  by (induction rs) (simp_all add: kept_image_def)

interpretation raw_stage: record_stage "\<lambda>b. [b]" "\<lambda>r. [r]" "\<lambda>_. True" chain for chain
  by unfold_locales auto

interpretation filter_stage: record_stage "stage_of filter_process f" "kept_image f" "\<lambda>_. True" chain
  for f chain
proof
  fix b out assume "\<not> is_control b" "out \<in> set (stage_of filter_process f b)"
  then show "\<not> is_control out" by (rule filter.stage_stays_data)
qed (simp_all add: stage_of_def filter_process_def Let_def kept_images propagate_records)

interpretation decoder_stage:
  record_stage "stage_of (decoder_process A) d" "decoded_image A d chain" "decodable A d chain" chain for A d chain
proof
  fix b assume b: "\<not> is_control b" "b_chain_id b = chain" "\<forall>r \<in> set (b_records b). decodable A d chain r"
  from decode_all [OF b(3)] b(1,2)
  show "concat (map b_records (stage_of (decoder_process A) d b)) = concat (map (decoded_image A d chain) (b_records b))"
    by (auto simp: stage_of_def decoder_process_def Let_def propagate_records)
next
  fix b out assume "\<not> is_control b" "out \<in> set (stage_of (decoder_process A) d b)"
  then show "\<not> is_control out" by (rule decoder.stage_stays_data)
qed (simp add: stage_of_def)

section \<open>Tables that hold a set of rows\<close>

definition table_is :: "string list \<Rightarrow> table \<Rightarrow> row set \<Rightarrow> bool" where
  "table_is uk T R =
     ((\<forall>r \<in> R. T (key_of uk r) = Some (map_of r)) \<and> (\<forall>k. T k \<noteq> None \<longrightarrow> (\<exists>r \<in> R. key_of uk r = k)))"

lemma table_is_upsert:
  assumes "table_is uk T R" "rows_by_key uk (insert r R)"
  shows "table_is uk (upsert_row uk r T) (insert r R)"
proof -
  have same: "q = r" if "q \<in> R" "key_of uk q = key_of uk r" for q
    using assms(2) that unfolding rows_by_key_def by blast
  have "merge_row r (T (key_of uk r)) = map_of r"
  proof (cases "T (key_of uk r)")
    case (Some m)
    then obtain q where q: "q \<in> R" "key_of uk q = key_of uk r" using assms(1) by (auto simp: table_is_def)
    then have "m = map_of r" using assms(1) same [OF q] Some by (auto simp: table_is_def)
    then show ?thesis by (simp add: Some merge_row_def merge_id)
  qed (simp add: merge_row_def)
  moreover have "T (key_of uk q) = Some (map_of q)" if "q \<in> R" for q
    using assms(1) that by (simp add: table_is_def)
  ultimately show ?thesis
    using assms(1) same by (fastforce simp: table_is_def upsert_row_def)
qed

lemma rows_by_key_subset: "rows_by_key uk R \<Longrightarrow> S \<subseteq> R \<Longrightarrow> rows_by_key uk S"
  by (meson rows_by_key_def subsetD)

lemma by_key_shape: "rows_by_key uk R \<Longrightarrow> same_shape uk R"
  unfolding rows_by_key_def same_shape_def by blast

lemma table_is_upserts:
  "table_is uk T R \<Longrightarrow> rows_by_key uk (R \<union> set rs)
   \<Longrightarrow> table_is uk (fold (upsert_row uk) rs T) (R \<union> set rs)"
proof (induction rs arbitrary: T R)
  case (Cons r rs)
  have "table_is uk (upsert_row uk r T) (insert r R)"
    using Cons.prems by (intro table_is_upsert rows_by_key_subset [OF Cons.prems(2)]) auto
  then show ?case using Cons.IH [of "upsert_row uk r T" "insert r R"] Cons.prems(2) by simp
qed simp

lemma table_is_delete:
  assumes "table_is uk T R"
  shows "table_is uk (delete_past bc cc chain after T) {r \<in> R. \<not> stale_row bc cc chain after (map_of r)}"
proof -
  have held: "T (key_of uk r) = Some (map_of r)" if "r \<in> R" for r using assms that by (simp add: table_is_def)
  have "\<exists>r \<in> R. key_of uk r = k \<and> \<not> stale_row bc cc chain after (map_of r)"
    if left: "delete_past bc cc chain after T k \<noteq> None" for k
  proof -
    obtain m where m: "T k = Some m" "\<not> stale_row bc cc chain after m"
      using left by (cases "T k") (auto simp: delete_past_def split: if_splits)
    then obtain r where r: "r \<in> R" "key_of uk r = k" using assms by (auto simp: table_is_def)
    then show ?thesis using m held [OF r(1)] by auto
  qed
  then show ?thesis using held by (auto simp: table_is_def delete_past_def)
qed

section \<open>The rows of a chain\<close>

definition log_rows :: "pg_config \<Rightarrow> (json \<Rightarrow> json list) \<Rightarrow> json list \<Rightarrow> row list" where
  "log_rows c image_of logs =
     filter (\<lambda>r. r \<noteq> []) (map (\<lambda>r. resolve_columns r (pg_column_map c)) (concat (map image_of logs)))"

lemma log_rows_append [simp]:
  "log_rows c image_of (xs @ ys) = log_rows c image_of xs @ log_rows c image_of ys"
  by (simp add: log_rows_def)

lemma log_rows_Nil [simp]: "log_rows c image_of [] = []"
  by (simp add: log_rows_def)

lemma set_log_rows: "set (log_rows c image_of logs) = (\<Union>l \<in> set logs. set (log_rows c image_of [l]))"
  by (auto simp: log_rows_def)

lemma log_rows_subset: "set xs \<subseteq> set ys \<Longrightarrow> set (log_rows c image_of xs) \<subseteq> set (log_rows c image_of ys)"
  by (subst (1 2) set_log_rows) blast

text \<open>
  What the sink needs of the rows of a chain: each fits, its key determines it, and its
  rollback columns hold the log's block and the chain.
\<close>

definition row_located :: "pg_config \<Rightarrow> u64 \<Rightarrow> u64 \<Rightarrow> row \<Rightarrow> bool" where
  "row_located c chain n r =
     ((\<forall>bc. pg_rollback_block_column c = Some bc \<longrightarrow> map_of r bc = Some (jnat n))
      \<and> (\<forall>cc. pg_rollback_chain_column c = Some cc \<longrightarrow> map_of r cc = Some (jnat chain)))"

definition logs_fit ::
  "pg_config \<Rightarrow> string set \<Rightarrow> (json \<Rightarrow> json list) \<Rightarrow> (json \<Rightarrow> bool) \<Rightarrow> u64 \<Rightarrow> json list \<Rightarrow> bool" where
  "logs_fit c N image_of fit chain logs =
     (rows_by_key (pg_unique_key c) (set (log_rows c image_of logs))
      \<and> (\<forall>l \<in> set logs. fit l \<and> (\<exists>n. block_number_of l = Some n
           \<and> (\<forall>r \<in> set (log_rows c image_of [l]). row_fits c N r \<and> row_located c chain n r))))"

lemma logs_fitD:
  "logs_fit c N image_of fit chain logs \<Longrightarrow> l \<in> set logs
   \<Longrightarrow> fit l \<and> (\<exists>n. block_number_of l = Some n
         \<and> (\<forall>r \<in> set (log_rows c image_of [l]). row_fits c N r \<and> row_located c chain n r))"
  by (simp add: logs_fit_def)

lemma logs_fit_subset:
  "logs_fit c N image_of fit chain logs \<Longrightarrow> set xs \<subseteq> set logs \<Longrightarrow> logs_fit c N image_of fit chain xs"
  unfolding logs_fit_def by (meson log_rows_subset rows_by_key_subset subsetD)

lemma located_stale:
  "row_located c chain n r \<Longrightarrow> pg_rollback_block_column c = Some bc
   \<Longrightarrow> stale_row bc (pg_rollback_chain_column c) chain f (map_of r) \<longleftrightarrow> f < n"
  by (auto simp: row_located_def stale_row_def split: option.split)

lemma fresh_rows:
  assumes "logs_fit c N image_of fit chain logs" "pg_rollback_block_column c = Some bc"
  shows "{r \<in> set (log_rows c image_of logs). \<not> stale_row bc (pg_rollback_chain_column c) chain f (map_of r)}
     = set (log_rows c image_of (filter (up_to f) logs))"
proof -
  have "{r \<in> set (log_rows c image_of [l]). \<not> stale_row bc (pg_rollback_chain_column c) chain f (map_of r)}
      = (if up_to f l then set (log_rows c image_of [l]) else {})" if l: "l \<in> set logs" for l
  proof -
    obtain n where n: "block_number_of l = Some n"
        "\<forall>r \<in> set (log_rows c image_of [l]). row_located c chain n r"
      using logs_fitD [OF assms(1) l] by blast
    have "stale_row bc (pg_rollback_chain_column c) chain f (map_of r) \<longleftrightarrow> f < n"
      if "r \<in> set (log_rows c image_of [l])" for r
      using located_stale [OF _ assms(2)] n(2) that by blast
    moreover have "up_to f l \<longleftrightarrow> \<not> f < n" using n(1) by (simp add: up_to_def not_less)
    ultimately show ?thesis by (simp cong: conj_cong)
  qed
  then have "(\<Union>l \<in> set logs. {r \<in> set (log_rows c image_of [l]).
        \<not> stale_row bc (pg_rollback_chain_column c) chain f (map_of r)})
      = (\<Union>l \<in> set logs. if up_to f l then set (log_rows c image_of [l]) else {})"
    by (intro SUP_cong refl)
  also have "\<dots> = set (log_rows c image_of (filter (up_to f) logs))"
    unfolding set_log_rows [of c image_of "filter (up_to f) logs"] by auto
  finally show ?thesis unfolding set_log_rows [of c image_of logs] by auto
qed

section \<open>One message\<close>

lemma fold_data_mono: "\<forall>b \<in> set bs. source_data s b \<Longrightarrow> set rows \<subseteq> set (fold apply_msg bs rows)"
proof (induction bs arbitrary: rows)
  case (Cons b bs)
  have "set rows \<subseteq> set (apply_msg b rows)"
    using Cons.prems by (auto simp: source_data_def apply_msg_data) (simp add: apply_msg_def eof_batch_def)
  then show ?case using Cons by fastforce
qed simp

context record_stage
begin

lemma stage_rows:
  assumes "\<not> is_control b" "b_chain_id b = chain" "\<forall>r \<in> set (b_records b). fit r"
  shows "batch_rows c (stage b) = log_rows c image_of (b_records b)"
proof -
  have "batch_rows c bs = filter (\<lambda>r. r \<noteq> []) (map (\<lambda>r. resolve_columns r (pg_column_map c)) (concat (map b_records bs)))"
    for bs by (induction bs) (simp_all add: batch_rows_def pg_rows_def)
  then show ?thesis using data_mapped [OF assms] by (simp add: log_rows_def)
qed

lemma stage_steps:
  assumes "\<not> is_control b" "b_chain_id b = chain" "\<forall>r \<in> set (b_records b). fit r"
  shows "fold (table_step c) (stage b) T = fold (upsert_row (pg_unique_key c)) (log_rows c image_of (b_records b)) T"
  using steps_are_upserts [of "stage b" c T] stays_data [OF assms(1)] stage_rows [OF assms] by auto

text \<open>Appended data: the table follows the rows, if these are still determined by their keys.\<close>

lemma mirrors_data:
  "\<forall>b \<in> set bs. source_data s b \<Longrightarrow> s_chain_id s = chain
   \<Longrightarrow> logs_fit c N image_of fit chain (fold apply_msg bs rows)
   \<Longrightarrow> table_is (pg_unique_key c) T (set (log_rows c image_of rows))
   \<Longrightarrow> table_is (pg_unique_key c) (fold (table_step c) (concat (map stage bs)) T)
         (set (log_rows c image_of (fold apply_msg bs rows)))"
proof (induction bs arbitrary: rows T)
  case (Cons b bs)
  have more: "set xs \<subseteq> set (fold apply_msg bs xs)" for xs
    using fold_data_mono [of bs s xs] Cons.prems(1) by simp
  show ?case
  proof (cases "is_control b")
    case True
    then obtain at where b: "b = eof_batch s at" using Cons.prems(1) by (auto simp: source_data_def)
    have "table_step c b T = T" "apply_msg b rows = rows"
      using True by (simp_all add: b table_step_def apply_msg_def eof_batch_def split: option.split)
    then show ?thesis using Cons control_passes [OF True] by simp
  next
    case False
    then have b: "b_chain_id b = chain" using Cons.prems(1,2) by (auto simp: source_data_def eof_batch_def)
    have rows: "apply_msg b rows = rows @ b_records b" using False by (rule apply_msg_data)
    have fits: "logs_fit c N image_of fit chain (rows @ b_records b)"
      using logs_fit_subset [OF Cons.prems(3)] more [of "rows @ b_records b"] by (simp add: rows)
    then have "\<forall>r \<in> set (b_records b). fit r" using logs_fitD [OF fits] by simp
    from stage_steps [OF False b this, of c T]
    have "table_is (pg_unique_key c) (fold (table_step c) (stage b) T) (set (log_rows c image_of (rows @ b_records b)))"
      using table_is_upserts [OF Cons.prems(4), of "log_rows c image_of (b_records b)"] fits
      by (simp add: logs_fit_def)
    then show ?thesis using Cons by (simp add: rows)
  qed
qed simp

text \<open>A rollback: the rows above the fork go, as the logs above it do.\<close>

lemma mirrors_rollback:
  assumes "s_chain_id s = chain" "pg_rollback_block_column c = Some bc"
    and "logs_fit c N image_of fit chain rows"
    and "table_is (pg_unique_key c) T (set (log_rows c image_of rows))"
  shows "table_is (pg_unique_key c) (fold (table_step c) (stage (rollback_batch s f)) T)
     (set (log_rows c image_of (filter (up_to f) rows)))"
proof -
  have ctl: "is_control (rollback_batch s f)" "as_control (rollback_batch s f) = Some (Rollback chain f)"
    using assms(1) by (simp_all add: rollback_batch_def)
  show ?thesis
    using table_is_delete [OF assms(4), of bc "pg_rollback_chain_column c" chain f] fresh_rows [OF assms(3,2), of f]
    by (simp add: control_passes [OF ctl(1)] table_step_def ctl assms(2))
qed

lemma stage_fits:
  assumes "source_data s b" "s_chain_id s = chain" "logs_fit c N image_of fit chain logs"
    and "\<not> is_control b \<Longrightarrow> set (b_records b) \<subseteq> set logs" "out \<in> set (stage b)"
  shows "batch_fits c N out"
proof (cases "is_control b")
  case True
  then show ?thesis using assms(1,5)
    by (auto simp: control_passes source_data_def batch_fits_def rollback_in_range_def eof_batch_def)
next
  case False
  then have b: "b_chain_id b = chain" using assms(1,2) by (auto simp: source_data_def eof_batch_def)
  have sub: "set (b_records b) \<subseteq> set logs" using assms(4) False by blast
  then have "\<forall>r \<in> set (b_records b). fit r" using logs_fitD [OF assms(3)] by blast
  then have "set (batch_rows c (stage b)) \<subseteq> set (log_rows c image_of logs)"
    using stage_rows [OF False b, of c] log_rows_subset [OF sub] by simp
  then have rows: "set (pg_rows c out) \<subseteq> set (log_rows c image_of logs)"
    using assms(5) by (auto simp: batch_rows_def)
  have "\<forall>r \<in> set (log_rows c image_of logs). row_fits c N r"
    using logs_fitD [OF assms(3)] by (subst set_log_rows) blast
  moreover have "same_shape (pg_unique_key c) (set (pg_rows c out))"
    using rows_by_key_subset [OF _ rows] assms(3) by (simp add: logs_fit_def by_key_shape)
  ultimately show ?thesis using rows stays_data [OF False assms(5)] by (auto simp: batch_fits_def)
qed

end

section \<open>Following a chain through its reorganisations\<close>

text \<open>
  The chains that the server shows over time, each with its block hashes and its logs.  A
  block hash commits to the ancestors and to their logs.
\<close>

type_synonym chain_view = "(u64 \<Rightarrow> string) \<times> json list"

definition chains_ok :: "chain_view set \<Rightarrow> bool" where
  "chains_ok V =
     ((\<forall>(hash, logs) \<in> V. logs_ok logs)
      \<and> (\<forall>(hash, logs) \<in> V. \<forall>(hash', logs') \<in> V. commits hash logs hash' logs'))"

text \<open>
  The lives of a source against such a server, seen from one sink: \<open>hist\<close> are the messages of
  earlier lives that the sink accepted, \<open>c0\<close> the first block, \<open>peak\<close> the highest cursor so far.
  A life starts empty; an iteration sees a reply that is honest about the current chain, or
  none; the server switches to a chain that differs only above what was read; or an
  iteration sees a reply in conflict with the tracked hashes and rolls back, while the sweep
  reports the new chain's hashes and meets a tracked block below the cursor.  The process may
  stop at any point and start again: of the messages of the last life the sink accepted any
  prefix, and the new life starts at a cursor below which the sink has every log, with a window
  that describes the chain that the sink was filled from.
\<close>

inductive follows ::
  "('s, 'w, 'b) src_env \<Rightarrow> hs_source \<Rightarrow> chain_view set \<Rightarrow> (u64 \<Rightarrow> string) \<Rightarrow> json list \<Rightarrow> u64 \<Rightarrow> u64
   \<Rightarrow> batch list \<Rightarrow> ('s, 'w) loop_state \<Rightarrow> bool"
  for env s V where
  follows_start:
    "(hash, logs) \<in> V \<Longrightarrow> st = source_start env s c no_rows kv w \<Longrightarrow> tracks hash (l_cursor st) (l_tracker st)
     \<Longrightarrow> follows env s V hash logs (l_cursor st) (l_cursor st) [] st"
| follows_iter:
    "follows env s V hash logs c0 peak hist st \<Longrightarrow> honest_reply env s hash logs st
     \<Longrightarrow> st' = flow_state (source_iter env s st)
     \<Longrightarrow> follows env s V hash logs c0 (max peak (l_cursor st')) hist st'"
| follows_switch:
    "follows env s V hash logs c0 peak hist st \<Longrightarrow> (hash', logs') \<in> V \<Longrightarrow> 0 < peak
     \<Longrightarrow> hash (peak - 1) = hash' (peak - 1) \<Longrightarrow> follows env s V hash' logs' c0 peak hist st"
| follows_reorg:
    "follows env s V hash logs c0 peak hist st \<Longrightarrow> (hash', logs') \<in> V \<Longrightarrow> \<not> e_stop env (l_world st)
     \<Longrightarrow> client_query (e_http env) (s_client s) (l_cursor st) (s_to_block s) (l_world st) = (Inr resp, w1)
     \<Longrightarrow> l_tracker st = Some t \<Longrightarrow> conflict t resp \<noteq> None \<Longrightarrow> min_block t = Some m
     \<Longrightarrow> block_hashes (e_http env) (s_client s) m (l_cursor st) w1 = (Inr canonical, w2)
     \<Longrightarrow> \<forall>(n, h) \<in> set canonical. h = hash' n
     \<Longrightarrow> matching t (map_of (rev canonical)) \<noteq> {}
     \<Longrightarrow> Max (matching t (map_of (rev canonical))) < l_cursor st \<Longrightarrow> s_from_block s \<le> c0
     \<Longrightarrow> source_iter env s st = Continue st'
     \<Longrightarrow> follows env s V hash' logs' (min c0 (l_cursor st')) (l_cursor st') hist st'"
| follows_restart:
    "follows env s V hash logs c0 peak hist st \<Longrightarrow> (hash', logs') \<in> V
     \<Longrightarrow> hist' = hist @ take k (ch_sent (l_chan st)) \<Longrightarrow> st' = source_start env s c no_rows kv w
     \<Longrightarrow> c1 \<le> l_cursor st' \<Longrightarrow> l_cursor st' \<le> peak' \<Longrightarrow> tracks hash' peak' (l_tracker st')
     \<Longrightarrow> set (filter (in_range c1 (l_cursor st')) logs') \<subseteq> set (SourceFacts.table hist')
     \<Longrightarrow> set (SourceFacts.table hist') \<subseteq> set (filter (in_range c1 peak') logs')
     \<Longrightarrow> follows env s V hash' logs' c1 peak' hist' st'"

text \<open>The invariant: the sink has all logs below the cursor, and none of another chain.\<close>

definition life_inv ::
  "(u64 \<Rightarrow> string) \<Rightarrow> json list \<Rightarrow> u64 \<Rightarrow> u64 \<Rightarrow> batch list \<Rightarrow> ('s, 'w) loop_state \<Rightarrow> bool" where
  "life_inv hash logs c0 peak hist st =
     (c0 \<le> l_cursor st \<and> l_cursor st \<le> peak \<and> ch_closes (l_chan st) = None \<and> tracks hash peak (l_tracker st)
      \<and> set (filter (in_range c0 (l_cursor st)) logs) \<subseteq> set (SourceFacts.table (hist @ ch_sent (l_chan st)))
      \<and> set (SourceFacts.table (hist @ ch_sent (l_chan st))) \<subseteq> set (filter (in_range c0 peak) logs))"

lemma table_append: "SourceFacts.table (xs @ ys) = fold apply_msg ys (SourceFacts.table xs)"
  by (simp add: table_def)

lemma in_range_extend: "b \<le> c \<Longrightarrow> set (filter (in_range a b) logs) \<subseteq> set (filter (in_range a c) logs)"
  by (auto simp: in_range_def split: option.splits)

lemma in_range_widen: "a' \<le> a \<Longrightarrow> set (filter (in_range a b) logs) \<subseteq> set (filter (in_range a' b) logs)"
  by (auto simp: in_range_def split: option.splits)

lemma chains_commit:
  "chains_ok V \<Longrightarrow> (hash, logs) \<in> V \<Longrightarrow> (hash', logs') \<in> V \<Longrightarrow> commits hash logs hash' logs'"
  by (auto simp: chains_ok_def)

lemma chains_logs: "chains_ok V \<Longrightarrow> (hash, logs) \<in> V \<Longrightarrow> logs_ok logs"
  by (auto simp: chains_ok_def)

lemma less_pred: "0 < (c :: u64) \<Longrightarrow> n < c \<longleftrightarrow> n \<le> c - 1"
proof -
  assume "0 < c"
  moreover from this have "unat (c - 1) = unat c - 1" by (simp add: unat_minus_one word_gt_0)
  moreover have "0 < c \<Longrightarrow> 0 < unat c" by (simp add: word_less_nat_alt)
  ultimately show ?thesis by (auto simp: word_less_nat_alt word_le_nat_alt)
qed

lemma iter_life:
  assumes inv: "life_inv hash logs c0 peak hist st" and "logs_ok logs" and emits: "emits s hash logs peak st st'"
  shows "life_inv hash logs c0 (max peak (l_cursor st')) hist st'"
proof -
  obtain bs where bs: "ch_sent (l_chan st') = ch_sent (l_chan st) @ bs"
      "\<And>rows. fold apply_msg bs rows = rows @ filter (in_range (l_cursor st) (l_cursor st')) logs"
    using emits unfolding emits_def by blast
  have c: "c0 \<le> l_cursor st" "l_cursor st \<le> l_cursor st'" using inv emits by (simp_all add: life_inv_def emits_def)
  have rows: "SourceFacts.table (hist @ ch_sent (l_chan st'))
      = SourceFacts.table (hist @ ch_sent (l_chan st)) @ filter (in_range (l_cursor st) (l_cursor st')) logs"
    unfolding bs(1) append_assoc [symmetric] by (subst table_append) (rule bs(2))
  have "set (filter (in_range (l_cursor st) (l_cursor st')) logs) \<subseteq> set (filter (in_range c0 (max peak (l_cursor st'))) logs)"
    using in_range_widen [OF c(1)] in_range_extend [of "l_cursor st'" "max peak (l_cursor st')"] by fastforce
  moreover have "set (filter (in_range c0 peak) logs) \<subseteq> set (filter (in_range c0 (max peak (l_cursor st'))) logs)"
    by (rule in_range_extend) simp
  moreover have "set (filter (in_range c0 (l_cursor st')) logs)
      = set (filter (in_range c0 (l_cursor st)) logs) \<union> set (filter (in_range (l_cursor st) (l_cursor st')) logs)"
    using filter_ranges [OF assms(2) c] by (metis set_append)
  ultimately have "set (SourceFacts.table (hist @ ch_sent (l_chan st'))) \<subseteq> set (filter (in_range c0 (max peak (l_cursor st'))) logs)"
    "set (filter (in_range c0 (l_cursor st')) logs) \<subseteq> set (SourceFacts.table (hist @ ch_sent (l_chan st')))"
    using inv unfolding rows set_append by (auto simp: life_inv_def simp del: set_filter)
  then show ?thesis using c emits unfolding life_inv_def emits_def by (auto simp del: set_filter)
qed

lemma switch_life:
  assumes inv: "life_inv hash logs c0 peak hist st" and "commits hash logs hash' logs'" "0 < peak"
    and "hash (peak - 1) = hash' (peak - 1)"
  shows "life_inv hash' logs' c0 peak hist st"
proof -
  have below: "\<forall>n \<le> peak - 1. hash n = hash' n"
    and logs: "filter (up_to (peak - 1)) logs = filter (up_to (peak - 1)) logs'"
    using assms(2,4) unfolding commits_def by blast+
  have "filter (in_range c0 b) l = filter (in_range c0 b) (filter (up_to (peak - 1)) l)" if "b \<le> peak" for b l
    using that by (auto simp: in_range_def up_to_def less_pred [OF assms(3), symmetric] intro!: filter_cong split: option.splits)
  then have same: "filter (in_range c0 b) logs = filter (in_range c0 b) logs'" if "b \<le> peak" for b
    using logs that by metis
  have "tracks hash' peak (l_tracker st)"
    using inv below by (auto simp: life_inv_def tracks_def less_pred [OF assms(3)] split: option.splits)
  then show ?thesis using inv same [of peak] same [of "l_cursor st"] by (simp add: life_inv_def del: set_filter)
qed

lemma conflict_rolls_back:
  assumes "\<not> e_stop env (l_world st)"
    and "client_query (e_http env) (s_client s) (l_cursor st) (s_to_block s) (l_world st) = (Inr resp, w1)"
    and "l_tracker st = Some t" "conflict t resp \<noteq> None"
  shows "source_iter env s st = rollback_step env s t (st \<lparr> l_world := w1, l_backoff := 250 \<rparr>)"
  using assms by (simp add: source_iter_def response_step_def has_conflict_def)

text \<open>The rollback of \<open>follows_reorg\<close>: one message more, and the new chain's invariant.\<close>

lemma reorg_life:
  assumes inv: "life_inv hash logs c0 peak hist st" and com: "commits hash logs hash' logs'"
    and run: "\<not> e_stop env (l_world st)"
      "client_query (e_http env) (s_client s) (l_cursor st) (s_to_block s) (l_world st) = (Inr resp, w1)"
      "l_tracker st = Some t" "conflict t resp \<noteq> None"
    and sweep: "min_block t = Some m" "block_hashes (e_http env) (s_client s) m (l_cursor st) w1 = (Inr canonical, w2)"
      "\<forall>(n, h) \<in> set canonical. h = hash' n" "matching t (map_of (rev canonical)) \<noteq> {}"
    and fork: "Max (matching t (map_of (rev canonical))) < l_cursor st" and from0: "s_from_block s \<le> c0"
    and step: "source_iter env s st = Continue st'"
  shows "life_inv hash' logs' (min c0 (l_cursor st')) (l_cursor st') hist st'"
    "\<exists>f. ch_sent (l_chan st') = ch_sent (l_chan st) @ [rollback_batch s f]"
proof -
  let ?st = "st \<lparr> l_world := w1, l_backoff := 250 \<rparr>" and ?rows = "SourceFacts.table (hist @ ch_sent (l_chan st))"
  define f where "f = Max (matching t (map_of (rev canonical)))"
  have ok: "tracker_ok t" and open_ch: "ch_closes (l_chan st) = None"
    and tr: "\<And>n h. map_of (t_hashes t) n = Some h \<Longrightarrow> h = hash n \<and> n < peak"
    and low: "set (filter (in_range c0 (l_cursor st)) logs) \<subseteq> set ?rows" and c: "l_cursor st \<le> peak"
    and high: "set ?rows \<subseteq> set (filter (in_range c0 peak) logs)"
    using inv run(3) by (auto simp: life_inv_def tracks_def simp del: set_filter)
  have "f \<in> matching t (map_of (rev canonical))" using sweep(4) unfolding f_def by (intro Max_in) simp_all
  then obtain h where h: "map_of (t_hashes t) f = Some h" "map_of (rev canonical) f = Some h"
    by (auto simp: matching_def)
  have f: "f < l_cursor st" "f < peak" "h = hash f" using fork c tr [OF h(1)] by (simp_all add: f_def)
  have "h = hash' f" using map_of_SomeD [OF h(2)] sweep(3) by auto
  then have anc: "\<forall>n \<le> f. hash n = hash' n" and pre: "filter (up_to f) logs = filter (up_to f) logs'"
    using com f(3) unfolding commits_def by metis+
  have "locate_fork (e_http env) s t (l_cursor ?st) (l_world ?st) = (f, w2)"
    using locate_fork_cases [OF ok sweep(1), of "e_http env" s "l_cursor st" w1] sweep(2,4) by (simp add: f_def Let_def)
  moreover have "rollback_step env s t ?st = Continue st'" using conflict_rolls_back [OF run] step by simp
  ultimately obtain kv' where st': "st' = ?st \<lparr> l_world := w2, l_tracker := Some (purge_after f t), l_kv := kv',
       l_chan := l_chan st \<lparr> ch_sent := ch_sent (l_chan st) @ [rollback_batch s f] \<rparr>,
       l_cursor := max (sat_add f 1) (s_from_block s) \<rparr>"
    using rollback_step_open [of ?st env s t f w2] open_ch by auto
  define c' where "c' = max (sat_add f 1) (s_from_block s)"
  have fields: "l_cursor st' = c'" "l_tracker st' = Some (purge_after f t)" "ch_closes (l_chan st') = None"
    "ch_sent (l_chan st') = ch_sent (l_chan st) @ [rollback_batch s f]"
    using open_ch by (simp_all add: st' c'_def)
  have "n < c'" if "n \<le> f" for n
    using that less_sat_add [OF f(1), of n] by (simp add: c'_def less_max_iff_disj)
  then have tracks: "tracks hash' c' (Some (purge_after f t))"
    using tr anc by (auto simp: tracks_def tracker_ok_purge ok purge_after_view split: if_splits)
  have rows: "SourceFacts.table (hist @ ch_sent (l_chan st) @ [rollback_batch s f]) = filter (up_to f) ?rows"
    unfolding append_assoc [symmetric] by (rule table_append_rollback)
  have new: "set (filter (up_to f) (filter (in_range c0 b) logs)) = set (filter (in_range (min c0 c') c') logs')" if "f < b" for b
    using filter_in_range_commits [OF pre that, of c0] filter_rebase [OF c'_def from0, of logs']
    by (simp add: filter_in_range_up_to [OF that] del: filter_filter set_filter)
  have "set (filter (up_to f) ?rows) = set (filter (in_range (min c0 c') c') logs')"
    using low high new [OF f(1)] new [OF f(2)] by (simp add: set_eq_iff subset_iff) blast
  then show "life_inv hash' logs' (min c0 (l_cursor st')) (l_cursor st') hist st'"
    using tracks by (simp add: life_inv_def fields rows del: set_filter)
  show "\<exists>f. ch_sent (l_chan st') = ch_sent (l_chan st) @ [rollback_batch s f]" using fields(4) by blast
qed

lemma follows_inv:
  "follows env s V hash logs c0 peak hist st \<Longrightarrow> chains_ok V \<Longrightarrow> 0 < s_max_records s
   \<Longrightarrow> (hash, logs) \<in> V \<and> life_inv hash logs c0 peak hist st"
proof (induction rule: follows.induct)
  case (follows_start hash logs st c kv w)
  then show ?case by (simp add: life_inv_def no_rows_def table_def filter_empty_range del: set_filter)
next
  case (follows_iter hash logs c0 peak hist st st')
  have inv: "(hash, logs) \<in> V" "life_inv hash logs c0 peak hist st" using follows_iter by blast+
  then have "emits s hash logs peak st st'"
    unfolding follows_iter(3) using follows_iter(2) follows_iter.prems(2)
    by (intro source_iter_emits) (simp_all add: life_inv_def)
  then show ?case using iter_life [OF inv(2)] chains_logs [OF follows_iter.prems(1) inv(1)] inv(1) by blast
next
  case (follows_switch hash logs c0 peak hist st hash' logs')
  then show ?case using switch_life chains_commit by metis
next
  case (follows_reorg hash logs c0 peak hist st hash' logs' resp w1 t m canonical w2 st')
  have inv: "(hash, logs) \<in> V" "life_inv hash logs c0 peak hist st"
    using follows_reorg.IH follows_reorg.prems by blast+
  from reorg_life(1) [OF inv(2) chains_commit [OF follows_reorg.prems(1) inv(1) follows_reorg.hyps(2)] follows_reorg.hyps(3-13)]
  show ?case using follows_reorg.hyps(2) by blast
next
  case (follows_restart hash logs c0 peak hist st hash' logs' hist' k st' c kv w c1 peak')
  then show ?case by (simp add: life_inv_def no_rows_def del: set_filter)
qed

section \<open>The table mirrors the chain\<close>

lemma sent_records:
  assumes "\<forall>b \<in> set bs. source_data s b" "b \<in> set bs" "\<not> is_control b"
  shows "set (b_records b) \<subseteq> set (fold apply_msg bs rows)"
  using assms
proof (induction bs arbitrary: rows)
  case (Cons x bs)
  show ?case
  proof (cases "x = b")
    case True
    then have "set (b_records b) \<subseteq> set (apply_msg x rows)" using Cons.prems(3) by (simp add: apply_msg_data)
    also have "\<dots> \<subseteq> set (fold apply_msg bs (apply_msg x rows))" using fold_data_mono Cons.prems(1) by auto
    finally show ?thesis by simp
  qed (use Cons in auto)
qed simp

context record_stage
begin

text \<open>Of the messages so far, every prefix that the sink accepts gives the table of its rows.\<close>

definition mirrored :: "pg_config \<Rightarrow> string set \<Rightarrow> batch list \<Rightarrow> bool" where
  "mirrored c N msgs =
     ((\<forall>k. table_is (pg_unique_key c) (fold (table_step c) (concat (map stage (take k msgs))) Map.empty)
         (set (log_rows c image_of (SourceFacts.table (take k msgs)))))
      \<and> (\<forall>b \<in> set msgs. \<forall>out \<in> set (stage b). is_control out \<or> batch_fits c N out))"

lemma mirrored_all:
  "mirrored c N msgs \<Longrightarrow> table_is (pg_unique_key c) (fold (table_step c) (concat (map stage msgs)) Map.empty)
     (set (log_rows c image_of (SourceFacts.table msgs)))"
  unfolding mirrored_def by (metis order_refl take_all)

lemma mirrored_take: "mirrored c N msgs \<Longrightarrow> mirrored c N (take k msgs)"
  by (auto simp: mirrored_def dest: in_set_takeD)

lemma mirrored_extend:
  assumes "mirrored c N msgs"
    and "\<And>k. table_is (pg_unique_key c) (fold (table_step c) (concat (map stage (msgs @ take k bs))) Map.empty)
         (set (log_rows c image_of (SourceFacts.table (msgs @ take k bs))))"
    and "\<forall>b \<in> set bs. \<forall>out \<in> set (stage b). is_control out \<or> batch_fits c N out"
  shows "mirrored c N (msgs @ bs)"
proof -
  have "table_is (pg_unique_key c) (fold (table_step c) (concat (map stage (take k (msgs @ bs)))) Map.empty)
         (set (log_rows c image_of (SourceFacts.table (take k (msgs @ bs)))))" for k
  proof (cases "k \<le> length msgs")
    case True
    then show ?thesis using assms(1) by (simp add: mirrored_def)
  next
    case False
    then show ?thesis using assms(2) [of "k - length msgs"] by simp
  qed
  then show ?thesis using assms(1,3) by (auto simp: mirrored_def)
qed

lemma mirrored_data:
  assumes m: "mirrored c N msgs" and bs: "\<forall>b \<in> set bs. source_data s b" and chain: "s_chain_id s = chain"
    and fit: "logs_fit c N image_of fit chain logs" and sub: "set (SourceFacts.table (msgs @ bs)) \<subseteq> set logs"
  shows "mirrored c N (msgs @ bs)"
proof (rule mirrored_extend [OF m])
  have rows: "set (fold apply_msg bs (SourceFacts.table msgs)) \<subseteq> set logs" using sub by (simp add: table_append)
  show "\<forall>b \<in> set bs. \<forall>out \<in> set (stage b). is_control out \<or> batch_fits c N out"
    using stage_fits [OF _ chain fit] sent_records [OF bs] bs rows by blast
  fix k
  have bk: "\<forall>b \<in> set (take k bs). source_data s b" "\<forall>b \<in> set (drop k bs). source_data s b"
    using bs by (auto dest: in_set_takeD in_set_dropD)
  have "set (fold apply_msg (take k bs) (SourceFacts.table msgs))
      \<subseteq> set (fold apply_msg (drop k bs) (fold apply_msg (take k bs) (SourceFacts.table msgs)))"
    by (rule fold_data_mono [OF bk(2)])
  also have "\<dots> = set (fold apply_msg bs (SourceFacts.table msgs))"
    by (metis append_take_drop_id fold_append o_apply)
  finally have "logs_fit c N image_of fit chain (fold apply_msg (take k bs) (SourceFacts.table msgs))"
    using logs_fit_subset [OF fit] rows by blast
  from mirrors_data [OF bk(1) chain this mirrored_all [OF m]]
  show "table_is (pg_unique_key c) (fold (table_step c) (concat (map stage (msgs @ take k bs))) Map.empty)
         (set (log_rows c image_of (SourceFacts.table (msgs @ take k bs))))"
    by (simp add: table_append)
qed

lemma mirrored_rollback:
  assumes m: "mirrored c N msgs" and chain: "s_chain_id s = chain" and bc: "pg_rollback_block_column c = Some bc"
    and fit: "logs_fit c N image_of fit chain logs" and sub: "set (SourceFacts.table msgs) \<subseteq> set logs"
  shows "mirrored c N (msgs @ [rollback_batch s f])"
proof (rule mirrored_extend [OF m])
  have ctl: "is_control (rollback_batch s f)" by (simp add: rollback_batch_def)
  then show "\<forall>b \<in> set [rollback_batch s f]. \<forall>out \<in> set (stage b). is_control out \<or> batch_fits c N out"
    by (simp add: control_passes)
  fix k
  have "logs_fit c N image_of fit chain (SourceFacts.table msgs)" using logs_fit_subset [OF fit sub] .
  note roll = mirrors_rollback [OF chain bc this mirrored_all [OF m], of f]
  show "table_is (pg_unique_key c) (fold (table_step c) (concat (map stage (msgs @ take k [rollback_batch s f]))) Map.empty)
         (set (log_rows c image_of (SourceFacts.table (msgs @ take k [rollback_batch s f]))))"
    using roll mirrored_all [OF m] by (cases k) (simp_all add: control_passes [OF ctl])
qed

lemma follows_mirrored:
  assumes ok: "chains_ok V" "0 < s_max_records s" and chain: "s_chain_id s = chain"
    and bc: "pg_rollback_block_column c = Some bc"
    and fits: "\<forall>(hash, logs) \<in> V. logs_fit c N image_of fit chain logs"
  shows "follows env s V hash logs c0 peak hist st \<Longrightarrow> mirrored c N (hist @ ch_sent (l_chan st))"
proof (induction rule: follows.induct)
  case (follows_start hash logs st c' kv w)
  then show ?case by (simp add: no_rows_def mirrored_def table_def table_is_def)
next
  case (follows_iter hash logs c0 peak hist st st')
  note inv = follows_inv [OF follows_iter(1) ok] follows_inv [OF follows.follows_iter [OF follows_iter(1-3)] ok]
  have "emits s hash logs peak st st'"
    unfolding follows_iter(3) using follows_iter(2) ok(2) inv(1)
    by (intro source_iter_emits) (simp_all add: life_inv_def)
  then obtain bs where bs: "ch_sent (l_chan st') = ch_sent (l_chan st) @ bs" "\<forall>b \<in> set bs. source_data s b"
    unfolding emits_def by blast
  have "set (SourceFacts.table ((hist @ ch_sent (l_chan st)) @ bs)) \<subseteq> set logs"
    using inv(2) by (auto simp: life_inv_def bs(1))
  moreover have "logs_fit c N image_of fit chain logs" using fits inv(1) by blast
  ultimately show ?case using mirrored_data [OF follows_iter(4) bs(2) chain] by (simp add: bs(1))
next
  case (follows_reorg hash logs c0 peak hist st hash' logs' resp w1 t m canonical w2 st')
  note inv = follows_inv [OF follows_reorg(1) ok]
  have "commits hash logs hash' logs'" using inv follows_reorg(2) chains_commit [OF ok(1)] by blast
  from reorg_life(2) [OF _ this follows_reorg(3-13)] inv
  obtain f where sent: "ch_sent (l_chan st') = ch_sent (l_chan st) @ [rollback_batch s f]" by blast
  have "set (SourceFacts.table (hist @ ch_sent (l_chan st))) \<subseteq> set logs" using inv by (auto simp: life_inv_def)
  moreover have "logs_fit c N image_of fit chain logs" using fits inv by blast
  ultimately show ?case using mirrored_rollback [OF follows_reorg(14) chain bc] by (simp add: sent)
next
  case (follows_restart hash logs c0 peak hist st hash' logs' hist' k st' c' kv w c1 peak')
  have "hist' = take (length hist + k) (hist @ ch_sent (l_chan st))" using follows_restart(3) by simp
  then have "mirrored c N hist'" using mirrored_take [OF follows_restart(10)] by metis
  then show ?case using follows_restart(4) by (simp add: no_rows_def)
qed

lemma sink_mirrors_chain:
  assumes "chains_ok V" "0 < s_max_records s" "s_chain_id s = chain" "pg_rollback_block_column c \<noteq> None"
    and "\<forall>(hash, logs) \<in> V. logs_fit c N image_of fit chain logs"
    and run: "follows env s V hash logs c0 peak hist st"
    and pg: "postgres_contract exec c" "pg_upsert c" "pg_cfg p = c" "pg_created p \<or> \<not> pg_create_table c"
    and sink: "sink_history (pg_glue exec) p given (Map.empty, oks) = (acc, T, oks')"
    and acc: "acc = concat (map stage (hist @ ch_sent (l_chan st)))" "set given \<subseteq> set acc"
      "\<forall>b \<in> set acc. rollback_in_range b"
  shows "(\<forall>r \<in> set (log_rows c image_of (filter (in_range c0 (l_cursor st)) logs)).
            T (key_of (pg_unique_key c) r) = Some (map_of r))
     \<and> (\<forall>k m. T k = Some m \<longrightarrow> (\<exists>r \<in> set (log_rows c image_of (filter (in_range c0 peak) logs)).
            key_of (pg_unique_key c) r = k \<and> map_of r = m))"
proof -
  obtain bc where bc: "pg_rollback_block_column c = Some bc" using assms(4) by blast
  let ?rows = "SourceFacts.table (hist @ ch_sent (l_chan st))"
  note mirror = follows_mirrored [OF assms(1-3) bc assms(5) run]
  have "\<forall>b \<in> set given. batch_fits c N b"
    using mirror acc by (fastforce simp: batch_fits_def mirrored_def)
  from pg_history [where N = N, OF pg(1,2) this _ pg(3,4) sink]
  have "T = fold (table_step c) acc Map.empty" by (simp add: all_numbered_def)
  then have T: "table_is (pg_unique_key c) T (set (log_rows c image_of ?rows))"
    using mirrored_all [OF mirror] by (simp add: acc(1))
  have "set (log_rows c image_of (filter (in_range c0 (l_cursor st)) logs)) \<subseteq> set (log_rows c image_of ?rows)"
    "set (log_rows c image_of ?rows) \<subseteq> set (log_rows c image_of (filter (in_range c0 peak) logs))"
    using follows_inv [OF run assms(1,2)] by (simp_all add: life_inv_def log_rows_subset del: set_filter)
  then show ?thesis using T unfolding table_is_def by (metis (no_types, lifting) option.distinct(1) option.inject subsetD)
qed

end

end
