(* ===== verification/MirrorProps.thy ===== *)
theory MirrorProps
  imports Mirror Records
begin

text \<open>
  The pipeline source, ABI decoder, Postgres with the sink's default rollback columns: the
  decoder itself puts the block and the chain where the sink's rollback looks for them, so
  that the table follows the chain through its reorganisations.
\<close>

section \<open>Decoded rows know their block and their chain\<close>

text \<open>\<open>rollback: true\<close>, and a column map that leaves these two columns alone.\<close>

definition rollback_default :: "pg_config \<Rightarrow> bool" where
  "rollback_default c =
     (pg_rollback_block_column c = Some ''block_number'' \<and> pg_rollback_chain_column c = Some ''chain_id''
      \<and> (\<forall>(path, col) \<in> set (pg_column_map c). col \<noteq> ''block_number'' \<and> col \<noteq> ''chain_id''))"

text \<open>What is asked of a chain's logs: numbers in range, rows with their keys, one type per column.\<close>

definition decoded_fit ::
  "pg_config \<Rightarrow> string set \<Rightarrow> alloy \<Rightarrow> decoder \<Rightarrow> u64 \<Rightarrow> json list \<Rightarrow> bool" where
  "decoded_fit c N A d chain logs =
     (rows_by_key (pg_unique_key c) (set (log_rows c (decoded_image A d chain) logs))
      \<and> (\<forall>l \<in> set logs. json_ok l \<and> decodable A d chain l
           \<and> (case block_number_of l of None \<Rightarrow> False | Some n \<Rightarrow> unat n < 2 ^ 63)
           \<and> (\<forall>r \<in> set (log_rows c (decoded_image A d chain) [l]).
                keyed (pg_unique_key c) r \<and> columns_typed N r)))"

lemma unmapped_column:
  assumes "json_ok r" "\<forall>(path, col) \<in> set cm. col \<noteq> k" "jget k r = Some v" "\<not> is_nested v"
  shows "map_of (resolve_columns r cm) k = Some v"
proof -
  obtain m where r: "r = JObj m" using assms(3) by (cases r) simp_all
  have "mapped_values r cm k = []"
    using assms(2) by (induction cm) (auto simp: mapped_values_def List.map_filter_simps)
  moreover have "map_of (scalar_columns r) k = Some v"
    using map_of_filter_in [of m k v "\<lambda>k v. \<not> is_nested v"] assms(3,4) by (simp add: r scalar_columns_def)
  ultimately show ?thesis using resolve_columns_ok(2) [OF assms(1)] by (simp add: column_value_def)
qed

lemma decoded_imageD: "out \<in> set (decoded_image A d chain l) \<Longrightarrow> decode_record A d chain l = Inr (Some out)"
  by (auto simp: decoded_image_def split: sum.splits option.splits)

lemma decoded_located:
  assumes "decode_record A d chain l = Inr (Some out)" "d_on_undecodable d = Drop" "json_ok l"
    and "block_number_of l = Some n" "rollback_default c"
  shows "row_located c chain n (resolve_columns out (pg_column_map c))"
proof -
  obtain e t where "decode_known A chain l t e = Inr (Some out)"
    using assms(1,2) by (auto simp: decode_record_def undecodable_def split: option.splits sum.splits)
  from decode_known_obj [OF this] obtain params where
    out: "out = obj (decoded_fields chain l e params)" by blast
  have n: "u64_field l ''block_number'' = Some n" using assms(4) by (simp add: u64_field_def block_number_of_def)
  have "jget ''block_number'' out = Some (jnat n)" "jget ''chain_id'' out = Some (jnat chain)"
    by (simp_all add: out jget_obj decoded_fields_def opt_field_def n split: option.split)
  moreover have "\<forall>(path, col) \<in> set (pg_column_map c). col \<noteq> ''block_number''"
    "\<forall>(path, col) \<in> set (pg_column_map c). col \<noteq> ''chain_id''" "\<not> is_nested (jnat m)" for m
    using assms(5) by (auto simp: rollback_default_def jnat_def)
  ultimately show ?thesis
    using assms(5) unmapped_column [OF json_ok_decoded [OF assms(1,3)]]
    by (simp add: row_located_def rollback_default_def)
qed

lemma decoded_logs_fit:
  assumes "decoded_fit c N A d chain logs" "rollback_default c" "d_on_undecodable d = Drop" "unat chain < 2 ^ 63"
  shows "logs_fit c N (decoded_image A d chain) (decodable A d chain) chain logs"
proof -
  have "decodable A d chain l \<and> (\<exists>n. block_number_of l = Some n
      \<and> (\<forall>r \<in> set (log_rows c (decoded_image A d chain) [l]). row_fits c N r \<and> row_located c chain n r))"
    if l: "l \<in> set logs" for l
  proof -
    obtain n where n: "block_number_of l = Some n" "unat n < 2 ^ 63" and ok: "json_ok l" "decodable A d chain l"
      and rows: "\<forall>r \<in> set (log_rows c (decoded_image A d chain) [l]). keyed (pg_unique_key c) r \<and> columns_typed N r"
      using assms(1) l by (auto simp: decoded_fit_def split: option.splits)
    have "row_fits c N r \<and> row_located c chain n r" if r: "r \<in> set (log_rows c (decoded_image A d chain) [l])" for r
    proof -
      obtain out where out: "decode_record A d chain l = Inr (Some out)" "r = resolve_columns out (pg_column_map c)"
        using r decoded_imageD by (auto simp: log_rows_def)
      have "row_located c chain n r" using decoded_located [OF out(1) assms(3) ok(1) n(1) assms(2)] out(2) by simp
      moreover have "distinct (map fst r)"
        using resolve_columns_ok(1) [OF json_ok_decoded [OF out(1) ok(1)]] out(2) by (simp add: btm_ok_distinct)
      moreover have "numbered c (map_of r)"
        using \<open>row_located c chain n r\<close> n(2) assms(4) by (auto simp: row_located_def numbered_def bigint_value_def)
      ultimately show ?thesis using rows r by (simp add: row_fits_def)
    qed
    then show ?thesis using n(1) ok(2) by blast
  qed
  then show ?thesis using assms(1) by (simp add: logs_fit_def decoded_fit_def)
qed

section \<open>The property\<close>


section \<open>A fork of one block\<close>

text \<open>
  Blocks 5 and 6 are served, then block 6 is replaced: the second reply shows its new hash,
  the sweep reports both hashes, and the fourth reply has the new block's log.
\<close>

definition tx_log :: "u64 \<Rightarrow> string \<Rightarrow> json" where
  "tx_log n h = JObj [(''block_number'', jnat n), (''log_index'', jnat 0), (''topic0'', JStr ''dd''),
     (''transaction_hash'', JStr h)]"

definition page :: "json list \<Rightarrow> (u64 \<times> string) list \<Rightarrow> u64 \<Rightarrow> json" where
  "page logs blocks next = JObj [(''data'', JObj
     [(''blocks'', JArr (map (\<lambda>(n, h). JObj [(''hash'', JStr h), (''number'', jnat n)]) blocks)),
      (''logs'', JArr logs)]), (''next_block'', jnat next)]"

definition served :: "nat \<Rightarrow> json" where
  "served w =
     (if w = 0 then page [tx_log 5 ''x'', tx_log 6 ''y''] [(5, ''a''), (6, ''b'')] 7
      else if w = 1 then page [] [(6, ''c'')] 8
      else if w = 2 then page [] [(5, ''a''), (6, ''c'')] 7
      else page [tx_log 6 ''z''] [(6, ''c'')] 7)"

definition served_env :: "(json mem_kv, nat, json) src_env" where
  "served_env = demo_env \<lparr> e_http := \<lambda>w req. (Inr (200, served w), w + 1) \<rparr>"

definition live_source :: hs_source where
  "live_source = (demo_source Live) \<lparr> s_to_block := None, s_client := client_new ''h'' None
     \<lparr> q_logs = [], q_field_selection = \<lparr> fs_log = [], fs_block = [], fs_transaction = [] \<rparr> \<rparr> True \<rparr>"

definition old_view :: chain_view where
  "old_view = (\<lambda>n. if n < 6 then ''a'' else ''b'', [tx_log 5 ''x'', tx_log 6 ''y''])"

definition new_view :: chain_view where
  "new_view = (\<lambda>n. if n < 6 then ''a'' else ''c'', [tx_log 5 ''x'', tx_log 6 ''z''])"

lemma parse_page:
  "parse_response (page logs blocks next) lo ts h =
     (let m = fold ingest_block (map (\<lambda>(n, h). JObj [(''hash'', JStr h), (''number'', jnat n)]) blocks) []
      in \<lparr> r_archive_height = None, r_next_block = next, r_records = map (join_block ts h m) logs,
           r_block_hashes = hashes_of m, r_rollback_guard = None \<rparr>)"
  by (simp add: parse_response_def page_def jget_u64_def ingest_data_def ingest_def jget_array_def
      parse_rollback_guard_def Let_def)

lemma joins: "c_join_ts (s_client live_source) = False" "c_join_hash (s_client live_source) = False"
  by (simp_all add: live_source_def client_new_def Let_def)

lemma served_query:
  "client_query (e_http served_env) (s_client live_source) lo hi w =
     (Inr (parse_response (served w) lo False False), w + 1)"
  by (simp add: client_query_def post_query_def served_env_def auth_def is_success_def joins)

lemma live_fields [simp]:
  "s_mode live_source = Live" "s_to_block live_source = None" "s_max_records live_source = 1000"
  "s_from_block live_source = 0" "s_chain_id live_source = 1" "s_name live_source = ''eth''"
  by (simp_all add: live_source_def) (simp add: demo_source_def)

lemma served_fields [simp]: "e_stop served_env w = False"
  by (simp add: served_env_def)

lemma served_pages:
  "parse_response (served 0) lo False False = \<lparr> r_archive_height = None, r_next_block = 7,
     r_records = [tx_log 5 ''x'', tx_log 6 ''y''], r_block_hashes = [(5, ''a''), (6, ''b'')], r_rollback_guard = None \<rparr>"
  "parse_response (served 1) lo False False = \<lparr> r_archive_height = None, r_next_block = 8,
     r_records = [], r_block_hashes = [(6, ''c'')], r_rollback_guard = None \<rparr>"
  "parse_response (served 2) lo False False = \<lparr> r_archive_height = None, r_next_block = 7,
     r_records = [], r_block_hashes = [(5, ''a''), (6, ''c'')], r_rollback_guard = None \<rparr>"
  "parse_response (served 3) lo False False = \<lparr> r_archive_height = None, r_next_block = 7,
     r_records = [tx_log 6 ''z''], r_block_hashes = [(6, ''c'')], r_rollback_guard = None \<rparr>"
  by (simp_all add: served_def parse_page ingest_block_def flex_u64_def jget_str_def hashes_of_def
      List.map_filter_simps join_block_def tx_log_def)

lemmas served_counted = served_pages [unfolded One_nat_def numeral_2_eq_2]

definition live_state :: "u64 \<Rightarrow> (u64 \<times> string) list \<Rightarrow> batch list \<Rightarrow> nat \<Rightarrow> (json mem_kv, nat) loop_state" where
  "live_state cursor hashes msgs w = \<lparr> l_cursor = cursor, l_backoff = 250,
     l_tracker = Some \<lparr> t_window = 64, t_hashes = hashes \<rparr>, l_kv = None,
     l_chan = \<lparr> ch_sent = msgs, ch_closes = None \<rparr>, l_world = w \<rparr>"

definition first_batch :: "batch list" where
  "first_batch = emit_batches live_source 5 7 [tx_log 5 ''x'', tx_log 6 ''y'']"

definition second_batch :: "batch list" where
  "second_batch = emit_batches live_source 6 7 [tx_log 6 ''z'']"

lemma live_start: "source_start served_env live_source 5 no_rows None 0 = live_state 5 [] [] 0"
  by (simp add: source_start_def live_state_def live_source_def demo_source_def tracker_load_def
      tracker_new_def no_rows_def)

lemma record_fields:
  "tracker_record \<lparr> r_archive_height = None, r_next_block = nb, r_records = rs, r_block_hashes = hs,
     r_rollback_guard = None \<rparr> e t = trim (record_hashes e hs t)"
  by (simp add: tracker_record_def)

lemma live_first: "source_iter served_env live_source (live_state 5 [] [] 0)
    = Continue (live_state 7 [(5, ''a''), (6, ''b'')] first_batch 1)"
  by (simp add: source_iter_def served_query live_state_def served_pages response_step_def has_conflict_def
      conflict_def plan_step_def min_opt_def confirmed_bound_def emit_step_def check_hash_def
      confirmed_records_def first_batch_def send_all_open remember_def record_fields record_hashes_def
      insert_hash_def trim_def tracker_save_def Let_def)

lemma live_sweep:
  "block_hashes (e_http served_env) (s_client live_source) 5 7 2 = (Inr [(5, ''a''), (6, ''c'')], 3)"
  by (simp add: block_hashes_def block_hashes_loop.simps post_query_def served_env_def auth_def is_success_def
      served_pages Let_def)

lemmas live_sweep_counted = live_sweep [unfolded numeral_2_eq_2]

lemma live_rollback: "source_iter served_env live_source (live_state 7 [(5, ''a''), (6, ''b'')] first_batch 1)
    = Continue (live_state 6 [(5, ''a'')] (first_batch @ [rollback_batch live_source 5]) 3)"
  by (simp add: source_iter_def served_query live_state_def served_counted response_step_def has_conflict_def
      conflict_def check_hash_def note_block_def rollback_step_def locate_fork_def min_block_def live_sweep_counted
      last_matching_def purge_after_def send_def sat_add_def tracker_save_def Let_def)

lemma live_second: "source_iter served_env live_source
      (live_state 6 [(5, ''a'')] (first_batch @ [rollback_batch live_source 5]) 3)
    = Continue (live_state 7 [(5, ''a''), (6, ''c'')] (first_batch @ [rollback_batch live_source 5] @ second_batch) 4)"
  by (simp add: source_iter_def served_query live_state_def served_pages response_step_def has_conflict_def
      conflict_def plan_step_def min_opt_def confirmed_bound_def emit_step_def check_hash_def
      confirmed_records_def second_batch_def send_all_open remember_def record_fields record_hashes_def
      insert_hash_def trim_def tracker_save_def Let_def)

section \<open>Its run\<close>

lemma tx_block [simp]: "block_number_of (tx_log n h) = Some n"
  by (simp add: tx_log_def block_number_of_def)

lemma six_cases: "(n :: u64) < 6 \<or> n = 6 \<or> 6 < n"
  by auto

lemma views_commit:
  "commits (fst old_view) (snd old_view) (fst new_view) (snd new_view)"
  "commits (fst new_view) (snd new_view) (fst old_view) (snd old_view)"
  by (auto simp: commits_def old_view_def new_view_def up_to_def split: if_splits)

lemma views_ok: "chains_ok {old_view, new_view}"
proof -
  have "commits h l h l" for h l by (simp add: commits_def)
  then show ?thesis using views_commit
    by (simp add: chains_ok_def case_prod_beta) (simp add: old_view_def new_view_def logs_ok_def)
qed

lemma first_reply: "honest_reply served_env live_source (fst old_view) (snd old_view) (live_state 5 [] [] 0)"
  by (simp add: honest_reply_def served_query live_state_def served_pages honest_def old_view_def in_range_def)

lemma second_reply:
  "honest_reply served_env live_source (fst new_view) (snd new_view) (live_state 6 [(5, ''a'')] msgs 3)"
  by (simp add: honest_reply_def served_query live_state_def served_pages honest_def new_view_def in_range_def)

definition first_life :: "batch list" where
  "first_life = first_batch @ [rollback_batch live_source 5] @ second_batch"

text \<open>Then the process stops and starts again at block 6, without a stored window.\<close>

lemma live_again: "source_start served_env live_source 6 no_rows None 3 = live_state 6 [] [] 3"
  by (simp add: source_start_def live_state_def live_source_def demo_source_def tracker_load_def
      tracker_new_def no_rows_def)

lemma live_third: "source_iter served_env live_source (live_state 6 [] [] 3)
    = Continue (live_state 7 [(6, ''c'')] second_batch 4)"
  by (simp add: source_iter_def served_query live_state_def served_pages response_step_def has_conflict_def
      conflict_def plan_step_def min_opt_def confirmed_bound_def emit_step_def check_hash_def
      confirmed_records_def second_batch_def send_all_open remember_def record_fields record_hashes_def
      insert_hash_def trim_def tracker_save_def Let_def)

lemma third_reply:
  "honest_reply served_env live_source (fst new_view) (snd new_view) (live_state 6 [] [] 3)"
  by (simp add: honest_reply_def served_query live_state_def served_pages honest_def new_view_def in_range_def)

lemma first_life_rows: "SourceFacts.table first_life = [tx_log 5 ''x'', tx_log 6 ''z'']"
proof -
  have "SourceFacts.table ([] @ first_batch) = [tx_log 5 ''x'', tx_log 6 ''y'']"
    unfolding first_batch_def by (subst table_append_emit) (simp_all add: table_def)
  then have "SourceFacts.table (first_batch @ [rollback_batch live_source 5]) = [tx_log 5 ''x'']"
    by (subst table_append_rollback) (simp add: up_to_def)
  then show ?thesis
    unfolding first_life_def second_batch_def append_assoc [symmetric] by (subst table_append_emit) simp_all
qed

lemma live_state_fields [simp]:
  "l_cursor (live_state c hs ms w) = c" "ch_sent (l_chan (live_state c hs ms w)) = ms"
  "l_world (live_state c hs ms w) = w" "l_tracker (live_state c hs ms w) = Some \<lparr> t_window = 64, t_hashes = hs \<rparr>"
  by (simp_all add: live_state_def)

lemma live_follows:
  "follows served_env live_source {old_view, new_view} (fst new_view) (snd new_view) 5 7 first_life
     (live_state 7 [(6, ''c'')] second_batch 4)"
proof -
  let ?F = "follows served_env live_source {old_view, new_view}"
  let ?r = "\<lparr> r_archive_height = None, r_next_block = 8, r_records = [], r_block_hashes = [(6, ''c'')],
     r_rollback_guard = None \<rparr>"
  let ?t = "\<lparr> t_window = 64, t_hashes = [(5, ''a''), (6, ''b'')] \<rparr>"
  have "?F (fst old_view) (snd old_view) 5 5 [] (live_state 5 [] [] 0)"
    using follows_start [where env = served_env and V = "{old_view, new_view}" and s = live_source and c = 5
        and kv = None and w = 0 and hash = "fst old_view" and logs = "snd old_view", OF _ refl]
    unfolding live_start by (simp add: tracks_def tracker_ok_def)
  from follows_iter [OF this first_reply refl] have f1:
    "?F (fst old_view) (snd old_view) 5 7 [] (live_state 7 [(5, ''a''), (6, ''b'')] first_batch 1)"
    by (simp add: live_first)
  have match: "matching ?t (map_of (rev [(5, ''a''), (6, ''c'')])) = {5}"
    by (auto simp: matching_def split: if_splits)
  have "?F (fst new_view) (snd new_view) (min 5 (l_cursor (live_state 6 [(5, ''a'')] (first_batch @ [rollback_batch live_source 5]) 3)))
      (l_cursor (live_state 6 [(5, ''a'')] (first_batch @ [rollback_batch live_source 5]) 3)) []
      (live_state 6 [(5, ''a'')] (first_batch @ [rollback_batch live_source 5]) 3)"
  proof (rule follows_reorg [where resp = ?r and ?w1.0 = 2 and ?w2.0 = 3 and t = ?t and m = 5
        and canonical = "[(5, ''a''), (6, ''c'')]", OF f1 _ _ _ _ _ _ _ _ _ _ _ live_rollback])
    show "client_query (e_http served_env) (s_client live_source) (l_cursor (live_state 7 [(5, ''a''), (6, ''b'')] first_batch 1))
        (s_to_block live_source) (l_world (live_state 7 [(5, ''a''), (6, ''b'')] first_batch 1)) = (Inr ?r, 2)"
      by (simp add: served_query served_counted numeral_2_eq_2)
    show "block_hashes (e_http served_env) (s_client live_source) 5
        (l_cursor (live_state 7 [(5, ''a''), (6, ''b'')] first_batch 1)) 2 = (Inr [(5, ''a''), (6, ''c'')], 3)"
      using live_sweep by simp
    show "matching ?t (map_of (rev [(5, ''a''), (6, ''c'')])) \<noteq> {}"
      "Max (matching ?t (map_of (rev [(5, ''a''), (6, ''c'')]))) < l_cursor (live_state 7 [(5, ''a''), (6, ''b'')] first_batch 1)"
      unfolding match by simp_all
  qed (auto simp: conflict_def check_hash_def note_block_def min_block_def new_view_def)
  then have "?F (fst new_view) (snd new_view) 5 6 [] (live_state 6 [(5, ''a'')] (first_batch @ [rollback_batch live_source 5]) 3)"
    by simp
  from follows_iter [OF this second_reply refl] have f2:
    "?F (fst new_view) (snd new_view) 5 7 [] (live_state 7 [(5, ''a''), (6, ''c'')] first_life 4)"
    by (simp add: live_second first_life_def)
  have "?F (fst new_view) (snd new_view) 5 7 first_life (live_state 6 [] [] 3)"
  proof (rule follows_restart [OF f2, where k = "length first_life"])
    show "live_state 6 [] [] 3 = source_start served_env live_source 6 no_rows None 3" by (simp only: live_again)
  qed (auto simp: first_life_rows new_view_def in_range_def tracks_def tracker_ok_def)
  from follows_iter [OF this third_reply refl] show ?thesis by (simp add: live_third)
qed

definition mirror_pg :: pg_sink where
  "mirror_pg = \<lparr> pg_cfg = \<lparr> pg_connection = ''db'', pg_table = ''t'', pg_upsert = True,
       pg_unique_key = [''block_number'', ''log_index''], pg_create_table = False, pg_column_map = [],
       pg_rollback_block_column = Some ''block_number'', pg_rollback_chain_column = Some ''chain_id'' \<rparr>,
     pg_created = False \<rparr>"

definition tx_row :: "u64 \<Rightarrow> string \<Rightarrow> row" where
  "tx_row n h = [(''block_number'', jnat n), (''chain_id'', jnat 1), (''event'', JStr ''Transfer''),
     (''log_index'', jnat 0), (''signature'', JStr ''Transfer(address,address,uint256)''), (''transaction_hash'', JStr h)]"

lemma tx_decoded: "\<exists>ps. decode_record sample_alloy sample_decoder 1 (tx_log n h) = Inr (Some
   (obj [(''chain_id'', jnat 1), (''block_number'', jnat n), (''transaction_hash'', JStr h), (''log_index'', jnat 0),
     (''event'', JStr ''Transfer''), (''signature'', JStr ''Transfer(address,address,uint256)''), (''params'', JObj ps)]))"
  by (simp add: decode_record_def decode_known_def sample_decoder_def sample_alloy_def sample_event_def tx_log_def
      decoded_fields_def opt_field_def u64_field_def jget_str_def del: pair_params.simps) blast

lemma tx_rows: "log_rows (pg_cfg mirror_pg) (decoded_image sample_alloy sample_decoder 1) [tx_log n h] = [tx_row n h]"
proof -
  obtain ps where d: "decode_record sample_alloy sample_decoder 1 (tx_log n h) = Inr (Some
   (obj [(''chain_id'', jnat 1), (''block_number'', jnat n), (''transaction_hash'', JStr h), (''log_index'', jnat 0),
     (''event'', JStr ''Transfer''), (''signature'', JStr ''Transfer(address,address,uint256)''), (''params'', JObj ps)]))"
    using tx_decoded by blast
  show ?thesis
    by (simp add: log_rows_def decoded_image_def d mirror_pg_def resolve_columns_def map_columns_def scalar_columns_def
        obj_def btm_of_list_def less_char_def less_eq_char_def jnat_def tx_row_def)
qed

lemma tx_fit:
  assumes "h = ''x'' \<or> h = ''y'' \<or> h = ''z''" "unat n < 2 ^ 63"
  shows "json_ok (tx_log n h)" "decodable sample_alloy sample_decoder 1 (tx_log n h)"
    "keyed [''block_number'', ''log_index''] (tx_row n h)" "columns_typed {} (tx_row n h)"
proof -
  show "decodable sample_alloy sample_decoder 1 (tx_log n h)" using tx_decoded [of n h] by (auto simp: decodable_def)
  show "json_ok (tx_log n h)" by (simp add: tx_log_def jnat_def btm_ok_def less_char_def less_eq_char_def)
  show "keyed [''block_number'', ''log_index''] (tx_row n h)" by (simp add: keyed_def tx_row_def jnat_def)
  have "\<not> is_decimal_str ''x''" "\<not> is_decimal_str ''y''" "\<not> is_decimal_str ''z''" by code_simp+
  then have "\<not> is_decimal_str h" using assms(1) by blast
  moreover have "\<not> is_decimal_str ''Transfer''" "\<not> is_decimal_str ''Transfer(address,address,uint256)''" by code_simp+
  ultimately show "columns_typed {} (tx_row n h)"
    by (simp add: columns_typed_def tx_row_def casts_numeric_def jnat_def)
qed

lemma view_fits:
  assumes "h = ''y'' \<or> h = ''z''"
  shows "decoded_fit (pg_cfg mirror_pg) {} sample_alloy sample_decoder 1 [tx_log 5 ''x'', tx_log 6 h]"
proof -
  let ?rows = "log_rows (pg_cfg mirror_pg) (decoded_image sample_alloy sample_decoder 1)"
  have "set (?rows [tx_log 5 ''x'', tx_log 6 h]) = {tx_row 5 ''x'', tx_row 6 h}"
    using log_rows_append [of "pg_cfg mirror_pg" "decoded_image sample_alloy sample_decoder 1" "[tx_log 5 ''x'']" "[tx_log 6 h]"]
    by (simp add: tx_rows)
  moreover have "key_of [''block_number'', ''log_index''] (tx_row n g) = [Some (jnat n), Some (jnat 0)]" for n g
    by (simp add: key_of_def tx_row_def)
  moreover have "pg_unique_key (pg_cfg mirror_pg) = [''block_number'', ''log_index'']" by (simp add: mirror_pg_def)
  ultimately show ?thesis
    using tx_fit [of h 6] tx_fit [of "''x''" 5] assms by (auto simp: decoded_fit_def tx_rows rows_by_key_def jnat_def)
qed

lemma glue_accepts:
  assumes "is_control b \<Longrightarrow> as_control b \<noteq> None" "set oks \<subseteq> {True}"
  shows "\<exists>p' T' oks'. pg_glue exec p b (T, True # oks) = (Inr (), p', (T', oks'))
     \<and> set oks' \<subseteq> {True} \<and> length oks \<le> length oks'"
  using assms
  by (cases "is_control b")
    (auto simp: glue_write_def pg_write_def pg_on_control_def Let_def split: option.split control_record.split)

lemma sink_accepts:
  "\<forall>b \<in> set bs. is_control b \<longrightarrow> as_control b \<noteq> None \<Longrightarrow> set oks \<subseteq> {True} \<Longrightarrow> length bs \<le> length oks
   \<Longrightarrow> \<exists>T' oks'. sink_history (pg_glue exec) p bs (T, oks) = (bs, T', oks')"
proof (induction bs arbitrary: p T oks)
  case (Cons b bs)
  then obtain oks0 where n: "oks = True # oks0" "set oks0 \<subseteq> {True}" "length bs \<le> length oks0" by (cases oks) auto
  obtain p' T' oks1 where g: "pg_glue exec p b (T, True # oks0) = (Inr (), p', (T', oks1))"
      "set oks1 \<subseteq> {True}" "length oks0 \<le> length oks1"
    using glue_accepts [of b oks0 exec p T] Cons.prems(1) n(2) by auto
  then obtain T2 oks2 where "sink_history (pg_glue exec) p' bs (T', oks1) = (bs, T2, oks2)"
    using Cons.IH [of oks1 p' T'] Cons.prems(1) n(3) by auto
  then show ?case using g(1) unfolding n(1) by simp
qed simp

lemma life_messages: "b \<in> set (first_life @ second_batch) \<Longrightarrow> \<not> is_control b \<or> b = rollback_batch live_source 5"
  using emit_batches_not_control by (auto simp: first_life_def first_batch_def second_batch_def)

lemma live_messages:
  assumes "b \<in> set (concat (map (stage_of (decoder_process A) d) (first_life @ second_batch)))"
  shows "is_control b \<longrightarrow> as_control b \<noteq> None" "rollback_in_range b"
proof -
  obtain x where x: "x \<in> set (first_life @ second_batch)" "b \<in> set (stage_of (decoder_process A) d x)"
    using assms by auto
  have "\<not> is_control b \<or> b = rollback_batch live_source 5"
  proof (cases "is_control x")
    case True
    then have "b = x" using x(2) by (simp add: decoder_stage.control_passes)
    then show ?thesis using life_messages [OF x(1)] by simp
  next
    case False
    then show ?thesis using decoder_stage.stays_data x(2) by blast
  qed
  then show "is_control b \<longrightarrow> as_control b \<noteq> None" "rollback_in_range b"
    by (auto simp: rollback_batch_def rollback_in_range_def) (simp add: as_control_def)
qed


end
