(* ===== verification/Restart.thy ===== *)
theory Restart
  imports Run MirrorProps
begin

text \<open>
  What a crash does to a rollback that is on its way: the source saves its purged window
  before it sends the rollback, and a checkpoint may make the window durable before a sink
  has seen the message.
\<close>

section \<open>Runs on one chain\<close>

lemma loop_sends_data:
  assumes "honest_server (e_http env) s hash logs" "logs_ok logs" "0 < s_max_records s"
  shows "source_inv s hash logs c0 st \<Longrightarrow> \<forall>b \<in> set (ch_sent (l_chan st)). source_data s b
   \<Longrightarrow> \<forall>b \<in> set (ch_sent (l_chan (flow_state (source_loop n env s st)))). source_data s b"
proof (induction n arbitrary: st)
  case (Suc n)
  let ?st = "flow_state (source_iter env s st)"
  have "honest_reply env s hash logs st" using assms(1) by (simp add: honest_server_def honest_reply_def)
  then have "emits s hash logs (l_cursor st) st ?st"
    using Suc.prems(1) assms(3) by (intro source_iter_emits) (simp_all add: source_inv_def)
  then have "\<forall>b \<in> set (ch_sent (l_chan ?st)). source_data s b" using Suc.prems(2) by (auto simp: emits_def)
  moreover have "source_inv s hash logs c0 ?st" using source_iter_inv [OF Suc.prems(1) assms(2,3,1)] .
  ultimately show ?case using Suc.IH by (cases "source_iter env s st") auto
qed simp

section \<open>The lost rollback\<close>

text \<open>The restart after a checkpoint of the whole store, as the code opens it again.\<close>

definition reopened :: "'b ckpt \<Rightarrow> 'b ckpt" where
  "reopened ck = ckpt_open (Some (ck_db (snd (persist_snapshot True (ckpt_snapshot ck) ck))))"

lemma purged_window_tracks:
  assumes "tracks hash b (Some t)" "commits hash logs hash' logs'" "f \<in> matching t canonical"
    and "\<And>n h. canonical n = Some h \<Longrightarrow> h = hash' n" "f < c"
  shows "tracks hash' c (Some (purge_after f t))"
proof -
  obtain h where h: "map_of (t_hashes t) f = Some h" "canonical f = Some h" using assms(3) by (auto simp: matching_def)
  then have "hash f = hash' f" using assms(1,4) by (auto simp: tracks_def)
  then have "\<forall>n \<le> f. hash n = hash' n" using assms(2) unfolding commits_def by blast
  then show ?thesis
    using assms(1,5) by (auto simp: tracks_def tracker_ok_purge purge_after_view split: if_splits)
qed

text \<open>
  C35: a crash can lose a rollback.  The source finds the fork, saves the purged window and sends
  the rollback; the next checkpoint makes the window durable together with the sinks' cursors,
  which still stand at \<open>c\<close>, above the fork, because no sink has seen the message; then the
  process dies.  The next one resumes at \<open>c\<close> with a window that ends at the fork, which
  conflicts with no reply of the new chain: it never sends a rollback again and reads the new
  chain from \<open>c\<close> on only.  The rows of the abandoned blocks above the fork stay in the sinks, and
  the new chain's logs between the fork and \<open>c\<close> are never delivered.
\<close>

theorem crash_forgets_rollback:
  assumes "source_inv s hash logs c0 st" "l_tracker st = Some t" "commits hash logs hash' logs'" "logs_ok logs'"
    and "min_block t = Some m"
    and "block_hashes (e_http env) (s_client s) m (l_cursor st) (l_world st) = (Inr canonical, w)"
    and "\<forall>(n, h) \<in> set canonical. h = hash' n" "matching t (map_of (rev canonical)) \<noteq> {}"
    and "l_kv st = Some ck" "ck_reach ck p" "kv_coherent ck"
    and "e_kv_get env = ckpt_kv_get True" "e_kv_set env = ckpt_kv_set" "\<And>v. e_from_slice env (e_to_vec env v) = Inr v"
    and "s_reorg_enabled s" "t_window t = max (s_reorg_window s) 1" "0 < s_max_records s"
    and "rollback_step env s t st = Continue st'" "l_kv st' = Some ck'"
    and "start_cursor ck' reach s = c" "Max (matching t (map_of (rev canonical))) < c"
    and "honest_server (e_http env) s hash' logs'"
  shows "start_cursor (reopened ck') reach s = c
    \<and> (let st2 = flow_state (source_run n env s c no_rows (Some (reopened ck')) w2)
       in SourceFacts.table (ch_sent (l_chan st2)) = filter (in_range c (l_cursor st2)) logs'
          \<and> (\<forall>b \<in> set (ch_sent (l_chan st2)). source_data s b))"
proof -
  define f where "f = Max (matching t (map_of (rev canonical)))"
  have f: "f \<in> matching t (map_of (rev canonical))" using assms(8) unfolding f_def by (intro Max_in) simp_all
  have tr: "tracks hash (l_cursor st) (Some t)" "tracker_ok t"
    using assms(1,2) by (simp_all add: source_inv_def tracks_def)
  have fork: "locate_fork (e_http env) s t (l_cursor st) (l_world st) = (f, w)"
    using locate_fork_cases [OF tr(2) assms(5,6)] assms(8) by (simp add: f_def Let_def)
  have saved: "tracker_save ckpt_kv_set (e_to_vec env) (purge_after f t) (s_name s) (Some ck) = Some ck'"
    using assms(9,13,18,19) fork by (auto simp: rollback_step_def Let_def split: prod.splits bool.splits)
  then have ck': "ck' = ckpt_kv_set ck (kv_module (s_name s)) KV_KEY (e_to_vec env (pairs_to_value (t_hashes (purge_after f t))))"
    by (simp add: tracker_save_def)
  have "ck_reach ck' p" unfolding ck' by (rule ck_reach.set [OF assms(10)])
  from start_cursor_cong [OF full_persist_reopens [OF this]]
  have cursor: "start_cursor (reopened ck') reach s = c" using assms(20) by (simp add: reopened_def)
  have "maps_ok ck" using ckpt_inv_reach [OF assms(10)] by (simp add: ckpt_inv_def)
  from saved_window_reloads [OF this assms(11,14) tracker_ok_purge [OF tr(2)] _ saved, of "s_reorg_window s"]
  have window: "fst (tracker_load (ckpt_kv_get True) (e_from_slice env) (s_reorg_window s) (s_name s) (Some (reopened ck')))
      = purge_after f t"
    using assms(16) by (simp add: reopened_def purge_after_def)
  have "s_from_block s \<le> c" using assms(20) by (auto simp: start_cursor_def default_start_def split: option.splits)
  moreover have "c \<noteq> 0" using assms(21) by auto
  ultimately have start: "l_cursor (source_start env s c no_rows (Some (reopened ck')) w2) = c"
    "l_tracker (source_start env s c no_rows (Some (reopened ck')) w2) = Some (purge_after f t)"
    using window assms(12,15) by (auto simp: source_start_def Let_def max_def split: prod.split)
  have "tracks hash' c (Some (purge_after f t))"
  proof (rule purged_window_tracks [OF tr(1) assms(3) f])
    show "h = hash' n" if "map_of (rev canonical) n = Some h" for n h
      using map_of_SomeD [OF that] assms(7) by auto
  qed (use assms(21) in \<open>simp add: f_def\<close>)
  then have inv: "source_inv s hash' logs' c (source_start env s c no_rows (Some (reopened ck')) w2)"
    using source_start_inv [OF no_rows_def, of hash' env s c "Some (reopened ck')" w2 logs'] start by simp
  then show ?thesis
    using cursor source_loop_inv [OF inv assms(4,17,22), of n] loop_sends_data [OF assms(22,4,17) inv, of n]
    by (simp add: source_run_def source_inv_def Let_def no_rows_def)
qed

section \<open>A crash before the sinks saw the rollback\<close>

text \<open>The two-block chain of \<open>SourceProps\<close>, with the checkpoint store behind the window.\<close>

definition crash_env :: "(json ckpt, nat, json) src_env" where
  "crash_env = \<lparr> e_http = fork_http, e_stop = (\<lambda>_. False), e_kv_get = ckpt_kv_get True,
     e_kv_set = ckpt_kv_set, e_from_slice = Inr, e_to_vec = (\<lambda>v. v) \<rparr>"

definition acked_ckpt :: "json ckpt" where
  "acked_ckpt = ckpt_ack ''eth'' ''pg'' 2 (ckpt_open None)"

definition crash_state :: "(json ckpt, nat) loop_state" where
  "crash_state = \<lparr> l_cursor = 2, l_backoff = 250, l_tracker = Some fork_tracker, l_kv = Some acked_ckpt,
     l_chan = l_chan fork_state, l_world = 0 \<rparr>"

definition purged_ckpt :: "json ckpt" where
  "purged_ckpt = ckpt_kv_set acked_ckpt (kv_module ''eth'') KV_KEY (pairs_to_value [(0, ''a'')])"

lemma acked_reach: "ck_reach acked_ckpt None"
  unfolding acked_ckpt_def by (intro ck_reach.intros) (simp add: small_def)

lemma acked_coherent: "kv_coherent acked_ckpt"
  by (simp add: acked_ckpt_def kv_coherent_def ckpt_ack_def ckpt_open_def Let_def)

lemma crash_inv: "source_inv (demo_source Live) old_hash old_logs 0 crash_state"
  using fork_inv by (simp add: source_inv_def crash_state_def fork_state_def)

lemma crash_rollback: "\<exists>st'. rollback_step crash_env (demo_source Live) fork_tracker crash_state = Continue st'
    \<and> l_kv st' = Some purged_ckpt"
  using fork_hashes
  by (simp add: rollback_step_def locate_fork_def crash_env_def crash_state_def fork_state_def fork_tracker_def
      min_block_def last_matching_def purge_after_def tracker_save_def purged_ckpt_def demo_source_def send_def Let_def)

lemma crash_cursor: "start_cursor purged_ckpt [(''eth'', [''pg''])] (demo_source Live) = 2"
  by (simp add: start_cursor_def purged_ckpt_def acked_ckpt_def ckpt_kv_set_def ckpt_ack_def ckpt_open_def empty_db_def
      ckpt_restore_def default_start_def demo_source_def u64_max_def Let_def)

lemma crash_honest: "honest_server fork_http (demo_source Live) new_hash new_logs"
  by (auto simp: honest_server_def honest_def client_query_def post_query_def fork_http_def auth_def is_success_def
      parse_response_def jget_u64_def ingest_data_def ingest_def jget_array_def ingest_block_def flex_u64_def
      jget_str_def hashes_of_def List.map_filter_simps parse_rollback_guard_def new_hash_def split: option.splits)

lemma new_logs_ok: "logs_ok new_logs"
  by (simp add: logs_ok_def new_logs_def block_number_of_def)

lemma new_logs_from_two: "filter (in_range 2 b) new_logs = []"
  by (simp add: new_logs_def in_range_def block_number_of_def) (simp add: word_le_nat_alt)

text \<open>The cursor is 2, the fork was block 0: whatever follows, the new log of block 1 never arrives.\<close>

theorem crash_forgets_rollback_witness:
  "start_cursor (reopened purged_ckpt) [(''eth'', [''pg''])] (demo_source Live) = 2
   \<and> (\<forall>n w2. SourceFacts.table (ch_sent (l_chan (flow_state
        (source_run n crash_env (demo_source Live) 2 no_rows (Some (reopened purged_ckpt)) w2)))) = [])"
proof -
  obtain st' where st': "rollback_step crash_env (demo_source Live) fork_tracker crash_state = Continue st'"
    "l_kv st' = Some purged_ckpt" using crash_rollback by blast
  have e: "e_http crash_env = fork_http" "e_kv_get crash_env = ckpt_kv_get True" "e_kv_set crash_env = ckpt_kv_set"
    "\<And>v. e_from_slice crash_env (e_to_vec crash_env v) = Inr v" by (simp_all add: crash_env_def)
  have s: "s_reorg_enabled (demo_source Live)" "t_window fork_tracker = max (s_reorg_window (demo_source Live)) 1"
    "0 < s_max_records (demo_source Live)" by (simp_all add: demo_source_def fork_tracker_def)
  have t: "l_tracker crash_state = Some fork_tracker" "min_block fork_tracker = Some 0" "l_kv crash_state = Some acked_ckpt"
    by (simp_all add: crash_state_def fork_tracker_def min_block_def)
  have hashes: "block_hashes (e_http crash_env) (s_client (demo_source Live)) 0 (l_cursor crash_state) (l_world crash_state)
      = (Inr [(0, ''a'')], 1)" using fork_hashes by (simp add: e crash_state_def)
  have m: "matching fork_tracker (map_of (rev [(0, ''a'')])) \<noteq> {}"
    "Max (matching fork_tracker (map_of (rev [(0, ''a'')]))) < 2" by (simp_all add: fork_matching)
  have "\<forall>(n, h) \<in> set [(0, ''a'')]. h = new_hash n" by (simp add: new_hash_def)
  from crash_forgets_rollback [OF crash_inv t(1) fork_commits new_logs_ok t(2) hashes this m(1) t(3) acked_reach
      acked_coherent e(2-4) s st' crash_cursor m(2) crash_honest [folded e(1)]]
  show ?thesis by (simp add: Let_def new_logs_from_two)
qed

end
